(* ===== verification/PreCall_Prelude.thy ===== *)
theory PreCall_Prelude
  imports Main "HOL-Library.Word"
begin

text \<open>
  The prelude of the development: the machine types of the Rust sources, results as sums,
  the little-endian byte encodings of \<open>bytes::BufMut\<close> and \<open>from_le_bytes\<close>, the ASCII case
  functions, the wrap-around of \<open>i64\<close>, and the generic driver of a framed decoder with the
  interface (a locale) that every wire decoder of the program satisfies.

  A \<open>Vec<u8>\<close>, \<open>Bytes\<close> or \<open>&[u8]\<close> is a list of 8-bit words. A \<open>usize\<close> that counts bytes in
  memory is a \<open>nat\<close>. A \<open>Result<T, E>\<close> is \<open>E + T\<close>, \<open>Inl\<close> for the error. A Rust \<open>String\<close> is a
  HOL string; case mapping and the alphanumeric test are the ASCII ones (other characters are
  left alone), which is what the program's own identifiers use.
\<close>

section \<open>Types\<close>

unbundle bit_operations_syntax

type_synonym u8 = "8 word"
type_synonym u16 = "16 word"
type_synonym u32 = "32 word"
type_synonym u64 = "64 word"
type_synonym bytes = "8 word list"

named_theorems wire_simps \<open>layout of the wire encodings\<close>
named_theorems keeps_intros \<open>actions that keep an invariant\<close>
named_theorems sim_intros \<open>actions with the same result from related states\<close>

section \<open>Results\<close>

fun rbind :: "'e + 'a \<Rightarrow> ('a \<Rightarrow> 'e + 'b) \<Rightarrow> 'e + 'b" where
  "rbind (Inl e) f = Inl e"
| "rbind (Inr a) f = f a"

fun is_ok :: "'e + 'a \<Rightarrow> bool" where
  "is_ok (Inl e) = False"
| "is_ok (Inr a) = True"

section \<open>Little-endian bytes\<close>

fun le_bytes :: "nat \<Rightarrow> 'a::len word \<Rightarrow> bytes" where
  "le_bytes 0 w = []"
| "le_bytes (Suc n) w = ucast w # le_bytes n (drop_bit 8 w)"

fun le_word :: "bytes \<Rightarrow> 'a::len word" where
  "le_word [] = 0"
| "le_word (b # bs) = ucast b OR push_bit 8 (le_word bs)"

declare le_word.simps [simp del]

section \<open>ASCII strings\<close>

definition ascii_upper :: "char \<Rightarrow> char" where
  "ascii_upper c =
     (let n = of_char c :: nat in if 97 \<le> n \<and> n \<le> 122 then char_of (n - 32) else c)"

definition ascii_lower :: "char \<Rightarrow> char" where
  "ascii_lower c =
     (let n = of_char c :: nat in if 65 \<le> n \<and> n \<le> 90 then char_of (n + 32) else c)"

definition ascii_alnum :: "char \<Rightarrow> bool" where
  "ascii_alnum c \<longleftrightarrow>
     (let n = of_char c :: nat
      in (48 \<le> n \<and> n \<le> 57) \<or> (65 \<le> n \<and> n \<le> 90) \<or> (97 \<le> n \<and> n \<le> 122))"

definition to_uppercase :: "string \<Rightarrow> string" where
  "to_uppercase s = map ascii_upper s"

definition to_lowercase :: "string \<Rightarrow> string" where
  "to_lowercase s = map ascii_lower s"

fun starts_with :: "string \<Rightarrow> string \<Rightarrow> bool" where
  "starts_with [] s = True"
| "starts_with (p # ps) [] = False"
| "starts_with (p # ps) (c # cs) = (p = c \<and> starts_with ps cs)"

definition ends_with :: "string \<Rightarrow> string \<Rightarrow> bool" where
  "ends_with suf s = starts_with (rev suf) (rev s)"

section \<open>Slices\<close>

text \<open>\<open>chunks\<close> of a slice: pieces of \<open>n\<close>, the last one with the rest; \<open>as_chunks\<close> has the whole
  pieces only.\<close>

function chunks_of :: "nat \<Rightarrow> 'a list \<Rightarrow> 'a list list" where
  "chunks_of n xs = (if n = 0 \<or> xs = [] then [] else take n xs # chunks_of n (drop n xs))"
  by auto
termination
  by (relation "measure (\<lambda>(n, xs). length xs)") auto

declare chunks_of.simps [simp del]

definition as_chunks :: "nat \<Rightarrow> 'a list \<Rightarrow> 'a list list" where
  "as_chunks n xs = [c\<leftarrow>chunks_of n xs. length c = n]"

section \<open>Signed 64-bit arithmetic\<close>

text \<open>\<open>i64\<close> values are integers; an operation of the code that may overflow wraps as the
  release build does (the workspace's release profile leaves overflow checks off).\<close>

definition i64_wrap :: "int \<Rightarrow> int" where
  "i64_wrap x = (x + 2 ^ 63) mod 2 ^ 64 - 2 ^ 63"

definition i64_range :: "int \<Rightarrow> bool" where
  "i64_range x \<longleftrightarrow> - (2 ^ 63) \<le> x \<and> x < 2 ^ 63"

text \<open>Rust's \<open>/\<close> on signed integers truncates towards zero.\<close>

definition trunc_div :: "int \<Rightarrow> int \<Rightarrow> int" where
  "trunc_div a b = sgn a * sgn b * (\<bar>a\<bar> div \<bar>b\<bar>)"

section \<open>Driving a framed decoder\<close>

text \<open>
  A decoder looks at a buffer and answers \<open>Ok(None)\<close> (more bytes are needed), \<open>Ok(Some f)\<close>
  with the bytes left, or an error. \<open>drain\<close> calls it until it stops answering frames;
  \<open>feed\<close> appends a chunk that the transport delivered and drains again. The second
  component of a state is the error that ended the stream.
\<close>

fun drain_fuel ::
  "(bytes \<Rightarrow> 'e + ('f \<times> bytes) option) \<Rightarrow> nat \<Rightarrow> bytes \<Rightarrow> 'f list \<times> bytes \<times> 'e option"
where
  "drain_fuel dec 0 buf = ([], buf, None)"
| "drain_fuel dec (Suc n) buf =
     (case dec buf of
        Inl e \<Rightarrow> ([], buf, Some e)
      | Inr None \<Rightarrow> ([], buf, None)
      | Inr (Some (f, rest)) \<Rightarrow>
          (let (fs, buf', e) = drain_fuel dec n rest in (f # fs, buf', e)))"

definition drain ::
  "(bytes \<Rightarrow> 'e + ('f \<times> bytes) option) \<Rightarrow> bytes \<Rightarrow> 'f list \<times> bytes \<times> 'e option" where
  "drain dec buf = drain_fuel dec (Suc (length buf)) buf"

definition feed ::
  "(bytes \<Rightarrow> 'e + ('f \<times> bytes) option) \<Rightarrow> 'f list \<times> bytes \<times> 'e option \<Rightarrow> bytes
     \<Rightarrow> 'f list \<times> bytes \<times> 'e option" where
  "feed dec st chunk =
     (case st of
        (fs, buf, Some e) \<Rightarrow> (fs, buf, Some e)
      | (fs, buf, None) \<Rightarrow>
          (let (gs, buf', e) = drain dec (buf @ chunk) in (fs @ gs, buf', e)))"

definition feed_all ::
  "(bytes \<Rightarrow> 'e + ('f \<times> bytes) option) \<Rightarrow> bytes list \<Rightarrow> 'f list \<times> bytes \<times> 'e option" where
  "feed_all dec chunks = foldl (feed dec) ([], [], None) chunks"

text \<open>What an observer of the stream sees: the frames, and the error that ended it.\<close>

definition stream_result :: "'f list \<times> bytes \<times> 'e option \<Rightarrow> 'f list \<times> 'e option" where
  "stream_result st = (case st of (fs, buf, e) \<Rightarrow> (fs, e))"

section \<open>Lemmas on results\<close>

lemma rbind_Inr_iff: "rbind r f = Inr b \<longleftrightarrow> (\<exists>a. r = Inr a \<and> f a = Inr b)"
  by (cases r) auto

lemma rbind_Inl_iff: "rbind r f = Inl e \<longleftrightarrow> r = Inl e \<or> (\<exists>a. r = Inr a \<and> f a = Inl e)"
  by (cases r) auto

section \<open>Lemmas on bytes\<close>

lemma length_le_bytes [simp]: "length (le_bytes n w) = n"
  by (induction n arbitrary: w) auto

lemma le_bytes_1 [wire_simps]: "le_bytes (Suc 0) w = [ucast w]"
  by simp

lemma le_bytes_2 [wire_simps]: "le_bytes 2 w = [ucast w, ucast (drop_bit 8 w)]"
  by (simp add: numeral_eq_Suc)

lemma le_bytes_4 [wire_simps]:
  "le_bytes 4 w =
     [ucast w, ucast (drop_bit 8 w), ucast (drop_bit 16 w), ucast (drop_bit 24 w)]"
  by (simp add: numeral_eq_Suc)

lemma bit_le_word_step:
  "bit (ucast (b :: u8) OR push_bit 8 w :: 'a::len word) i \<longleftrightarrow>
     i < LENGTH('a) \<and> (if i < 8 then bit b i else bit w (i - 8))"
  by (auto simp: bit_simps not_less dest: bit_imp_le_length)

lemma le_word_le_bytes: "le_word (le_bytes n (w :: 'a::len word)) = take_bit (8 * n) w"
proof (induction n arbitrary: w)
  case 0
  then show ?case by (simp add: le_word.simps)
next
  case (Suc n)
  show ?case
    by (rule bit_eqI)
      (auto simp: le_word.simps Suc.IH bit_le_word_step bit_simps not_less dest: bit_imp_le_length)
qed

lemma le_word_le_bytes_full [simp]:
  "LENGTH('a) = 8 * n \<Longrightarrow> le_word (le_bytes n (w :: 'a::len word)) = w"
  by (metis le_word_le_bytes order_refl take_bit_word_eq_self)

lemma le_word_append [simp]:
  "length bs = n \<Longrightarrow> le_word (take n (bs @ cs)) = le_word bs"
  by simp

section \<open>Lemmas on \<open>i64\<close>\<close>

lemma i64_wrap_id [simp]: "i64_range x \<Longrightarrow> i64_wrap x = x"
  by (simp add: i64_wrap_def i64_range_def)

lemma i64_wrap_range: "i64_range (i64_wrap x)"
  by (simp add: i64_wrap_def i64_range_def)

lemma trunc_div_nonneg: "0 \<le> a \<Longrightarrow> 0 < b \<Longrightarrow> trunc_div a b = a div b"
  by (cases "a = 0") (auto simp: trunc_div_def)

section \<open>The interface of a framed decoder\<close>

text \<open>
  What the transport relies on: a frame is only reported after consuming bytes, and a
  verdict (a frame or an error) does not change when more bytes arrive behind it.
\<close>

locale framed_decoder =
  fixes dec :: "bytes \<Rightarrow> 'e + ('f \<times> bytes) option"
  assumes empty_waits: "dec [] = Inr None"
    and consumes: "dec buf = Inr (Some (f, rest)) \<Longrightarrow> length rest < length buf"
    and stable_frame: "dec buf = Inr (Some (f, rest)) \<Longrightarrow> dec (buf @ x) = Inr (Some (f, rest @ x))"
    and stable_error: "dec buf = Inl e \<Longrightarrow> dec (buf @ x) = Inl e"
begin

lemma drain_fuel_enough:
  "length buf < n \<Longrightarrow> length buf < m \<Longrightarrow> drain_fuel dec n buf = drain_fuel dec m buf"
proof (induction n arbitrary: m buf)
  case 0
  then show ?case by simp
next
  case (Suc n)
  then obtain k where k: "m = Suc k" by (cases m) auto
  have "drain_fuel dec n rest = drain_fuel dec k rest"
    if "dec buf = Inr (Some (f, rest))" for f rest
    using Suc.IH [of rest k] consumes [OF that] Suc.prems k by simp
  then show ?case
    by (auto simp: k split: sum.splits option.splits prod.splits)
qed

lemma drain_unfold:
  "drain dec buf =
     (case dec buf of
        Inl e \<Rightarrow> ([], buf, Some e)
      | Inr None \<Rightarrow> ([], buf, None)
      | Inr (Some (f, rest)) \<Rightarrow>
          (let (fs, buf', e) = drain dec rest in (f # fs, buf', e)))"
proof -
  have "drain_fuel dec (length buf) rest = drain_fuel dec (Suc (length rest)) rest"
    if "dec buf = Inr (Some (f, rest))" for f rest
    using consumes [OF that] by (intro drain_fuel_enough) auto
  then show ?thesis
    by (auto simp: drain_def split: sum.splits option.splits prod.splits)
qed

lemma drain_stops:
  "drain dec buf = (fs, buf', None) \<Longrightarrow> dec buf' = Inr None"
proof (induction buf arbitrary: fs rule: length_induct)
  case (1 buf)
  show ?case
    using "1.prems" "1.IH" consumes
    by (subst (asm) drain_unfold) (fastforce split: sum.splits option.splits prod.splits)
qed

lemma drain_append:
  assumes "drain dec buf = (fs, buf', None)"
  shows "drain dec (buf @ x) = (let (gs, b, e) = drain dec (buf' @ x) in (fs @ gs, b, e))"
  using assms
proof (induction buf arbitrary: fs rule: length_induct)
  case (1 buf)
  show ?case
  proof (cases "dec buf")
    case (Inl e)
    then show ?thesis using "1.prems" by (subst (asm) drain_unfold) simp
  next
    case (Inr r)
    show ?thesis
    proof (cases r)
      case None
      then have "fs = []" "buf' = buf"
        using "1.prems" Inr by (subst (asm) drain_unfold, simp)+
      then show ?thesis by (simp split: prod.splits)
    next
      case (Some p)
      then obtain f rest where d: "dec buf = Inr (Some (f, rest))"
        using Inr by (cases p) auto
      then obtain gs where gs: "drain dec rest = (gs, buf', None)" "fs = f # gs"
        using "1.prems" by (subst (asm) drain_unfold) (auto split: prod.splits)
      have "drain dec (rest @ x) = (let (hs, b, e) = drain dec (buf' @ x) in (gs @ hs, b, e))"
        using "1.IH" consumes [OF d] gs by blast
      then show ?thesis
        using stable_frame [OF d] gs by (subst drain_unfold) (auto split: prod.splits)
    qed
  qed
qed

lemma drain_append_error:
  assumes "drain dec buf = (fs, buf', Some e)"
  shows "\<exists>b. drain dec (buf @ x) = (fs, b, Some e)"
  using assms
proof (induction buf arbitrary: fs rule: length_induct)
  case (1 buf)
  show ?case
  proof (cases "dec buf")
    case (Inl e')
    then have "fs = []" "e' = e"
      using "1.prems" by (subst (asm) drain_unfold, simp)+
    then show ?thesis
      using stable_error [OF Inl] by (subst drain_unfold) simp
  next
    case (Inr r)
    then obtain f rest where d: "dec buf = Inr (Some (f, rest))"
      using "1.prems" by (cases r) (subst (asm) drain_unfold, auto)+
    then obtain gs where gs: "drain dec rest = (gs, buf', Some e)" "fs = f # gs"
      using "1.prems" by (subst (asm) drain_unfold) (auto split: prod.splits)
    have "\<exists>b. drain dec (rest @ x) = (gs, b, Some e)"
      using "1.IH" consumes [OF d] gs by blast
    then show ?thesis
      using stable_frame [OF d] gs by (subst drain_unfold) (auto split: prod.splits)
  qed
qed

text \<open>However the transport cuts the stream, the frames and the error are the same.\<close>

lemma feed_all_snoc: "feed_all dec (cs @ [c]) = feed dec (feed_all dec cs) c"
  by (simp add: feed_all_def)

lemma feed_all_None:
  "feed_all dec chunks = (fs, buf, None) \<Longrightarrow> drain dec (concat chunks) = (fs, buf, None)"
proof (induction chunks arbitrary: fs buf rule: rev_induct)
  case Nil
  then show ?case
    using empty_waits by (subst drain_unfold) (simp add: feed_all_def)
next
  case (snoc c cs)
  obtain gs b where st: "feed_all dec cs = (gs, b, None)"
    using snoc.prems by (cases "feed_all dec cs") (auto simp: feed_all_snoc feed_def split: option.splits)
  show ?case
    using snoc.prems drain_append [OF snoc.IH [OF st], of c]
    by (simp add: feed_all_snoc st feed_def split: prod.splits)
qed

lemma feed_all_Some:
  "feed_all dec chunks = (fs, buf, Some e) \<Longrightarrow> \<exists>b. drain dec (concat chunks) = (fs, b, Some e)"
proof (induction chunks arbitrary: fs buf rule: rev_induct)
  case Nil
  then show ?case by (simp add: feed_all_def)
next
  case (snoc c cs)
  obtain gs b r where st: "feed_all dec cs = (gs, b, r)"
    by (cases "feed_all dec cs") auto
  show ?case
  proof (cases r)
    case None
    then show ?thesis
      using snoc.prems drain_append [OF feed_all_None [OF st [unfolded None]], of c] st
      by (auto simp: feed_all_snoc feed_def split: prod.splits)
  next
    case (Some e')
    then have "gs = fs" "e' = e"
      using snoc.prems st by (auto simp: feed_all_snoc feed_def)
    then show ?thesis
      using snoc.IH [of gs b] st Some drain_append_error [of "concat cs" fs _ e c] by auto
  qed
qed

lemma feed_all_drained:
  assumes "drain dec (concat chunks) = (fs, buf, None)"
  shows "feed_all dec chunks = (fs, buf, None)"
proof -
  obtain gs b r where st: "feed_all dec chunks = (gs, b, r)" by (cases "feed_all dec chunks")
  then show ?thesis
    using assms feed_all_None [of chunks gs b] feed_all_Some [of chunks gs b] by (cases r) auto
qed

lemma feed_all_result: "stream_result (feed_all dec chunks) = stream_result (drain dec (concat chunks))"
proof (cases "feed_all dec chunks")
  case (fields fs buf r)
  then show ?thesis
    using feed_all_None [of chunks fs buf] feed_all_Some [of chunks fs buf]
    by (cases r) (auto simp: stream_result_def)
qed

end

section \<open>State machines\<close>

text \<open>
  The components that keep state over many calls (the database, the sessions of the broker,
  the enricher) are step relations. What they share is stated once: an invariant that holds
  initially and is kept by every step holds in every reachable state.
\<close>

inductive reachable :: "('s \<Rightarrow> bool) \<Rightarrow> ('s \<Rightarrow> 's \<Rightarrow> bool) \<Rightarrow> 's \<Rightarrow> bool"
  for init :: "'s \<Rightarrow> bool" and step :: "'s \<Rightarrow> 's \<Rightarrow> bool" where
  start: "init s \<Longrightarrow> reachable init step s"
| next_step: "reachable init step s \<Longrightarrow> step s s' \<Longrightarrow> reachable init step s'"

locale state_machine =
  fixes init :: "'s \<Rightarrow> bool"
    and step :: "'s \<Rightarrow> 's \<Rightarrow> bool"
    and inv :: "'s \<Rightarrow> bool"
  assumes init_inv: "init s \<Longrightarrow> inv s"
    and step_inv: "inv s \<Longrightarrow> step s s' \<Longrightarrow> inv s'"
begin

lemma reachable_inv: "reachable init step s \<Longrightarrow> inv s"
  by (induction rule: reachable.induct) (auto intro: init_inv step_inv)

lemma reachable_from_inv:
  assumes "inv s" "reachable (\<lambda>t. t = s) step s'"
  shows "inv s'"
  using assms(2) by (induction rule: reachable.induct) (auto intro: assms(1) step_inv)

end

section \<open>Queues served in rounds\<close>

text \<open>
  A worker that serves a limited queue in rounds, while new items arrive. The client of this
  interface asks for one item: when it waits and a round passes it over, the round has served
  \<open>width\<close> of the items ahead of it, nothing new got ahead, and it still waits. Then it is
  served after finitely many rounds, and the number is known beforehand.
\<close>

locale fair_rounds =
  fixes inv :: "'s \<Rightarrow> bool"
    and ok :: "'r \<Rightarrow> bool"
    and step :: "'r \<Rightarrow> 's \<Rightarrow> 's"
    and waits :: "'i \<Rightarrow> 's \<Rightarrow> bool"
    and served :: "'i \<Rightarrow> 's \<Rightarrow> bool"
    and ahead :: "'i \<Rightarrow> 's \<Rightarrow> 'i set"
    and width :: nat
  assumes step_inv: "inv s \<Longrightarrow> ok r \<Longrightarrow> inv (step r s)"
    and served_stays: "inv s \<Longrightarrow> ok r \<Longrightarrow> served i s \<Longrightarrow> served i (step r s)"
    and passed_over:
      "inv s \<Longrightarrow> ok r \<Longrightarrow> waits i s \<Longrightarrow> \<not> served i (step r s) \<Longrightarrow>
         waits i (step r s)
         \<and> (\<exists>q \<subseteq> ahead i s. card q = width \<and> ahead i (step r s) \<subseteq> ahead i s - q)"
    and finite_ahead: "finite (ahead i s)"
begin

definition run :: "'r list \<Rightarrow> 's \<Rightarrow> 's" where "run rs s = foldl (\<lambda>s r. step r s) s rs"

lemma run_simps: "run [] s = s" "run (r # rs) s = run rs (step r s)"
  by (simp_all add: run_def)

lemma run_inv: "inv s \<Longrightarrow> list_all ok rs \<Longrightarrow> inv (run rs s)"
  by (induction rs arbitrary: s) (simp_all add: run_simps step_inv)

lemma run_served: "inv s \<Longrightarrow> list_all ok rs \<Longrightarrow> served i s \<Longrightarrow> served i (run rs s)"
  by (induction rs arbitrary: s) (simp_all add: run_simps step_inv served_stays)

lemma ahead_shrinks:
  assumes "inv s" "ok r" "waits i s" "\<not> served i (step r s)"
  shows "card (ahead i (step r s)) + width \<le> card (ahead i s)"
proof -
  obtain q where q: "q \<subseteq> ahead i s" "card q = width" "ahead i (step r s) \<subseteq> ahead i s - q"
    using passed_over [OF assms] by blast
  have "card (ahead i (step r s)) \<le> card (ahead i s - q)"
    using q(3) finite_ahead by (intro card_mono) auto
  moreover have "card (ahead i s - q) = card (ahead i s) - card q"
    using q(1) finite_ahead by (intro card_Diff_subset) (auto intro: finite_subset)
  moreover have "card q \<le> card (ahead i s)" using q(1) finite_ahead by (intro card_mono)
  ultimately show ?thesis using q(2) by simp
qed

lemma served_in_rounds:
  assumes "inv s" "list_all ok rs" "waits i s" "card (ahead i s) < width * length rs"
  shows "served i (run rs s)"
  using assms
proof (induction rs arbitrary: s)
  case Nil
  then show ?case by simp
next
  case (Cons r rs)
  have inv: "inv (step r s)" using Cons.prems by (simp add: step_inv)
  show ?case
  proof (cases "served i (step r s)")
    case True
    then show ?thesis using run_served [OF inv] Cons.prems by (simp add: run_simps)
  next
    case False
    then have "waits i (step r s)" "card (ahead i (step r s)) < width * length rs"
      using passed_over [of s r i] ahead_shrinks [of s r i] Cons.prems by auto
    then show ?thesis using Cons.IH [OF inv] Cons.prems by (simp add: run_simps)
  qed
qed

end

section \<open>Fallible actions on a state\<close>

text \<open>
  A function of the code that works on \<open>&mut\<close> state and may return early with \<open>?\<close>: its result
  and the state it leaves behind, also on an error. \<open>act_ok P m Q\<close> says that from a state with
  \<open>P\<close> the action succeeds and leaves a result and state with \<open>Q\<close>.
\<close>

type_synonym ('s, 'e, 'a) action = "'s \<Rightarrow> ('e + 'a) \<times> 's"

definition act_return :: "'a \<Rightarrow> ('s, 'e, 'a) action" where
  "act_return a s = (Inr a, s)"

definition act_update :: "('s \<Rightarrow> 's) \<Rightarrow> ('s, 'e, unit) action" where
  "act_update f s = (Inr (), f s)"

definition act_get :: "('s \<Rightarrow> 'a) \<Rightarrow> ('s, 'e, 'a) action" where
  "act_get f s = (Inr (f s), s)"

definition act_bind :: "('s, 'e, 'a) action \<Rightarrow> ('a \<Rightarrow> ('s, 'e, 'b) action) \<Rightarrow> ('s, 'e, 'b) action" where
  "act_bind m f s =
     (case m s of
        (Inl e, s') \<Rightarrow> (Inl e, s')
      | (Inr a, s') \<Rightarrow> f a s')"

fun act_for :: "('x \<Rightarrow> 'a \<Rightarrow> ('s, 'e, 'a) action) \<Rightarrow> 'x list \<Rightarrow> 'a \<Rightarrow> ('s, 'e, 'a) action" where
  "act_for f [] a = act_return a"
| "act_for f (x # xs) a = act_bind (f x a) (act_for f xs)"

definition act_ok :: "('s \<Rightarrow> bool) \<Rightarrow> ('s, 'e, 'a) action \<Rightarrow> ('a \<Rightarrow> 's \<Rightarrow> bool) \<Rightarrow> bool" where
  "act_ok P m Q \<longleftrightarrow> (\<forall>s. P s \<longrightarrow> (\<exists>a s'. m s = (Inr a, s') \<and> Q a s'))"

lemma act_ok_return: "(\<And>s. P s \<Longrightarrow> Q a s) \<Longrightarrow> act_ok P (act_return a) Q"
  by (simp add: act_ok_def act_return_def)

lemma act_ok_update: "(\<And>s. P s \<Longrightarrow> Q () (f s)) \<Longrightarrow> act_ok P (act_update f) Q"
  by (simp add: act_ok_def act_update_def)

lemma act_ok_get: "(\<And>s. P s \<Longrightarrow> Q (f s) s) \<Longrightarrow> act_ok P (act_get f) Q"
  by (simp add: act_ok_def act_get_def)

lemma act_ok_bind: "act_ok P m R \<Longrightarrow> (\<And>a. act_ok (R a) (f a) Q) \<Longrightarrow> act_ok P (act_bind m f) Q"
  by (fastforce simp: act_ok_def act_bind_def)

lemma act_ok_weaken: "act_ok P m Q \<Longrightarrow> (\<And>s. P' s \<Longrightarrow> P s) \<Longrightarrow> (\<And>a s. Q a s \<Longrightarrow> Q' a s) \<Longrightarrow> act_ok P' m Q'"
  by (fastforce simp: act_ok_def)

lemma act_ok_pre: "act_ok P m Q \<Longrightarrow> (\<And>s. P' s \<Longrightarrow> P s) \<Longrightarrow> act_ok P' m Q"
  by (rule act_ok_weaken)

lemma act_ok_eq: "(\<And>s. P s \<Longrightarrow> m s = m' s) \<Longrightarrow> act_ok P m' Q \<Longrightarrow> act_ok P m Q"
  by (simp add: act_ok_def)

lemma act_ok_if:
  "(b \<Longrightarrow> act_ok P m Q) \<Longrightarrow> (\<not> b \<Longrightarrow> act_ok P m' Q) \<Longrightarrow> act_ok P (if b then m else m') Q"
  by simp

lemma act_ok_fact: "(b \<Longrightarrow> act_ok P m Q) \<Longrightarrow> act_ok (\<lambda>s. P s \<and> b) m Q"
  by (auto simp: act_ok_def)

lemma act_ok_for:
  assumes "\<And>x a. x \<in> set xs \<Longrightarrow> act_ok P (f x a) (\<lambda>_. P)"
  shows "act_ok P (act_for f xs a) (\<lambda>_. P)"
  using assms
proof (induction xs arbitrary: a)
  case Nil
  then show ?case by (simp add: act_ok_return)
next
  case (Cons x xs)
  then show ?case by (auto intro!: act_ok_bind [where R = "\<lambda>_. P"])
qed

lemma act_ok_run: "act_ok P m Q \<Longrightarrow> P s \<Longrightarrow> m s = (r, s') \<Longrightarrow> \<exists>a. r = Inr a \<and> Q a s'"
  by (fastforce simp: act_ok_def)

text \<open>\<open>act_keeps P E m\<close>: the action may fail, but only with an error of \<open>E\<close>, and whether it
  fails or not it keeps \<open>P\<close>.\<close>

definition act_keeps :: "('s \<Rightarrow> bool) \<Rightarrow> ('e \<Rightarrow> bool) \<Rightarrow> ('s, 'e, 'a) action \<Rightarrow> bool" where
  "act_keeps P E m \<longleftrightarrow> (\<forall>s. P s \<longrightarrow> P (snd (m s)) \<and> (\<forall>e. fst (m s) = Inl e \<longrightarrow> E e))"

lemma act_keeps_return [keeps_intros]: "act_keeps P E (act_return a)"
  by (simp add: act_keeps_def act_return_def)

lemma act_keeps_get [keeps_intros]: "act_keeps P E (act_get f)"
  by (simp add: act_keeps_def act_get_def)

lemma act_keeps_update: "(\<And>s. P s \<Longrightarrow> P (f s)) \<Longrightarrow> act_keeps P E (act_update f)"
  by (simp add: act_keeps_def act_update_def)

lemma act_keeps_bind [keeps_intros]:
  "act_keeps P E m \<Longrightarrow> (\<And>a. act_keeps P E (f a)) \<Longrightarrow> act_keeps P E (act_bind m f)"
  by (fastforce simp: act_keeps_def act_bind_def split: prod.splits sum.splits)

lemma act_keeps_for [keeps_intros]:
  "(\<And>x a. x \<in> set xs \<Longrightarrow> act_keeps P E (f x a)) \<Longrightarrow> act_keeps P E (act_for f xs a)"
  by (induction xs arbitrary: a) (auto intro!: act_keeps_return act_keeps_bind)

lemma act_keeps_eq: "(\<And>s. P s \<Longrightarrow> m s = m' s) \<Longrightarrow> act_keeps P E m' \<Longrightarrow> act_keeps P E m"
  by (simp add: act_keeps_def)

lemma act_ok_keeps:
  "act_ok P m Q \<Longrightarrow> act_keeps P' E m \<Longrightarrow> act_ok (\<lambda>s. P s \<and> P' s) m (\<lambda>a s. Q a s \<and> P' s)"
  unfolding act_ok_def act_keeps_def by (metis snd_conv)

lemma act_for_append:
  "act_for f (xs @ ys) a = act_bind (act_for f xs a) (\<lambda>b. act_for f ys b)"
  by (induction xs arbitrary: a)
    (auto simp: act_bind_def act_return_def fun_eq_iff split: prod.splits sum.splits)

lemma act_for_map: "act_for f (map g xs) a = act_for (\<lambda>x. f (g x)) xs a"
  by (induction xs arbitrary: a) (simp_all add: act_bind_def fun_eq_iff split: prod.splits sum.splits)

text \<open>\<open>act_yields Q m\<close>: whatever the state, a result of the action has \<open>Q\<close>.\<close>

definition act_yields :: "('a \<Rightarrow> bool) \<Rightarrow> ('s, 'e, 'a) action \<Rightarrow> bool" where
  "act_yields Q m \<longleftrightarrow> (\<forall>s a s'. m s = (Inr a, s') \<longrightarrow> Q a)"

lemma act_yields_return: "Q a \<Longrightarrow> act_yields Q (act_return a)"
  by (simp add: act_yields_def act_return_def)

lemma act_yields_bind:
  "act_yields R m \<Longrightarrow> (\<And>a. R a \<Longrightarrow> act_yields Q (f a)) \<Longrightarrow> act_yields Q (act_bind m f)"
  by (fastforce simp: act_yields_def act_bind_def split: prod.splits sum.splits)

lemma act_yields_last: "(\<And>a. act_yields Q (f a)) \<Longrightarrow> act_yields Q (act_bind m f)"
  by (fastforce simp: act_yields_def act_bind_def split: prod.splits sum.splits)

lemma act_yields_for:
  "(\<And>x a. x \<in> set xs \<Longrightarrow> Q a \<Longrightarrow> act_yields Q (f x a)) \<Longrightarrow> Q a \<Longrightarrow> act_yields Q (act_for f xs a)"
  by (induction xs arbitrary: a) (auto intro: act_yields_return act_yields_bind [where R = Q])

lemma act_ok_yields: "act_ok P m Q \<Longrightarrow> act_yields Y m \<Longrightarrow> act_ok P m (\<lambda>a s. Q a s \<and> Y a)"
  by (fastforce simp: act_ok_def act_yields_def)

text \<open>\<open>act_sim R m\<close>: from states related by \<open>R\<close> the action gives the same result and leaves related
  states.\<close>

definition act_sim :: "('s \<Rightarrow> 's \<Rightarrow> bool) \<Rightarrow> ('s, 'e, 'a) action \<Rightarrow> bool" where
  "act_sim R m \<longleftrightarrow> (\<forall>s s'. R s s' \<longrightarrow> fst (m s) = fst (m s') \<and> R (snd (m s)) (snd (m s')))"

lemma act_sim_return [sim_intros]: "act_sim R (act_return a)"
  by (simp add: act_sim_def act_return_def)

lemma act_sim_get: "(\<And>s s'. R s s' \<Longrightarrow> f s = f s') \<Longrightarrow> act_sim R (act_get f)"
  by (simp add: act_sim_def act_get_def)

lemma act_sim_update: "(\<And>s s'. R s s' \<Longrightarrow> R (f s) (f s')) \<Longrightarrow> act_sim R (act_update f)"
  by (simp add: act_sim_def act_update_def)

lemma act_sim_bind [sim_intros]:
  assumes "act_sim R m" "\<And>a. act_sim R (f a)"
  shows "act_sim R (act_bind m f)"
  unfolding act_sim_def
proof (intro allI impI)
  fix s s' assume "R s s'"
  then have m: "fst (m s) = fst (m s')" "R (snd (m s)) (snd (m s'))"
    using assms(1) by (simp_all add: act_sim_def)
  then show "fst (act_bind m f s) = fst (act_bind m f s') \<and> R (snd (act_bind m f s)) (snd (act_bind m f s'))"
    using assms(2) by (cases "m s"; cases "m s'") (auto simp: act_bind_def act_sim_def split: sum.splits)
qed

lemma act_sim_for [sim_intros]:
  "(\<And>x a. x \<in> set xs \<Longrightarrow> act_sim R (f x a)) \<Longrightarrow> act_sim R (act_for f xs a)"
  by (induction xs arbitrary: a) (auto intro!: sim_intros)

end
