(* ===== verification/Mux_Codec.thy ===== *)
theory Mux_Codec
  imports PreCall_Prelude
begin

text \<open>
  \<open>precall-proto\<close>: the error type (\<open>error.rs\<close>), the virtual channel identifiers
  (\<open>channel.rs\<close>), the multiplexed framing and the length-prefixed handshake messages
  (\<open>codec.rs\<close>).

  \<open>serde_json\<close> is a library the sources call: its two entry points are arguments of the
  handshake functions (a serialiser \<open>ser\<close> and a parser \<open>parse\<close>).
\<close>

section \<open>Errors (error.rs)\<close>

datatype proto_error =
    Truncated nat nat
  | UnknownCmdId u16
  | UnknownChannel u8
  | InvalidPixelFormat u32
  | Malformed string
  | Json string
  | Io string
  | PayloadTooLarge nat

section \<open>Channels (channel.rs)\<close>

datatype channel_id = GfxRdp | PcMeta | PcAudio | PcCtrl | PcQuery

fun channel_name :: "channel_id \<Rightarrow> string" where
  "channel_name GfxRdp = ''GFXRDP''"
| "channel_name PcMeta = ''PCMETA''"
| "channel_name PcAudio = ''PCAUDIO''"
| "channel_name PcCtrl = ''PCCTRL''"
| "channel_name PcQuery = ''PCQUERY''"

definition channel_from_name :: "string \<Rightarrow> channel_id option" where
  "channel_from_name name =
     (let n = to_uppercase name in
      if n = ''GFXRDP'' then Some GfxRdp
      else if n = ''PCMETA'' then Some PcMeta
      else if n = ''PCAUDIO'' then Some PcAudio
      else if n = ''PCCTRL'' then Some PcCtrl
      else if n = ''PCQUERY'' then Some PcQuery
      else None)"

definition channel_from_u8 :: "u8 \<Rightarrow> channel_id option" where
  "channel_from_u8 v =
     (if v = 1 then Some GfxRdp
      else if v = 2 then Some PcMeta
      else if v = 3 then Some PcAudio
      else if v = 4 then Some PcCtrl
      else if v = 5 then Some PcQuery
      else None)"

fun channel_to_u8 :: "channel_id \<Rightarrow> u8" where
  "channel_to_u8 GfxRdp = 1"
| "channel_to_u8 PcMeta = 2"
| "channel_to_u8 PcAudio = 3"
| "channel_to_u8 PcCtrl = 4"
| "channel_to_u8 PcQuery = 5"

definition all_channels :: "channel_id list" where
  "all_channels = [GfxRdp, PcMeta, PcAudio, PcCtrl, PcQuery]"

section \<open>Multiplexed frames (codec.rs)\<close>

definition MAX_MUX_PAYLOAD :: nat where
  "MAX_MUX_PAYLOAD = 16 * 1024 * 1024"

definition MAX_HANDSHAKE_PAYLOAD :: nat where
  "MAX_HANDSHAKE_PAYLOAD = 1024 * 1024"

definition MUX_HEADER_LEN :: nat where
  "MUX_HEADER_LEN = 5"

record mux_frame =
  channel :: channel_id
  payload :: bytes

definition mux_frame_new :: "channel_id \<Rightarrow> bytes \<Rightarrow> mux_frame" where
  "mux_frame_new c p = \<lparr>channel = c, payload = p\<rparr>"

text \<open>The length field: bytes 1 to 4 of the header.\<close>

definition mux_length_field :: "bytes \<Rightarrow> nat" where
  "mux_length_field src = unat (le_word [src ! 1, src ! 2, src ! 3, src ! 4] :: u32)"

text \<open>\<open>decode\<close> mutates the buffer: the bytes left are part of its answer. An error and
  \<open>Ok(None)\<close> leave the buffer as it was.\<close>

definition mux_decode :: "bytes \<Rightarrow> proto_error + (mux_frame \<times> bytes) option" where
  "mux_decode src =
     (if length src < MUX_HEADER_LEN then Inr None
      else
        let channel_raw = src ! 0;
            len = mux_length_field src
        in if MAX_MUX_PAYLOAD < len then Inl (PayloadTooLarge len)
           else if length src < MUX_HEADER_LEN + len then Inr None
           else (case channel_from_u8 channel_raw of
                   None \<Rightarrow> Inl (UnknownChannel channel_raw)
                 | Some ch \<Rightarrow>
                     let rest = drop MUX_HEADER_LEN src
                     in Inr (Some (\<lparr>channel = ch, payload = take len rest\<rparr>, drop len rest))))"

definition mux_encode :: "mux_frame \<Rightarrow> bytes \<Rightarrow> proto_error + bytes" where
  "mux_encode item dst =
     (if MAX_MUX_PAYLOAD < length (payload item) then Inl (PayloadTooLarge (length (payload item)))
      else Inr (dst @ [channel_to_u8 (channel item)]
                    @ le_bytes 4 (word_of_nat (length (payload item)) :: u32)
                    @ payload item))"

fun mux_encode_all :: "mux_frame list \<Rightarrow> bytes \<Rightarrow> proto_error + bytes" where
  "mux_encode_all [] dst = Inr dst"
| "mux_encode_all (f # fs) dst = rbind (mux_encode f dst) (mux_encode_all fs)"

section \<open>Length-prefixed JSON (codec.rs)\<close>

text \<open>A reader is the list of bytes it will deliver before the end of the stream;
  \<open>read_exact\<close> of more bytes than that is an I/O error.\<close>

definition read_limited_json ::
  "(bytes \<Rightarrow> string + 'a) \<Rightarrow> bytes \<Rightarrow> proto_error + 'a \<times> bytes" where
  "read_limited_json parse reader =
     (if length reader < 4 then Inl (Io ''unexpected end of file'')
      else
        let len = unat (le_word (take 4 reader) :: u32);
            body = drop 4 reader
        in if MAX_HANDSHAKE_PAYLOAD < len then Inl (PayloadTooLarge len)
           else if length body < len then Inl (Io ''unexpected end of file'')
           else (case parse (take len body) of
                   Inl e \<Rightarrow> Inl (Json e)
                 | Inr v \<Rightarrow> Inr (v, drop len body)))"

definition write_limited_json ::
  "('a \<Rightarrow> string + bytes) \<Rightarrow> bytes \<Rightarrow> 'a \<Rightarrow> proto_error + bytes" where
  "write_limited_json ser writer value =
     (case ser value of
        Inl e \<Rightarrow> Inl (Json e)
      | Inr body \<Rightarrow>
          if MAX_HANDSHAKE_PAYLOAD < length body then Inl (PayloadTooLarge (length body))
          else Inr (writer @ le_bytes 4 (word_of_nat (length body) :: u32) @ body))"

section \<open>Lemmas on channels\<close>

lemma channel_u8_inverse [simp]: "channel_from_u8 (channel_to_u8 c) = Some c"
  by (cases c) (simp_all add: channel_from_u8_def)

lemma channel_from_u8_Some: "channel_from_u8 v = Some c \<Longrightarrow> channel_to_u8 c = v"
  by (auto simp: channel_from_u8_def split: if_splits)

lemma channel_from_u8_None: "channel_from_u8 v = None \<longleftrightarrow> v = 0 \<or> 5 < v"
proof -
  have "v = 0 \<or> v = 1 \<or> v = 2 \<or> v = 3 \<or> v = 4 \<or> v = 5 \<or> 5 < v"
    by unat_arith
  then show ?thesis by (auto simp: channel_from_u8_def)
qed

lemma set_all_channels: "c \<in> set all_channels"
  by (cases c) (simp_all add: all_channels_def)

lemma channel_name_upper: "to_uppercase (channel_name c) = channel_name c"
  by (cases c) (simp_all add: to_uppercase_def ascii_upper_def)

lemma channel_from_name_upper:
  "to_uppercase s = channel_name c \<Longrightarrow> channel_from_name s = Some c"
  by (cases c) (simp_all add: channel_from_name_def)

lemma channel_from_name_Some:
  "channel_from_name s = Some c \<longleftrightarrow> to_uppercase s = channel_name c"
  by (cases c) (auto simp: channel_from_name_def Let_def split: if_splits)

section \<open>Lemmas on the mux codec\<close>

lemma mux_header_length:
  "unat (word_of_nat n :: u32) = n" if "n \<le> MAX_MUX_PAYLOAD" for n
  using that by (simp add: MAX_MUX_PAYLOAD_def unat_of_nat)

lemma mux_encode_Inr:
  "mux_encode f dst = Inr out \<longleftrightarrow>
     length (payload f) \<le> MAX_MUX_PAYLOAD \<and>
     out = dst @ [channel_to_u8 (channel f)]
               @ le_bytes 4 (word_of_nat (length (payload f)) :: u32) @ payload f"
  by (auto simp: mux_encode_def not_less)

lemma mux_length_field_encoded:
  "n \<le> MAX_MUX_PAYLOAD \<Longrightarrow> mux_length_field (c # le_bytes 4 (word_of_nat n :: u32) @ bs) = n"
proof -
  assume n: "n \<le> MAX_MUX_PAYLOAD"
  let ?w = "word_of_nat n :: u32"
  have "mux_length_field (c # le_bytes 4 ?w @ bs) = unat (le_word (le_bytes 4 ?w) :: u32)"
    by (simp add: mux_length_field_def le_bytes_4)
  then show "mux_length_field (c # le_bytes 4 ?w @ bs) = n"
    using mux_header_length [OF n] by simp
qed

lemma mux_length_field_append [simp]:
  "5 \<le> length src \<Longrightarrow> mux_length_field (src @ x) = mux_length_field src"
  by (simp add: mux_length_field_def nth_append)

lemma mux_decode_encoded:
  assumes "length (payload f) \<le> MAX_MUX_PAYLOAD"
  shows "mux_decode (channel_to_u8 (channel f)
           # le_bytes 4 (word_of_nat (length (payload f)) :: u32) @ payload f @ rest)
         = Inr (Some (f, rest))"
  using assms by (simp add: mux_decode_def MUX_HEADER_LEN_def mux_length_field_encoded)

lemma mux_decode_Some:
  "mux_decode src = Inr (Some (f, rest)) \<longleftrightarrow>
     5 + mux_length_field src \<le> length src \<and> mux_length_field src \<le> MAX_MUX_PAYLOAD \<and>
     channel_from_u8 (src ! 0) = Some (channel f) \<and>
     payload f = take (mux_length_field src) (drop 5 src) \<and>
     rest = drop (5 + mux_length_field src) src"
  by (cases f)
    (auto simp: mux_decode_def MUX_HEADER_LEN_def Let_def add.commute not_less
      split: option.splits)

lemma mux_decode_Inl:
  "mux_decode src = Inl e \<longleftrightarrow>
     5 \<le> length src \<and>
     (MAX_MUX_PAYLOAD < mux_length_field src \<and> e = PayloadTooLarge (mux_length_field src) \<or>
      mux_length_field src \<le> MAX_MUX_PAYLOAD \<and> 5 + mux_length_field src \<le> length src \<and>
      channel_from_u8 (src ! 0) = None \<and> e = UnknownChannel (src ! 0))"
  by (auto simp: mux_decode_def MUX_HEADER_LEN_def Let_def not_less split: option.splits)

interpretation mux: framed_decoder mux_decode
proof
  show "mux_decode [] = Inr None"
    by (simp add: mux_decode_def MUX_HEADER_LEN_def)
next
  fix buf f rest
  assume "mux_decode buf = Inr (Some (f, rest))"
  then show "length rest < length buf"
    by (auto simp: mux_decode_Some)
next
  fix buf f rest and x :: bytes
  assume "mux_decode buf = Inr (Some (f, rest))"
  then show "mux_decode (buf @ x) = Inr (Some (f, rest @ x))"
    by (cases "buf = []") (auto simp: mux_decode_Some nth_append)
next
  fix buf e and x :: bytes
  assume "mux_decode buf = Inl e"
  then show "mux_decode (buf @ x) = Inl e"
    by (cases "buf = []") (auto simp: mux_decode_Inl nth_append)
qed

lemma mux_encode_prefix:
  "mux_encode f dst = map_sum id ((@) dst) (mux_encode f [])"
  by (simp add: mux_encode_def)

lemma mux_encode_all_prefix:
  "mux_encode_all fs dst = map_sum id ((@) dst) (mux_encode_all fs [])"
proof (induction fs arbitrary: dst)
  case Nil
  then show ?case by simp
next
  case (Cons f fs)
  show ?case
  proof (cases "mux_encode f []")
    case (Inl e)
    then show ?thesis by (simp add: mux_encode_prefix [of f dst])
  next
    case (Inr p)
    then show ?thesis
      using Cons.IH [of "dst @ p"] Cons.IH [of p]
      by (cases "mux_encode_all fs []") (simp_all add: mux_encode_prefix [of f dst])
  qed
qed

lemma mux_drain_encoded:
  "mux_encode_all fs [] = Inr enc \<Longrightarrow> drain mux_decode enc = (fs, [], None)"
proof (induction fs arbitrary: enc)
  case Nil
  then show ?case by (simp add: mux.drain_unfold [of "[]"] mux.empty_waits)
next
  case (Cons f fs)
  from Cons.prems obtain p where p: "mux_encode f [] = Inr p" "mux_encode_all fs p = Inr enc"
    by (auto simp: rbind_Inr_iff)
  then obtain rest where rest: "mux_encode_all fs [] = Inr rest" "enc = p @ rest"
    using mux_encode_all_prefix [of fs p] by (cases "mux_encode_all fs []") auto
  have "mux_decode enc = Inr (Some (f, rest))"
    using p(1) rest(2) mux_decode_encoded [of f rest] by (auto simp: mux_encode_Inr)
  then show ?case
    using Cons.IH [OF rest(1)] by (simp add: mux.drain_unfold [of enc])
qed

lemma mux_encode_all_append:
  "mux_encode_all (fs @ gs) dst = rbind (mux_encode_all fs dst) (mux_encode_all gs)"
proof (induction fs arbitrary: dst)
  case (Cons f fs)
  then show ?case by (cases "mux_encode f dst") simp_all
qed simp

lemma mux_decode_waiting:
  "mux_decode src = Inr None \<Longrightarrow> length src < 5 + MAX_MUX_PAYLOAD"
  by (auto simp: mux_decode_def MUX_HEADER_LEN_def MAX_MUX_PAYLOAD_def Let_def
      split: if_splits option.splits)

lemma mux_encode_all_ok:
  "(\<exists>enc. mux_encode_all fs dst = Inr enc) \<longleftrightarrow>
     (\<forall>f \<in> set fs. length (payload f) \<le> MAX_MUX_PAYLOAD)"
proof (induction fs arbitrary: dst)
  case Nil
  then show ?case by simp
next
  case (Cons f fs)
  then show ?case by (auto simp: rbind_Inr_iff mux_encode_Inr)
qed

section \<open>Properties\<close>

text \<open>C16. Stream reassembly. Whatever frames the encoder accepted, and however the transport cuts
  the encoded bytes into chunks, feeding the chunks to the decoder yields exactly these
  frames in order, with no byte left and no error.\<close>

theorem mux_stream_reassembly:
  assumes "mux_encode_all fs [] = Inr (concat chunks)"
  shows "feed_all mux_decode chunks = (fs, [], None)"
  by (rule mux.feed_all_drained [OF mux_drain_encoded [OF assms]])

theorem mux_stream_reassembly_witness:
  "feed_all mux_decode [[3, 2], [0, 0, 0, 9], [], [9, 4, 0, 0], [0, 0]]
     = ([\<lparr>channel = PcAudio, payload = [9, 9]\<rparr>, \<lparr>channel = PcCtrl, payload = []\<rparr>], [], None)"
  by (rule mux_stream_reassembly)
    (simp add: mux_encode_def MAX_MUX_PAYLOAD_def le_bytes_4)

text \<open>C17. Bounded buffering. Whatever bytes a peer sends, a stream that has not failed never
  keeps more than one maximal frame in its buffer: an announced length above 16 MiB is an
  error before its payload is waited for.\<close>

theorem mux_buffer_bounded:
  assumes "feed_all mux_decode chunks = (fs, buf, None)"
  shows "length buf < 5 + MAX_MUX_PAYLOAD"
  using mux.drain_stops [OF mux.feed_all_None [OF assms]] by (rule mux_decode_waiting)

theorem mux_buffer_bounded_witness:
  "feed_all mux_decode [[3, 2], [0, 0, 0, 9]] = ([], [3, 2, 0, 0, 0, 9], None)
   \<and> length [3 :: u8, 2, 0, 0, 0, 9] < 5 + MAX_MUX_PAYLOAD"
proof -
  have h: "feed_all mux_decode [[3, 2], [0, 0, 0, 9]] = ([], [3, 2, 0, 0, 0, 9], None)"
    by (simp add: feed_all_def feed_def drain_def mux_decode_def MUX_HEADER_LEN_def
        MAX_MUX_PAYLOAD_def mux_length_field_def le_word.simps)
  show ?thesis using h mux_buffer_bounded [OF h] by blast
qed

text \<open>The handshake exchange round-trips: a message that \<open>write_limited_json\<close> accepted is
  read back by \<open>read_limited_json\<close>, which consumes exactly its bytes. What is assumed of the
  JSON library is that it parses what it printed.\<close>

lemma handshake_roundtrip:
  assumes "ser v = Inr body" and "parse body = Inr v"
    and "write_limited_json ser [] v = Inr out"
  shows "read_limited_json parse (out @ rest) = Inr (v, rest)"
proof -
  let ?w = "word_of_nat (length body) :: u32"
  have len: "length body \<le> MAX_HANDSHAKE_PAYLOAD" and out: "out = le_bytes 4 ?w @ body"
    using assms by (auto simp: write_limited_json_def split: if_splits)
  have "unat (le_word (take 4 (out @ rest)) :: u32) = length body"
    using mux_header_length [of "length body"] len
    by (simp add: out MAX_HANDSHAKE_PAYLOAD_def MAX_MUX_PAYLOAD_def)
  moreover have "drop 4 (out @ rest) = body @ rest" by (simp add: out)
  ultimately show ?thesis
    using len assms(2) by (simp add: read_limited_json_def out)
qed

text \<open>Channel identifiers: the byte and the name of a channel determine it, the byte decoder
  accepts exactly the five assigned bytes and the name parser ignores ASCII case.\<close>

lemma channel_ids_bijective:
  "(channel_from_u8 v = Some c \<longleftrightarrow> channel_to_u8 c = v)
   \<and> (channel_from_name s = Some c \<longleftrightarrow> to_uppercase s = channel_name c)
   \<and> (channel_from_u8 v = None \<longleftrightarrow> v = 0 \<or> 5 < v)
   \<and> c \<in> set all_channels"
  using channel_from_u8_Some channel_from_name_Some channel_from_u8_None set_all_channels by auto

end
