(* ===== verification/Gfx_Pdu.thy ===== *)
theory Gfx_Pdu
  imports Mux_Codec
begin

text \<open>
  \<open>precall-proto/src/gfx.rs\<close>: the RDPGFX PDUs that carry desktop frames, their wire encoding,
  the decoder of one PDU from the front of a buffer, and the iterator over a buffer of
  concatenated PDUs. Field slices \<open>body[i..j]\<close> are \<open>bslice i j body\<close>; every bslice the decoder
  takes is inside the length it has checked before.
\<close>

section \<open>Constants\<close>

definition RDPGFX_CMDID_WIRETOSURFACE_1 :: u16 where "RDPGFX_CMDID_WIRETOSURFACE_1 = 0x0001"
definition RDPGFX_CMDID_START_FRAME :: u16 where "RDPGFX_CMDID_START_FRAME = 0x000b"
definition RDPGFX_CMDID_END_FRAME :: u16 where "RDPGFX_CMDID_END_FRAME = 0x000c"
definition RDPGFX_CMDID_FRAMEACKNOWLEDGE :: u16 where "RDPGFX_CMDID_FRAMEACKNOWLEDGE = 0x000d"

definition RDPGFX_CODECID_UNCOMPRESSED :: u16 where "RDPGFX_CODECID_UNCOMPRESSED = 0x0000"
definition RDPGFX_CODECID_AVC420 :: u16 where "RDPGFX_CODECID_AVC420 = 0x000e"
definition RDPGFX_CODECID_AVC444 :: u16 where "RDPGFX_CODECID_AVC444 = 0x000f"
definition RDPGFX_CODECID_CAPROGRESSIVE_V2 :: u16 where "RDPGFX_CODECID_CAPROGRESSIVE_V2 = 0x0013"
definition RDPGFX_CODECID_JPEG :: u16 where "RDPGFX_CODECID_JPEG = 0x00f1"

definition RDPGFX_PIXEL_FORMAT_XRGB_8888 :: u8 where "RDPGFX_PIXEL_FORMAT_XRGB_8888 = 0x20"
definition RDPGFX_PIXEL_FORMAT_ARGB_8888 :: u8 where "RDPGFX_PIXEL_FORMAT_ARGB_8888 = 0x21"

definition GFX_HEADER_LEN :: nat where "GFX_HEADER_LEN = 8"

lemmas gfx_constants =
  RDPGFX_CMDID_WIRETOSURFACE_1_def RDPGFX_CMDID_START_FRAME_def RDPGFX_CMDID_END_FRAME_def
  RDPGFX_CMDID_FRAMEACKNOWLEDGE_def GFX_HEADER_LEN_def

lemmas gfx_codec_constants =
  RDPGFX_CODECID_UNCOMPRESSED_def RDPGFX_CODECID_AVC420_def RDPGFX_CODECID_AVC444_def
  RDPGFX_CODECID_CAPROGRESSIVE_V2_def RDPGFX_CODECID_JPEG_def
  RDPGFX_PIXEL_FORMAT_XRGB_8888_def RDPGFX_PIXEL_FORMAT_ARGB_8888_def

section \<open>Data\<close>

text \<open>The \<open>i16\<close> coordinates are 16-bit words read as two's complement.\<close>

record rect =
  rect_left :: u16
  rect_top :: u16
  rect_right :: u16
  rect_bottom :: u16

definition rect_new :: "u16 \<Rightarrow> u16 \<Rightarrow> u16 \<Rightarrow> u16 \<Rightarrow> rect" where
  "rect_new l t r b = \<lparr>rect_left = l, rect_top = t, rect_right = r, rect_bottom = b\<rparr>"

definition rect_width :: "rect \<Rightarrow> u16" where
  "rect_width r = rect_right r - rect_left r"

definition rect_height :: "rect \<Rightarrow> u16" where
  "rect_height r = rect_bottom r - rect_top r"

record surface_info =
  si_surface_id :: u16
  si_width :: u32
  si_height :: u32

datatype gfx_pdu =
    StartFrame u32 u32
  | EndFrame u32
  | WireToSurface1 u16 u16 u8 rect bytes
  | FrameAcknowledge u32 u32 u32

section \<open>Encoding\<close>

fun gfx_cmd_id :: "gfx_pdu \<Rightarrow> u16" where
  "gfx_cmd_id (StartFrame frame_id timestamp) = RDPGFX_CMDID_START_FRAME"
| "gfx_cmd_id (EndFrame frame_id) = RDPGFX_CMDID_END_FRAME"
| "gfx_cmd_id (WireToSurface1 sid codec pf r d) = RDPGFX_CMDID_WIRETOSURFACE_1"
| "gfx_cmd_id (FrameAcknowledge q frame_id n) = RDPGFX_CMDID_FRAMEACKNOWLEDGE"

fun gfx_body :: "gfx_pdu \<Rightarrow> bytes" where
  "gfx_body (StartFrame frame_id timestamp) = le_bytes 4 frame_id @ le_bytes 4 timestamp"
| "gfx_body (EndFrame frame_id) = le_bytes 4 frame_id"
| "gfx_body (WireToSurface1 surface_id codec_id pixel_format dest_rect bitmap_data) =
     le_bytes 2 surface_id @ le_bytes 2 codec_id @ [pixel_format]
     @ le_bytes 2 (rect_left dest_rect) @ le_bytes 2 (rect_top dest_rect)
     @ le_bytes 2 (rect_right dest_rect) @ le_bytes 2 (rect_bottom dest_rect)
     @ le_bytes 4 (word_of_nat (length bitmap_data) :: u32) @ bitmap_data"
| "gfx_body (FrameAcknowledge queue_depth frame_id total_frames_decoded) =
     le_bytes 4 queue_depth @ le_bytes 4 frame_id @ le_bytes 4 total_frames_decoded"

definition gfx_encode :: "gfx_pdu \<Rightarrow> bytes \<Rightarrow> bytes" where
  "gfx_encode pdu dst =
     dst @ le_bytes 2 (gfx_cmd_id pdu) @ le_bytes 2 (0 :: u16)
         @ le_bytes 4 (word_of_nat (GFX_HEADER_LEN + length (gfx_body pdu)) :: u32)
         @ gfx_body pdu"

fun gfx_encoded_len :: "gfx_pdu \<Rightarrow> nat" where
  "gfx_encoded_len (StartFrame frame_id timestamp) = GFX_HEADER_LEN + 8"
| "gfx_encoded_len (EndFrame frame_id) = GFX_HEADER_LEN + 4"
| "gfx_encoded_len (WireToSurface1 sid codec pf r d) = GFX_HEADER_LEN + (17 + length d)"
| "gfx_encoded_len (FrameAcknowledge q frame_id n) = GFX_HEADER_LEN + 12"

section \<open>Decoding\<close>

definition bslice :: "nat \<Rightarrow> nat \<Rightarrow> bytes \<Rightarrow> bytes" where
  "bslice i j bs = take (j - i) (drop i bs)"

definition gfx_decode_body :: "u16 \<Rightarrow> bytes \<Rightarrow> proto_error + gfx_pdu" where
  "gfx_decode_body cmd_id body =
     (if cmd_id = RDPGFX_CMDID_START_FRAME then
        if length body < 8 then Inl (Malformed ''START_FRAME body too short'')
        else Inr (StartFrame (le_word (bslice 0 4 body)) (le_word (bslice 4 8 body)))
      else if cmd_id = RDPGFX_CMDID_END_FRAME then
        if length body < 4 then Inl (Malformed ''END_FRAME body too short'')
        else Inr (EndFrame (le_word (bslice 0 4 body)))
      else if cmd_id = RDPGFX_CMDID_WIRETOSURFACE_1 then
        if length body < 17 then Inl (Malformed ''WIRE_TO_SURFACE_1 body too short'')
        else
          let bitmap_len = unat (le_word (bslice 13 17 body) :: u32)
          in if length body < 17 + bitmap_len
             then Inl (Malformed ''WIRE_TO_SURFACE_1 bitmap truncated'')
             else Inr (WireToSurface1
                    (le_word (bslice 0 2 body)) (le_word (bslice 2 4 body)) (body ! 4)
                    \<lparr>rect_left = le_word (bslice 5 7 body), rect_top = le_word (bslice 7 9 body),
                     rect_right = le_word (bslice 9 11 body),
                     rect_bottom = le_word (bslice 11 13 body)\<rparr>
                    (bslice 17 (17 + bitmap_len) body))
      else if cmd_id = RDPGFX_CMDID_FRAMEACKNOWLEDGE then
        if length body < 12 then Inl (Malformed ''FRAME_ACK body too short'')
        else Inr (FrameAcknowledge (le_word (bslice 0 4 body)) (le_word (bslice 4 8 body))
                    (le_word (bslice 8 12 body)))
      else Inl (UnknownCmdId cmd_id))"

definition gfx_decode :: "bytes \<Rightarrow> proto_error + gfx_pdu \<times> nat" where
  "gfx_decode buf =
     (if length buf < GFX_HEADER_LEN then Inl (Truncated GFX_HEADER_LEN (length buf))
      else
        let cmd_id = le_word (bslice 0 2 buf) :: u16;
            pdu_len = unat (le_word (bslice 4 8 buf) :: u32)
        in if pdu_len < GFX_HEADER_LEN then Inl (Malformed ''pduLength shorter than header'')
           else if length buf < pdu_len then Inl (Truncated pdu_len (length buf))
           else rbind (gfx_decode_body cmd_id (bslice GFX_HEADER_LEN pdu_len buf))
                  (\<lambda>pdu. Inr (pdu, pdu_len)))"

lemma gfx_decode_consumed:
  "gfx_decode buf = Inr (pdu, n) \<Longrightarrow> 8 \<le> n \<and> n \<le> length buf"
  by (auto simp: gfx_decode_def GFX_HEADER_LEN_def Let_def rbind_Inr_iff split: if_splits)

text \<open>The iterator: it stops at the end of the buffer, and after its first error.\<close>

function gfx_iter :: "bytes \<Rightarrow> (proto_error + gfx_pdu) list" where
  "gfx_iter rest =
     (if rest = [] then []
      else case gfx_decode rest of
             Inr (pdu, consumed) \<Rightarrow> Inr pdu # gfx_iter (drop consumed rest)
           | Inl e \<Rightarrow> [Inl e])"
  by pat_completeness auto
termination
  by (relation "measure length") (auto dest!: gfx_decode_consumed [OF sym] gfx_decode_consumed)

declare gfx_iter.simps [simp del]

definition codec_name :: "u16 \<Rightarrow> string" where
  "codec_name codec_id =
     (if codec_id = RDPGFX_CODECID_UNCOMPRESSED then ''uncompressed''
      else if codec_id = RDPGFX_CODECID_AVC420 then ''avc420''
      else if codec_id = RDPGFX_CODECID_AVC444 then ''avc444''
      else if codec_id = RDPGFX_CODECID_CAPROGRESSIVE_V2 then ''caprogressive-v2''
      else if codec_id = RDPGFX_CODECID_JPEG then ''jpeg-precall''
      else ''unknown'')"

section \<open>Lemmas\<close>

lemma bslice_append_left [simp]: "j \<le> length xs \<Longrightarrow> bslice i j (xs @ ys) = bslice i j xs"
  by (simp add: bslice_def)

lemma bslice_append_right:
  "length xs \<le> i \<Longrightarrow> bslice i j (xs @ ys) = bslice (i - length xs) (j - length xs) ys"
  by (simp add: bslice_def)

lemma bslice_Cons: "0 < i \<Longrightarrow> bslice i j (x # xs) = bslice (i - 1) (j - 1) xs"
  by (cases i) (auto simp: bslice_def)

lemma bslice_0_all [simp]: "n = length xs \<Longrightarrow> bslice 0 n xs = xs"
  by (simp add: bslice_def)

lemma length_bslice: "length (bslice i j xs) = min (j - i) (length xs - i)"
  by (simp add: bslice_def)

lemma length_gfx_encode: "length (gfx_encode p dst) = length dst + gfx_encoded_len p"
  by (cases p) (simp_all add: gfx_encode_def GFX_HEADER_LEN_def)

lemma gfx_encode_prefix: "gfx_encode p dst = dst @ gfx_encode p []"
  by (simp add: gfx_encode_def)

lemma unat_of_nat_u32: "n < 2 ^ 32 \<Longrightarrow> unat (word_of_nat n :: u32) = n"
  by (simp add: unat_of_nat)

lemma gfx_body_roundtrip:
  assumes "gfx_encoded_len p < 2 ^ 32"
  shows "gfx_decode_body (gfx_cmd_id p) (gfx_body p) = Inr p"
proof (cases p)
  case (WireToSurface1 sid codec pf r d)
  have "unat (word_of_nat (length d) :: u32) = length d"
    using assms WireToSurface1 by (intro unat_of_nat_u32) (simp add: GFX_HEADER_LEN_def)
  then show ?thesis
    by (cases r) (simp add: WireToSurface1 gfx_decode_body_def gfx_constants bslice_append_right
        bslice_Cons nth_append Let_def)
qed (simp_all add: gfx_decode_body_def gfx_constants bslice_append_right)

lemma gfx_encoded_len_body: "gfx_encoded_len p = 8 + length (gfx_body p)"
  by (cases p) (simp_all add: GFX_HEADER_LEN_def)

lemma gfx_decode_encode:
  assumes "gfx_encoded_len p < 2 ^ 32"
  shows "gfx_decode (gfx_encode p [] @ rest) = Inr (p, gfx_encoded_len p)"
proof -
  let ?e = "gfx_encode p [] @ rest" and ?n = "8 + length (gfx_body p)"
  have cmd: "(le_word (bslice 0 2 ?e) :: u16) = gfx_cmd_id p"
    by (simp add: gfx_encode_def)
  have "le_word (bslice 4 8 ?e) = (word_of_nat ?n :: u32)"
    by (simp add: gfx_encode_def bslice_append_right GFX_HEADER_LEN_def)
  then have len: "unat (le_word (bslice 4 8 ?e) :: u32) = gfx_encoded_len p"
    using assms unat_of_nat_u32 [of ?n] by (simp add: gfx_encoded_len_body)
  have body: "bslice 8 (gfx_encoded_len p) ?e = gfx_body p"
    by (simp add: gfx_encode_def bslice_append_right gfx_encoded_len_body)
  have total: "length ?e = gfx_encoded_len p + length rest" "8 \<le> gfx_encoded_len p"
    by (simp_all add: length_gfx_encode gfx_encoded_len_body)
  show ?thesis
    unfolding gfx_decode_def Let_def GFX_HEADER_LEN_def cmd len body gfx_body_roundtrip [OF assms]
    using total by simp
qed

lemma bslice_take [simp]: "j \<le> n \<Longrightarrow> bslice i j (take n xs) = bslice i j xs"
  by (simp add: bslice_def drop_take min_absorb1)

lemma gfx_decode_ignores_tail:
  assumes "gfx_decode buf = Inr (p, n)"
  shows "gfx_decode (take n buf @ x) = Inr (p, n)"
proof -
  have n: "8 \<le> n" "n \<le> length buf" using gfx_decode_consumed [OF assms] by auto
  have l: "unat (le_word (bslice 4 8 buf) :: u32) = n"
    using assms by (auto simp: gfx_decode_def Let_def rbind_Inr_iff split: if_splits)
  show ?thesis
    using assms n l
    by (simp add: gfx_decode_def GFX_HEADER_LEN_def Let_def min_absorb2)
qed

lemma gfx_decode_body_len:
  "gfx_decode_body c body = Inr p \<Longrightarrow> gfx_encoded_len p \<le> 8 + length body"
  by (auto simp: gfx_decode_body_def GFX_HEADER_LEN_def Let_def length_bslice split: if_splits)

lemma gfx_decode_len:
  "gfx_decode buf = Inr (p, n) \<Longrightarrow> gfx_encoded_len p \<le> n"
  by (auto simp: gfx_decode_def GFX_HEADER_LEN_def Let_def rbind_Inr_iff length_bslice
      split: if_splits dest!: gfx_decode_body_len)

lemma gfx_iter_Nil [simp]: "gfx_iter [] = []"
  by (simp add: gfx_iter.simps)

lemma gfx_iter_Cons:
  "gfx_decode rest = Inr (p, n) \<Longrightarrow> gfx_iter rest = Inr p # gfx_iter (drop n rest)"
  using gfx_decode_consumed [of rest p n] by (auto simp: gfx_iter.simps [of rest])

lemma gfx_iter_error: "rest \<noteq> [] \<Longrightarrow> gfx_decode rest = Inl e \<Longrightarrow> gfx_iter rest = [Inl e]"
  by (simp add: gfx_iter.simps [of rest])

lemma gfx_iter_encoded:
  assumes "gfx_encoded_len p < 2 ^ 32"
  shows "gfx_iter (gfx_encode p [] @ rest) = Inr p # gfx_iter rest"
  using gfx_iter_Cons [OF gfx_decode_encode [OF assms, of rest]]
  by (simp add: length_gfx_encode)

lemma gfx_iter_encoded_all:
  "\<forall>p \<in> set ps. gfx_encoded_len p < 2 ^ 32 \<Longrightarrow>
     gfx_iter (foldl (\<lambda>dst p. gfx_encode p dst) [] ps @ rest) = map Inr ps @ gfx_iter rest"
proof (induction ps arbitrary: rest rule: rev_induct)
  case Nil
  then show ?case by simp
next
  case (snoc p ps)
  then show ?case
    using snoc.IH [of "gfx_encode p [] @ rest"] gfx_iter_encoded [of p rest]
      gfx_encode_prefix [of p "foldl (\<lambda>dst p. gfx_encode p dst) [] ps"]
    by simp
qed

section \<open>Properties\<close>

text \<open>C18. A frame's PDUs encoded one after the other into a buffer, as the capture client ships
  them, are read back by the iterator exactly, in order and without error, as long as no PDU
  exceeds the 32-bit length field.\<close>

theorem gfx_iter_roundtrip:
  assumes "\<forall>p \<in> set ps. gfx_encoded_len p < 2 ^ 32"
  shows "gfx_iter (foldl (\<lambda>dst p. gfx_encode p dst) [] ps) = map Inr ps"
  using gfx_iter_encoded_all [OF assms, of "[]"] by simp

theorem gfx_iter_roundtrip_witness:
  "gfx_iter (foldl (\<lambda>dst p. gfx_encode p dst) []
     [StartFrame 7 5, WireToSurface1 0 0xf1 0x20 (rect_new 0 0 1920 1080) [0xff, 0xd8], EndFrame 7])
   = [Inr (StartFrame 7 5),
      Inr (WireToSurface1 0 0xf1 0x20 (rect_new 0 0 1920 1080) [0xff, 0xd8]), Inr (EndFrame 7)]"
  by (subst gfx_iter_roundtrip) (simp_all add: GFX_HEADER_LEN_def)

text \<open>The PDU decoder stays inside its input: a decoded PDU consumed at least the header and
  at most the buffer, never claims more payload than it consumed, and its value does not
  depend on the bytes behind it.\<close>

lemma gfx_decode_in_bounds:
  assumes "gfx_decode buf = Inr (p, n)"
  shows "8 \<le> n \<and> n \<le> length buf \<and> gfx_encoded_len p \<le> n
         \<and> (\<forall>x. gfx_decode (take n buf @ x) = Inr (p, n))"
  using gfx_decode_consumed [OF assms] gfx_decode_len [OF assms] gfx_decode_ignores_tail [OF assms]
  by simp

end
