(* ===== verification/Proto_Records.thy ===== *)
theory Proto_Records
  imports Gfx_Pdu
begin

text \<open>
  \<open>precall-proto\<close>: the handshake messages (\<open>handshake.rs\<close>) and the metadata records
  (\<open>metadata.rs\<close>), field by field. A \<open>Uuid\<close> is its canonical hyphenated lower-case text, so
  \<open>to_string\<close> is the identity; an \<open>i64\<close> is an \<open>int\<close>, an unsigned integer a word of its
  width, an \<open>f32\<close> or \<open>f64\<close> its IEEE bit pattern.
\<close>

type_synonym uuid = string

type_synonym f64 = "64 word"

section \<open>Handshake (handshake.rs)\<close>

definition PROTOCOL_VERSION :: u16 where "PROTOCOL_VERSION = 1"

datatype auth_method =
    Psk string
  | Certificate string
  | Ntlm string string

record display_info =
  di_surface_id :: u16
  di_width :: u32
  di_height :: u32
  di_origin_x :: int
  di_origin_y :: int

record capabilities =
  cap_displays :: "display_info list"
  cap_channels :: "channel_id list"
  cap_codec_ids :: "u16 list"
  cap_capture_interval_ms :: u32
  cap_client_build :: string

record client_hello =
  ch_protocol_version :: u16
  ch_client_id :: uuid
  ch_hostname :: string
  ch_auth :: auth_method
  ch_capabilities :: capabilities

record server_hello =
  sh_session_id :: uuid
  sh_accepted_channels :: "channel_id list"
  sh_server_time_100ns :: u64
  sh_heartbeat_interval_ms :: u32
  sh_max_frame_bytes :: u32

record server_reject =
  sr_reason :: string

section \<open>Metadata (metadata.rs)\<close>

record app_record =
  app_windows_app_id :: "string option"
  app_icon_uri :: "string option"
  app_name :: string
  app_path :: "string option"
  app_properties :: "string option"

record file_record =
  file_path :: string
  file_name :: string
  file_extension :: "string option"
  file_kind :: "string option"
  file_type :: "string option"
  file_properties :: "string option"
  file_object_id :: "string option"
  file_volume_id :: "string option"

record web_record =
  web_domain :: string
  web_uri :: string
  web_icon_uri :: "string option"
  web_properties :: "string option"

record screen_region_record =
  sreg_region_kind :: string
  sreg_ocr_text :: "string option"
  sreg_bounds :: string

record window_capture_record =
  wcr_name :: string
  wcr_image_token :: string
  wcr_is_foreground :: bool
  wcr_window_id :: int
  wcr_window_bounds :: string
  wcr_window_title :: string
  wcr_properties :: "string option"
  wcr_timestamp_100ns :: u64
  wcr_activation_uri :: "string option"
  wcr_activity_id :: "string option"
  wcr_fallback_uri :: "string option"
  wcr_apps :: "app_record list"
  wcr_files :: "file_record list"
  wcr_webs :: "web_record list"
  wcr_regions :: "screen_region_record list"

record capture_batch =
  cb_client_id :: uuid
  cb_seq :: u64
  cb_captures :: "window_capture_record list"

datatype control_message =
    Pause
  | Resume "u32 option"
  | SetExclusions "string list" "string list"
  | Heartbeat u64 u64 u32
  | PanicWipe
  | Goodbye string

record query_push =
  qp_query :: string
  qp_window_capture_ids :: "int list"

text \<open>\<open>capture.timestamp_100ns as i64\<close>: the two's complement reading of the 64 bits.\<close>

definition timestamp_i64 :: "window_capture_record \<Rightarrow> int" where
  "timestamp_i64 c = sint (wcr_timestamp_100ns c)"

lemma timestamp_i64_range: "i64_range (timestamp_i64 c)"
  using sint_range_size [of "wcr_timestamp_100ns c"]
  by (simp add: timestamp_i64_def i64_range_def word_size)

end
