(* ===== verification/Client_Session.thy ===== *)
theory Client_Session
  imports Proto_Records
begin

text \<open>
  The sending side of a session: the Windows client's \<open>Connection\<close>
  (\<open>precall-client/src/session.rs\<close>) and the headless client's \<open>Session\<close>
  (\<open>precall-mock/src/lib.rs\<close>). Both keep a sequence number and a frame counter and put mux
  frames on one stream. The stream is the list of bytes written so far; the JSON printers
  are arguments. Counters wrap at their width, as the release build does.
\<close>

section \<open>State\<close>

record connection =
  conn_wire :: bytes
  conn_client_id :: uuid
  conn_seq :: u64
  conn_frame_id :: u32
  conn_surface_id :: u16

text \<open>Every sending operation returns its result and the connection it leaves behind: the
  counters advance before the send can fail.\<close>

definition send_mux :: "channel_id \<Rightarrow> bytes \<Rightarrow> connection \<Rightarrow> (proto_error + unit) \<times> connection" where
  "send_mux ch pl c =
     (case mux_encode \<lparr>channel = ch, payload = pl\<rparr> (conn_wire c) of
        Inl e \<Rightarrow> (Inl e, c)
      | Inr w \<Rightarrow> (Inr (), c\<lparr>conn_wire := w\<rparr>))"

section \<open>Connection (session.rs)\<close>

definition connection_new :: "uuid \<Rightarrow> connection" where
  "connection_new client_id =
     \<lparr>conn_wire = [], conn_client_id = client_id, conn_seq = 0, conn_frame_id = 0,
      conn_surface_id = 1\<rparr>"

text \<open>The hello of \<open>connect\<close>; the configuration values it uses are its arguments.\<close>

definition client_hello_of ::
  "uuid \<Rightarrow> string \<Rightarrow> string option \<Rightarrow> u64 \<Rightarrow> string \<Rightarrow> client_hello" where
  "client_hello_of client_id hostname psk interval_ms build =
     \<lparr>ch_protocol_version = PROTOCOL_VERSION, ch_client_id = client_id, ch_hostname = hostname,
      ch_auth = Psk (case psk of None \<Rightarrow> '''' | Some p \<Rightarrow> p),
      ch_capabilities =
        \<lparr>cap_displays = [\<lparr>di_surface_id = 1, di_width = 0, di_height = 0, di_origin_x = 0,
                          di_origin_y = 0\<rparr>],
         cap_channels = [GfxRdp, PcMeta, PcCtrl, PcAudio],
         cap_codec_ids = [RDPGFX_CODECID_JPEG],
         cap_capture_interval_ms = ucast interval_ms,
         cap_client_build = build\<rparr>\<rparr>"

text \<open>What \<open>connect\<close> makes of an answer that is no \<open>ServerHello\<close>: the text of its field
  \<open>reason\<close>, if the answer has the form of a \<open>ServerReject\<close>. The answer is the list of the JSON
  object's fields.\<close>

definition refusal_of :: "(string \<times> string) list \<Rightarrow> server_reject" where
  "refusal_of answer =
     (case map_of answer ''reason'' of
        Some r \<Rightarrow> \<lparr>sr_reason = r\<rparr>
      | None \<Rightarrow> \<lparr>sr_reason = ''unknown''\<rparr>)"

definition refusal_error :: "(string \<times> string) list \<Rightarrow> string" where
  "refusal_error answer = ''rejected: '' @ sr_reason (refusal_of answer)"

text \<open>The bytes of \<open>send_frame\<close>, in the order the code appends them.\<close>

definition client_frame_bytes :: "u16 \<Rightarrow> u32 \<Rightarrow> bytes \<Rightarrow> u32 \<Rightarrow> u32 \<Rightarrow> u64 \<Rightarrow> bytes" where
  "client_frame_bytes surface_id fid jpeg width height timestamp_100ns =
     (let bl = word_of_nat (length jpeg) :: u32;
          pdu_len = 8 + 2 + 2 + 1 + 8 + 4 + bl
      in le_bytes 2 RDPGFX_CMDID_START_FRAME @ le_bytes 4 (0 :: u32) @ le_bytes 4 (12 :: u32)
         @ le_bytes 4 fid @ le_bytes 8 timestamp_100ns
         @ le_bytes 2 RDPGFX_CMDID_WIRETOSURFACE_1 @ le_bytes 2 (0 :: u16) @ le_bytes 4 pdu_len
         @ take 2 (le_bytes 4 (ucast surface_id :: u32))
         @ le_bytes 2 RDPGFX_CODECID_JPEG @ [RDPGFX_PIXEL_FORMAT_XRGB_8888]
         @ le_bytes 4 (0 :: u32) @ le_bytes 4 (0 :: u32) @ le_bytes 4 width @ le_bytes 4 height
         @ le_bytes 4 bl @ jpeg
         @ le_bytes 2 RDPGFX_CMDID_END_FRAME @ le_bytes 4 (0 :: u32) @ le_bytes 4 (8 :: u32)
         @ le_bytes 4 fid
         @ le_bytes 2 RDPGFX_CMDID_FRAMEACKNOWLEDGE @ le_bytes 4 (0 :: u32) @ le_bytes 4 (20 :: u32)
         @ le_bytes 4 (0 :: u32) @ le_bytes 4 fid @ le_bytes 4 (1 :: u32))"

definition send_frame ::
  "bytes \<Rightarrow> u32 \<Rightarrow> u32 \<Rightarrow> u64 \<Rightarrow> connection \<Rightarrow> (proto_error + unit) \<times> connection" where
  "send_frame jpeg width height timestamp_100ns c =
     (let c1 = c\<lparr>conn_frame_id := conn_frame_id c + 1\<rparr>
      in send_mux GfxRdp
           (client_frame_bytes (conn_surface_id c1) (conn_frame_id c1) jpeg width height
              timestamp_100ns) c1)"

definition send_meta ::
  "(capture_batch \<Rightarrow> string + bytes) \<Rightarrow> window_capture_record \<Rightarrow> connection
     \<Rightarrow> (proto_error + unit) \<times> connection" where
  "send_meta ser cap c =
     (let c1 = c\<lparr>conn_seq := conn_seq c + 1\<rparr>;
          batch = \<lparr>cb_client_id = conn_client_id c1, cb_seq = conn_seq c1, cb_captures = [cap]\<rparr>
      in case ser batch of
           Inl e \<Rightarrow> (Inl (Json e), c1)
         | Inr pl \<Rightarrow> send_mux PcMeta pl c1)"

text \<open>The header of an audio chunk is the JSON object \<open>{codec, channels, sample_rate}\<close>.\<close>

definition send_audio ::
  "(u16 \<Rightarrow> u32 \<Rightarrow> string + bytes) \<Rightarrow> u16 list \<Rightarrow> u16 \<Rightarrow> u32 \<Rightarrow> connection
     \<Rightarrow> (proto_error + unit) \<times> connection" where
  "send_audio ser_head pcm channels rate c =
     (case ser_head channels rate of
        Inl e \<Rightarrow> (Inl (Json e), c)
      | Inr hb \<Rightarrow>
          send_mux PcAudio
            (le_bytes 2 (word_of_nat (length hb) :: u16) @ hb @ concat (map (le_bytes 2) pcm)) c)"

definition send_ctrl ::
  "(control_message \<Rightarrow> string + bytes) \<Rightarrow> control_message \<Rightarrow> connection
     \<Rightarrow> (proto_error + unit) \<times> connection" where
  "send_ctrl ser msg c =
     (case ser msg of
        Inl e \<Rightarrow> (Inl (Json e), c)
      | Inr pl \<Rightarrow> send_mux PcCtrl pl c)"

section \<open>The headless client (precall-mock)\<close>

definition mock_session_new :: "uuid \<Rightarrow> connection" where
  "mock_session_new client_id =
     \<lparr>conn_wire = [], conn_client_id = client_id, conn_seq = 0, conn_frame_id = 0,
      conn_surface_id = 0\<rparr>"

definition mock_frame_pdus :: "u32 \<Rightarrow> u64 \<Rightarrow> bytes \<Rightarrow> gfx_pdu list" where
  "mock_frame_pdus frame_id timestamp_100ns jpeg =
     [StartFrame frame_id (ucast (timestamp_100ns AND 0xFFFFFFFF)),
      WireToSurface1 0 RDPGFX_CODECID_JPEG RDPGFX_PIXEL_FORMAT_XRGB_8888 (rect_new 0 0 1280 720)
        jpeg,
      EndFrame frame_id]"

definition mock_send_capture ::
  "(capture_batch \<Rightarrow> string + bytes) \<Rightarrow> bytes \<Rightarrow> window_capture_record \<Rightarrow> connection
     \<Rightarrow> (proto_error + unit) \<times> connection" where
  "mock_send_capture ser jpeg meta c =
     (let c1 = c\<lparr>conn_frame_id := conn_frame_id c + 1\<rparr>;
          gfx = foldl (\<lambda>dst p. gfx_encode p dst) []
                  (mock_frame_pdus (conn_frame_id c1) (wcr_timestamp_100ns meta) jpeg)
      in case send_mux GfxRdp gfx c1 of
           (Inl e, c2) \<Rightarrow> (Inl e, c2)
         | (Inr u, c2) \<Rightarrow>
             let c3 = c2\<lparr>conn_seq := conn_seq c2 + 1\<rparr>;
                 batch = \<lparr>cb_client_id = conn_client_id c3, cb_seq = conn_seq c3,
                          cb_captures = [meta]\<rparr>
             in case ser batch of
                  Inl e \<Rightarrow> (Inl (Json e), c3)
                | Inr pl \<Rightarrow> send_mux PcMeta pl c3)"

definition mock_heartbeat ::
  "(control_message \<Rightarrow> string + bytes) \<Rightarrow> u64 \<Rightarrow> u32 \<Rightarrow> connection
     \<Rightarrow> (proto_error + unit) \<times> connection" where
  "mock_heartbeat ser sent queue c =
     (case ser (Heartbeat sent 0 queue) of
        Inl e \<Rightarrow> (Inl (Json e), c)
      | Inr pl \<Rightarrow> send_mux PcCtrl pl c)"

definition mock_close ::
  "(control_message \<Rightarrow> string + bytes) \<Rightarrow> connection \<Rightarrow> (proto_error + unit) \<times> connection" where
  "mock_close ser c =
     (case ser (Goodbye ''done'') of
        Inl e \<Rightarrow> (Inl (Json e), c)
      | Inr pl \<Rightarrow> send_mux PcCtrl pl c)"

section \<open>Lemmas\<close>

lemma send_mux_Inr:
  "send_mux ch pl c = (Inr (), c') \<longleftrightarrow>
     length pl \<le> MAX_MUX_PAYLOAD \<and>
     c' = c\<lparr>conn_wire := conn_wire c @ [channel_to_u8 ch]
              @ le_bytes 4 (word_of_nat (length pl) :: u32) @ pl\<rparr>"
  by (auto simp: send_mux_def mux_encode_def)

lemma send_mux_encode:
  "send_mux ch pl c = (Inr (), c') \<longleftrightarrow>
     (\<exists>w. mux_encode \<lparr>channel = ch, payload = pl\<rparr> (conn_wire c) = Inr w \<and> c' = c\<lparr>conn_wire := w\<rparr>)"
  by (auto simp: send_mux_def split: sum.splits)

lemma length_client_frame_bytes:
  "length (client_frame_bytes sid fid jpeg w h ts) = 91 + length jpeg"
  by (simp add: client_frame_bytes_def Let_def)

text \<open>The start PDU is written with 32-bit flags, so the length field the decoder reads
  straddles the flags and the length that was meant.\<close>

lemma client_frame_length_field:
  "(le_word (bslice 4 8 (client_frame_bytes sid fid jpeg w h ts)) :: u32) = 12 * 65536"
proof -
  have "bslice 4 8 (client_frame_bytes sid fid jpeg w h ts) = [0, 0, 12, 0]"
    by (simp add: client_frame_bytes_def Let_def le_bytes_4 le_bytes_2 bslice_def)
  then show ?thesis by (simp add: le_word.simps)
qed

lemma client_frame_decode:
  assumes "length jpeg < 786341"
  shows "gfx_decode (client_frame_bytes sid fid jpeg w h ts)
     = Inl (Truncated 786432 (91 + length jpeg))"
  using assms
  by (simp add: gfx_decode_def GFX_HEADER_LEN_def client_frame_length_field
      length_client_frame_bytes)

lemma mock_frame_iter:
  assumes "length jpeg \<le> MAX_MUX_PAYLOAD"
  shows "gfx_iter (foldl (\<lambda>dst p. gfx_encode p dst) [] (mock_frame_pdus fid ts jpeg))
     = map Inr (mock_frame_pdus fid ts jpeg)"
proof -
  have "\<forall>p \<in> set (mock_frame_pdus fid ts jpeg). gfx_encoded_len p < 2 ^ 32"
    using assms by (simp add: mock_frame_pdus_def GFX_HEADER_LEN_def MAX_MUX_PAYLOAD_def)
  then show ?thesis
    using gfx_iter_encoded_all [of "mock_frame_pdus fid ts jpeg" "[]"] by simp
qed

end
