(* ===== verification/Hex_Crypto.thy ===== *)
theory Hex_Crypto
  imports Proto_Records
begin

text \<open>
  Hexadecimal keys and fingerprints, certificate pinning (\<open>precall-proto/src/pinning.rs\<close>, the
  fingerprints of \<open>precall-broker/src/tls.rs\<close>) and the at-rest envelope
  (\<open>precall-store/src/crypto.rs\<close>).

  SHA-256 and AES-256-GCM are libraries: the digest is a function argument and the cipher a
  record of two functions. A slice out of range panics in Rust, which is the third kind of
  outcome next to \<open>Ok\<close> and \<open>Err\<close>.
\<close>

section \<open>Outcomes with panics\<close>

datatype 'a outcome = Returned 'a | Panicked

section \<open>Hexadecimal text\<close>

definition hex_digit :: "nat \<Rightarrow> char" where
  "hex_digit n = (if n < 10 then char_of (48 + n) else char_of (87 + n))"

definition hex_value :: "char \<Rightarrow> nat option" where
  "hex_value c =
     (let n = of_char c :: nat in
      if 48 \<le> n \<and> n \<le> 57 then Some (n - 48)
      else if 97 \<le> n \<and> n \<le> 102 then Some (n - 87)
      else if 65 \<le> n \<and> n \<le> 70 then Some (n - 55)
      else None)"

text \<open>\<open>format!("{x:02x}")\<close> of a byte.\<close>

definition hex_of_byte :: "u8 \<Rightarrow> string" where
  "hex_of_byte b = [hex_digit (unat b div 16), hex_digit (unat b mod 16)]"

definition hex_lower :: "bytes \<Rightarrow> string" where
  "hex_lower bs = concat (map hex_of_byte bs)"

text \<open>\<open>u8::from_str_radix(s, 16)\<close> of two characters: a leading plus sign is accepted.\<close>

definition byte_of_hex :: "char \<Rightarrow> char \<Rightarrow> u8 option" where
  "byte_of_hex c1 c2 =
     (if c1 = CHR ''+'' then map_option word_of_nat (hex_value c2)
      else case (hex_value c1, hex_value c2) of
             (Some a, Some b) \<Rightarrow> Some (word_of_nat (16 * a + b))
           | _ \<Rightarrow> None)"

text \<open>\<open>(0..s.len()).step_by(2).map(|i| u8::from_str_radix(&s[i..i + 2], 16)).collect()\<close>: the
  first bad pair is the error, and a last odd character is a slice out of range, reached only
  when every pair before it was good.\<close>

fun hex_pairs :: "string \<Rightarrow> (string + bytes) outcome" where
  "hex_pairs [] = Returned (Inr [])"
| "hex_pairs [c] = Panicked"
| "hex_pairs (c1 # c2 # rest) =
     (case byte_of_hex c1 c2 of
        None \<Rightarrow> Returned (Inl ''invalid digit found in string'')
      | Some b \<Rightarrow>
          (case hex_pairs rest of
             Panicked \<Rightarrow> Panicked
           | Returned (Inl e) \<Rightarrow> Returned (Inl e)
           | Returned (Inr bs) \<Rightarrow> Returned (Inr (b # bs))))"

definition is_ws :: "char \<Rightarrow> bool" where
  "is_ws c \<longleftrightarrow> (let n = of_char c :: nat in (9 \<le> n \<and> n \<le> 13) \<or> n = 32)"

definition trim :: "string \<Rightarrow> string" where
  "trim s = rev (dropWhile is_ws (rev (dropWhile is_ws s)))"

definition str_bytes :: "string \<Rightarrow> bytes" where
  "str_bytes s = map of_char s"

section \<open>Certificate pinning (pinning.rs, tls.rs)\<close>

definition pinned_cert_verifier_new :: "string \<Rightarrow> (string + bytes) outcome" where
  "pinned_cert_verifier_new fingerprint_hex =
     (let fp = to_lowercase (trim fingerprint_hex)
      in case hex_pairs fp of
           Panicked \<Rightarrow> Panicked
         | Returned (Inl e) \<Rightarrow> Returned (Inl (''bad fingerprint hex: '' @ e))
         | Returned (Inr v) \<Rightarrow>
             if length v = 32 then Returned (Inr v)
             else Returned (Inl ''fingerprint must be 32 bytes (64 hex chars)''))"

datatype tls_error = ApplicationVerificationFailure

definition verify_server_cert :: "(bytes \<Rightarrow> bytes) \<Rightarrow> bytes \<Rightarrow> bytes \<Rightarrow> tls_error + unit" where
  "verify_server_cert sha256 fingerprint end_entity =
     (let digest = sha256 end_entity
      in if digest = fingerprint then Inr () else Inl ApplicationVerificationFailure)"

definition fingerprint_der :: "(bytes \<Rightarrow> bytes) \<Rightarrow> bytes \<Rightarrow> string" where
  "fingerprint_der sha256 der = hex_lower (sha256 der)"

text \<open>The signatures of the handshake are asserted, not checked.\<close>

definition verify_tls12_signature :: "bytes \<Rightarrow> bytes \<Rightarrow> bytes \<Rightarrow> tls_error + unit" where
  "verify_tls12_signature message cert dss = Inr ()"

definition verify_tls13_signature :: "bytes \<Rightarrow> bytes \<Rightarrow> bytes \<Rightarrow> tls_error + unit" where
  "verify_tls13_signature message cert dss = Inr ()"

text \<open>The client's trust decision: configure the pin, then check the certificate shown and the
  signature that is to prove possession of its key.\<close>

definition pinned_accepts :: "(bytes \<Rightarrow> bytes) \<Rightarrow> string \<Rightarrow> bytes \<Rightarrow> bytes \<Rightarrow> bytes \<Rightarrow> bool" where
  "pinned_accepts sha256 fingerprint_hex cert message dss =
     (case pinned_cert_verifier_new fingerprint_hex of
        Returned (Inr fp) \<Rightarrow>
          is_ok (verify_server_cert sha256 fp cert) \<and> is_ok (verify_tls13_signature message cert dss)
      | _ \<Rightarrow> False)"

section \<open>The envelope (crypto.rs)\<close>

record aead =
  aead_encrypt :: "bytes \<Rightarrow> bytes \<Rightarrow> bytes \<Rightarrow> bytes \<Rightarrow> bytes"
  aead_decrypt :: "bytes \<Rightarrow> bytes \<Rightarrow> bytes \<Rightarrow> bytes \<Rightarrow> bytes option"

datatype crypto_error = CTruncated | CDecrypt

record envelope_cipher =
  env_aead :: aead
  env_key :: bytes

text \<open>\<open>seal\<close> draws its nonce from the operating system: the nonce is an argument.\<close>

definition envelope_seal :: "envelope_cipher \<Rightarrow> bytes \<Rightarrow> bytes \<Rightarrow> bytes \<Rightarrow> bytes" where
  "envelope_seal c nonce aad plaintext =
     nonce @ aead_encrypt (env_aead c) (env_key c) nonce aad plaintext"

definition envelope_open :: "envelope_cipher \<Rightarrow> bytes \<Rightarrow> bytes \<Rightarrow> crypto_error + bytes" where
  "envelope_open c aad sealed =
     (if length sealed < 12 + 16 then Inl CTruncated
      else
        let nonce = take 12 sealed; ct = drop 12 sealed
        in case aead_decrypt (env_aead c) (env_key c) nonce aad ct of
             None \<Rightarrow> Inl CDecrypt
           | Some pt \<Rightarrow> Inr pt)"

text \<open>What the code relies on of AES-256-GCM: decryption under the same key, nonce and
  associated data inverts encryption, and the tag makes a ciphertext 16 bytes longer. A tag of
  16 bytes cannot refuse every other associated data, so that a sealed message does not pass
  for one with other associated data is a condition on the message at hand.\<close>

definition aead_correct :: "aead \<Rightarrow> bool" where
  "aead_correct a \<longleftrightarrow>
     (\<forall>k n aad pt. aead_decrypt a k n aad (aead_encrypt a k n aad pt) = Some pt)
     \<and> (\<forall>k n aad pt. length (aead_encrypt a k n aad pt) = length pt + 16)"

definition aead_binds_aad :: "aead \<Rightarrow> bytes \<Rightarrow> bytes \<Rightarrow> bytes \<Rightarrow> bytes \<Rightarrow> bytes \<Rightarrow> bool" where
  "aead_binds_aad a k n aad pt aad' \<longleftrightarrow> aead_decrypt a k n aad' (aead_encrypt a k n aad pt) = None"

text \<open>An AEAD in this sense, for the witnesses: the tag is the first 16 bytes of the associated
  data.\<close>

definition example_tag :: "bytes \<Rightarrow> bytes" where
  "example_tag aad = take 16 (aad @ replicate 16 0)"

definition example_aead :: aead where
  "example_aead =
     \<lparr>aead_encrypt = (\<lambda>k n aad pt. pt @ example_tag aad),
      aead_decrypt = (\<lambda>k n aad ct. if drop (length ct - 16) ct = example_tag aad
                                   then Some (take (length ct - 16) ct) else None)\<rparr>"

lemma example_aead_correct: "aead_correct example_aead"
  by (auto simp: aead_correct_def example_aead_def example_tag_def min_def)

section \<open>Lemmas\<close>

lemma hex_value_digit: "n < 16 \<Longrightarrow> hex_value (hex_digit n) = Some n"
  by (simp add: hex_value_def hex_digit_def of_char_of)

lemma hex_digit_not_plus: "n < 16 \<Longrightarrow> hex_digit n \<noteq> CHR ''+''"
proof
  assume n: "n < 16" and e: "hex_digit n = CHR ''+''"
  then have "hex_value (CHR ''+'') = Some n" using hex_value_digit [OF n] by simp
  then show False by (simp add: hex_value_def)
qed

lemma byte_of_hex_of_byte:
  "byte_of_hex (hex_digit (unat b div 16)) (hex_digit (unat b mod 16)) = Some b"
proof -
  have "unat b < 256" using unsigned_less [of b] by simp
  then have "unat b div 16 < 16" "unat b mod 16 < 16" by auto
  then show ?thesis
    using hex_value_digit hex_digit_not_plus
    by (simp add: byte_of_hex_def)
qed

lemma hex_pairs_hex_lower: "hex_pairs (hex_lower bs) = Returned (Inr bs)"
  by (induction bs) (simp_all add: hex_lower_def hex_of_byte_def byte_of_hex_of_byte)

lemma hex_digit_plain:
  assumes "n < 16"
  shows "\<not> is_ws (hex_digit n)" "ascii_lower (hex_digit n) = hex_digit n"
  using assms by (auto simp: is_ws_def ascii_lower_def hex_digit_def of_char_of Let_def)

lemma hex_lower_digits: "set (hex_lower bs) \<subseteq> hex_digit ` {..<16}"
proof -
  have "unat b div 16 < 16" for b :: u8
  proof -
    have "unat b < 256" using unsigned_less [of b, where ?'a = nat] by simp
    then show ?thesis by simp
  qed
  then show ?thesis by (auto simp: hex_lower_def hex_of_byte_def)
qed

lemma dropWhile_none: "\<forall>c \<in> set s. \<not> P c \<Longrightarrow> dropWhile P s = s"
  by (cases s) auto

lemma trim_plain: "\<forall>c \<in> set s. \<not> is_ws c \<Longrightarrow> trim s = s"
  by (simp add: trim_def dropWhile_none)

lemma to_lowercase_plain: "\<forall>c \<in> set s. ascii_lower c = c \<Longrightarrow> to_lowercase s = s"
  by (simp add: to_lowercase_def map_idI)

lemma pin_of_fingerprint:
  "length fp = 32 \<Longrightarrow> pinned_cert_verifier_new (hex_lower fp) = Returned (Inr fp)"
proof -
  assume "length fp = 32"
  moreover have "\<forall>c \<in> set (hex_lower fp). \<not> is_ws c" "\<forall>c \<in> set (hex_lower fp). ascii_lower c = c"
    using hex_lower_digits [of fp] hex_digit_plain by auto
  ultimately show ?thesis
    by (simp add: pinned_cert_verifier_new_def trim_plain to_lowercase_plain hex_pairs_hex_lower)
qed

lemma envelope_roundtrip:
  assumes "aead_correct (env_aead c)" "length nonce = 12"
  shows "envelope_open c aad (envelope_seal c nonce aad pt) = Inr pt"
  using assms by (simp add: envelope_open_def envelope_seal_def aead_correct_def)

lemma envelope_wrong_aad:
  assumes "aead_correct (env_aead c)" "length nonce = 12"
    and "aead_binds_aad (env_aead c) (env_key c) nonce aad pt aad'"
  shows "envelope_open c aad' (envelope_seal c nonce aad pt) = Inl CDecrypt"
  using assms by (simp add: envelope_open_def envelope_seal_def aead_correct_def aead_binds_aad_def)

lemma of_char_u8_inj: "inj (of_char :: char \<Rightarrow> u8)"
proof (rule injI)
  fix c d :: char
  assume "(of_char c :: u8) = of_char d"
  then have "(word_of_nat (of_char c) :: u8) = word_of_nat (of_char d)"
    by (simp only: of_nat_of_char)
  then have "unat (word_of_nat (of_char c) :: u8) = unat (word_of_nat (of_char d) :: u8)" by simp
  moreover have "(of_char e :: nat) < 256" for e :: char
    using nat_of_char_less_256 by blast
  ultimately have "(of_char c :: nat) = of_char d"
    by (simp add: unat_of_nat)
  then show "c = d" by simp
qed

lemma str_bytes_inj: "str_bytes s = str_bytes t \<longleftrightarrow> s = t"
  using of_char_u8_inj by (simp add: str_bytes_def inj_map_eq_map)

lemma hex_pairs_append_odd: "hex_pairs (hex_lower bs @ [c]) = Panicked"
  by (induction bs) (simp_all add: hex_lower_def hex_of_byte_def byte_of_hex_of_byte)

lemma hex_pairs_length: "hex_pairs s = Returned (Inr bs) \<Longrightarrow> length s = 2 * length bs"
  by (induction s arbitrary: bs rule: hex_pairs.induct)
    (auto split: option.splits outcome.splits sum.splits)

section \<open>Properties\<close>

text \<open>C20. Pinning is the whole trust decision: with the fingerprint that the broker prints for
  its certificate (hexadecimal text, parsed back by the client), a server is accepted exactly
  when the certificate it shows has the same SHA-256 digest. The signature that would prove
  that the server holds the certificate's key plays no part, so whoever can show a copy of
  the certificate is accepted.\<close>

theorem pinning_accepts_exactly_the_pinned:
  assumes "length (sha256 der) = 32"
  shows "pinned_accepts sha256 (fingerprint_der sha256 der) cert message dss \<longleftrightarrow> sha256 cert = sha256 der"
  using pin_of_fingerprint [OF assms]
  by (simp add: pinned_accepts_def fingerprint_der_def verify_server_cert_def verify_tls13_signature_def)

theorem pinning_accepts_exactly_the_pinned_witness:
  "pinned_accepts (\<lambda>m. take 32 (m @ replicate 32 0))
     (fingerprint_der (\<lambda>m. take 32 (m @ replicate 32 0)) [7]) [7] [1, 2] []
   \<and> \<not> pinned_accepts (\<lambda>m. take 32 (m @ replicate 32 0))
     (fingerprint_der (\<lambda>m. take 32 (m @ replicate 32 0)) [7]) [8] [1, 2] []"
proof -
  have h: "length (take 32 ([7] @ replicate 32 (0 :: u8))) = 32" by simp
  show ?thesis
    using pinning_accepts_exactly_the_pinned [of "\<lambda>m. take 32 (m @ replicate 32 0)" "[7]", OF h]
    by (simp add: numeral_eq_Suc)
qed

text \<open>Every certificate is judged by a 32-byte pin or not at all: a verifier is only built
  from 64 hexadecimal characters, and a pin that is hexadecimal except that one digit is
  missing does not give the error the function has for it, it panics.\<close>

lemma pin_needs_64_digits:
  "(pinned_cert_verifier_new s = Returned (Inr fp) \<longrightarrow> length (trim s) = 64 \<and> length fp = 32)
   \<and> (n < 16 \<longrightarrow> pinned_cert_verifier_new (hex_lower bs @ [hex_digit n]) = Panicked)"
proof (intro conjI impI)
  assume "pinned_cert_verifier_new s = Returned (Inr fp)"
  then have "hex_pairs (to_lowercase (trim s)) = Returned (Inr fp)" "length fp = 32"
    by (auto simp: pinned_cert_verifier_new_def Let_def split: outcome.splits sum.splits if_splits)
  then show "length (trim s) = 64" "length fp = 32"
    using hex_pairs_length by (force simp: to_lowercase_def)+
next
  assume "n < 16"
  then have "\<forall>c \<in> set (hex_lower bs @ [hex_digit n]). \<not> is_ws c"
    "\<forall>c \<in> set (hex_lower bs @ [hex_digit n]). ascii_lower c = c"
    using hex_lower_digits [of bs] hex_digit_plain by auto
  then show "pinned_cert_verifier_new (hex_lower bs @ [hex_digit n]) = Panicked"
    by (simp add: pinned_cert_verifier_new_def trim_plain to_lowercase_plain hex_pairs_append_odd)
qed

end
