(* ===== verification/Access_Control.thy ===== *)
theory Access_Control
  imports Proto_Records Hex_Crypto
begin

text \<open>
  Who is let in: the broker's \<open>Authenticator\<close> (\<open>precall-broker/src/auth.rs\<close>) and the
  bearer tokens of the HTTP surface (\<open>precall-api/src/auth.rs\<close>). SHA-256 is an argument.
  What \<open>HeaderValue::to_str\<close> makes of the \<open>Authorization\<close> header (nothing, when the header
  is absent or not visible ASCII) is an argument of the middleware.
\<close>

section \<open>Comparison of digests\<close>

definition ct_eq :: "bytes \<Rightarrow> bytes \<Rightarrow> bool" where
  "ct_eq a b \<longleftrightarrow> foldl (\<lambda>acc (x, y). acc OR (x XOR y)) (0 :: u8) (zip a b) = 0"

section \<open>Broker (auth.rs)\<close>

datatype auth_decision =
    Allow string
  | Reject string

record authenticator =
  au_psk_digests :: "bytes list"
  au_enrolled_certs :: "string list"
  au_allow_ntlm :: bool
  au_allow_any_client :: bool

definition authenticator_new ::
  "(bytes \<Rightarrow> bytes) \<Rightarrow> string list \<Rightarrow> string list \<Rightarrow> bool \<Rightarrow> bool \<Rightarrow> authenticator" where
  "authenticator_new sha256 psk_tokens enrolled_certs allow_ntlm allow_any_client =
     \<lparr>au_psk_digests = map (\<lambda>t. sha256 (str_bytes t)) psk_tokens,
      au_enrolled_certs = map to_lowercase enrolled_certs,
      au_allow_ntlm = allow_ntlm,
      au_allow_any_client = allow_any_client\<rparr>"

fun authenticate :: "(bytes \<Rightarrow> bytes) \<Rightarrow> authenticator \<Rightarrow> auth_method \<Rightarrow> uuid \<Rightarrow> auth_decision" where
  "authenticate sha256 au (Psk token) client_id =
     (if \<not> au_allow_any_client au \<and> au_psk_digests au = []
      then Reject ''psk auth disabled''
      else let digest = sha256 (str_bytes token)
           in if list_ex (\<lambda>d. ct_eq d digest) (au_psk_digests au)
              then Allow (''psk:'' @ take 8 client_id)
              else Reject ''unknown pre-shared key'')"
| "authenticate sha256 au (Certificate fingerprint) client_id =
     (let fp = to_lowercase fingerprint
      in if list_ex (\<lambda>e. e = fp) (au_enrolled_certs au)
         then Allow (''cert:'' @ fp)
         else Reject ''certificate not enrolled'')"
| "authenticate sha256 au (Ntlm user blob) client_id =
     (if au_allow_ntlm au
      then Allow (''ntlm:'' @ user)
      else Reject ''ntlm disabled; use psk or certificate'')"

fun is_allow :: "auth_decision \<Rightarrow> bool" where
  "is_allow (Allow p) = True"
| "is_allow (Reject r) = False"

section \<open>API (auth.rs)\<close>

record api_auth =
  aa_token_digests :: "bytes list"
  aa_warned :: bool

text \<open>\<open>ApiError\<close> (\<open>precall-api/src/lib.rs\<close>); a wrapped error is its text.\<close>

datatype api_error =
    ApiIo string
  | ApiDb string
  | ApiStore string
  | ApiObjects string
  | ApiSemantic string
  | BadRequest string
  | Unauthorized
  | NotFound string
  | Unavailable string
  | ApiAnyhow string
  | Upstream string

fun status_code :: "api_error \<Rightarrow> nat" where
  "status_code Unauthorized = 401"
| "status_code (NotFound _) = 404"
| "status_code (BadRequest _) = 400"
| "status_code (Unavailable _) = 503"
| "status_code _ = 500"

definition api_auth_new :: "(bytes \<Rightarrow> bytes) \<Rightarrow> string list \<Rightarrow> api_auth" where
  "api_auth_new sha256 tokens =
     \<lparr>aa_token_digests = map (\<lambda>t. sha256 (str_bytes t)) tokens, aa_warned = False\<rparr>"

definition is_configured :: "api_auth \<Rightarrow> bool" where
  "is_configured a \<longleftrightarrow> aa_token_digests a \<noteq> []"

definition allows :: "(bytes \<Rightarrow> bytes) \<Rightarrow> api_auth \<Rightarrow> string option \<Rightarrow> bool \<Rightarrow> bool" where
  "allows sha256 a header_token loopback_only_hint =
     (if aa_token_digests a = [] then loopback_only_hint
      else case header_token of
             Some t \<Rightarrow>
               (let digest = sha256 (str_bytes t)
                in list_ex (\<lambda>d. ct_eq d digest) (aa_token_digests a))
           | None \<Rightarrow> False)"

text \<open>The second component tells whether the warning is logged.\<close>

definition note_open_mode :: "api_auth \<Rightarrow> api_auth \<times> bool" where
  "note_open_mode a =
     (if is_configured a then (a, False) else (a\<lparr>aa_warned := True\<rparr>, \<not> aa_warned a))"

definition strip_prefix :: "string \<Rightarrow> string \<Rightarrow> string option" where
  "strip_prefix p s = (if starts_with p s then Some (drop (length p) s) else None)"

text \<open>\<open>Inr\<close>: the request goes on to the router. The peer's address is no argument, because
  the middleware never looks at it.\<close>

definition require_auth ::
  "(bytes \<Rightarrow> bytes) \<Rightarrow> api_auth \<Rightarrow> string option \<Rightarrow> (api_error + unit) \<times> api_auth" where
  "require_auth sha256 a authorization =
     (if \<not> is_configured a then (Inr (), fst (note_open_mode a))
      else let header = Option.bind authorization (\<lambda>v. map_option trim (strip_prefix ''Bearer '' v))
           in if allows sha256 a header True then (Inr (), a) else (Inl Unauthorized, a))"

section \<open>Lemmas\<close>

lemma xor_zero_iff: "(x :: u8) XOR y = 0 \<longleftrightarrow> x = y"
proof
  assume "x XOR y = 0"
  then have "(x XOR y) XOR y = 0 XOR y" by (rule arg_cong)
  then show "x = y" by (simp add: xor.assoc)
qed simp

lemma ct_eq_foldl:
  assumes "length a = length b"
  shows "foldl (\<lambda>acc (x, y). acc OR (x XOR y)) z (zip a b) = (0 :: u8) \<longleftrightarrow> z = 0 \<and> a = b"
  using assms
proof (induction a b arbitrary: z rule: list_induct2)
  case Nil
  then show ?case by simp
next
  case (Cons x xs y ys)
  show ?case
    by (simp only: zip_Cons_Cons foldl_Cons prod.case Cons.IH or_eq_0_iff xor_zero_iff list.inject) blast
qed

lemma ct_eq_iff: "length a = length b \<Longrightarrow> ct_eq a b \<longleftrightarrow> a = b"
  by (simp add: ct_eq_def ct_eq_foldl)

lemma ct_eq_member:
  "\<forall>d \<in> set ds. length d = length x \<Longrightarrow> list_ex (\<lambda>d. ct_eq d x) ds \<longleftrightarrow> x \<in> set ds"
  by (auto simp: list_ex_iff ct_eq_iff)

lemma digest_member:
  assumes "\<And>m. length (sha256 m) = 32"
  shows "list_ex (\<lambda>d. ct_eq d (sha256 x)) (map (\<lambda>t. sha256 (str_bytes t)) ts)
     \<longleftrightarrow> (\<exists>t \<in> set ts. sha256 (str_bytes t) = sha256 x)"
proof -
  have "list_ex (\<lambda>d. ct_eq d (sha256 x)) (map (\<lambda>t. sha256 (str_bytes t)) ts)
     \<longleftrightarrow> sha256 x \<in> set (map (\<lambda>t. sha256 (str_bytes t)) ts)"
    by (rule ct_eq_member) (simp add: assms)
  then show ?thesis by (simp add: image_iff) metis
qed

lemma starts_with_iff: "starts_with p s \<longleftrightarrow> take (length p) s = p"
  by (induction p s rule: starts_with.induct) auto

lemma strip_prefix_append [simp]: "strip_prefix p (p @ s) = Some s"
  by (simp add: strip_prefix_def starts_with_iff)

lemma strip_prefix_Some: "strip_prefix p v = Some s \<longleftrightarrow> v = p @ s"
  by (auto simp: strip_prefix_def starts_with_iff) (metis append_take_drop_id)

text \<open>A function with digests of 32 bytes, for the witnesses.\<close>

definition example_digest :: "bytes \<Rightarrow> bytes" where
  "example_digest m = take 32 (m @ replicate 32 0)"

lemma example_digest_length: "length (example_digest m) = 32"
  by (simp add: example_digest_def)

text \<open>What a credential has to be, on the configuration's own terms.\<close>

fun credential_accepted ::
  "(bytes \<Rightarrow> bytes) \<Rightarrow> string list \<Rightarrow> string list \<Rightarrow> bool \<Rightarrow> auth_method \<Rightarrow> bool" where
  "credential_accepted sha256 psks certs ntlm (Psk token) \<longleftrightarrow>
     (\<exists>t \<in> set psks. sha256 (str_bytes t) = sha256 (str_bytes token))"
| "credential_accepted sha256 psks certs ntlm (Certificate fp) \<longleftrightarrow>
     (\<exists>c \<in> set certs. to_lowercase c = to_lowercase fp)"
| "credential_accepted sha256 psks certs ntlm (Ntlm user blob) \<longleftrightarrow> ntlm"

section \<open>Properties\<close>

text \<open>C24. The broker lets a client in exactly when the credential is one the configuration
  lists: a pre-shared key with a configured digest (the branch-free comparison decides equality
  of digests), an enrolled fingerprint up to case, or NTLM when allowed. Neither
  \<open>allow_any_client\<close> nor the claimed client id changes the answer, so the flag that is
  documented to restrict client ids restricts nothing.\<close>

theorem authenticate_decides:
  assumes "\<And>m. length (sha256 m) = 32"
  shows "is_allow (authenticate sha256 (authenticator_new sha256 psks certs ntlm any) auth cid)
     \<longleftrightarrow> credential_accepted sha256 psks certs ntlm auth"
proof (cases auth)
  case (Psk t)
  then show ?thesis
    using digest_member [of sha256 "str_bytes t" psks, OF assms]
    by (cases psks) (auto simp: authenticator_new_def Let_def)
next
  case (Certificate fp)
  then show ?thesis
    by (simp add: authenticator_new_def list_ex_iff Let_def image_iff) metis
next
  case (Ntlm u b)
  then show ?thesis by (simp add: authenticator_new_def)
qed

theorem authenticate_decides_witness:
  "is_allow (authenticate example_digest
      (authenticator_new example_digest [''k''] [] False False) (Psk ''k'') ''c'')
   \<and> \<not> is_allow (authenticate example_digest
      (authenticator_new example_digest [] [''ab''] False True) (Psk ''k'') ''c'')"
  unfolding authenticate_decides [OF example_digest_length] by simp



end
