(* ===== verification/Filetime.thy ===== *)
theory Filetime
  imports Complex_Main Proto_Records
begin

text \<open>
  The clocks of the program: \<open>precall-proto/src/time.rs\<close>, the date of the object layout
  (\<open>ymd_from_filetime\<close> in \<open>precall-store/src/objects.rs\<close>) and the hour bucket of the dwell
  tables (\<open>hour_bucket\<close> in \<open>precall-store/src/ukg.rs\<close>). \<open>div_euclid\<close> and \<open>rem_euclid\<close> by a
  positive constant are HOL's \<open>div\<close> and \<open>mod\<close>; \<open>/\<close> on \<open>i64\<close> truncates (\<open>trunc_div\<close>); the one
  subtraction that can leave the \<open>i64\<close> range wraps.
\<close>

section \<open>time.rs\<close>

definition FILETIME_UNIX_DELTA :: int where
  "FILETIME_UNIX_DELTA = 116444736000000000"

text \<open>\<open>filetime_now\<close> reads the system clock, a duration since 1970 in whole seconds and
  nanoseconds.\<close>

definition filetime_now :: "u64 \<Rightarrow> u32 \<Rightarrow> u64" where
  "filetime_now as_secs subsec_nanos =
     word_of_int FILETIME_UNIX_DELTA + as_secs * 10000000 + ucast subsec_nanos div 100"

text \<open>\<open>filetime_to_unix\<close> returns seconds as a float; the model returns the exact quotient.\<close>

definition filetime_to_unix :: "u64 \<Rightarrow> rat" where
  "filetime_to_unix ticks =
     of_nat (unat ticks - nat FILETIME_UNIX_DELTA) / 10000000"

section \<open>The date of the object layout (objects.rs)\<close>

text \<open>Days since 1970-01-01 to a civil date (lines 15 to 26 of \<open>objects.rs\<close>).\<close>

definition civil_from_days :: "int \<Rightarrow> int \<times> int \<times> int" where
  "civil_from_days days =
     (let z = days + 719468;
          era = z div 146097;
          doe = z mod 146097;
          yoe = (doe - doe div 1460 + doe div 36524 - doe div 146096) div 365;
          y = yoe + era * 400;
          doy = doe - (365 * yoe + yoe div 4 - yoe div 100);
          mp = (5 * doy + 2) div 153;
          d = doy - (153 * mp + 2) div 5 + 1;
          m = (if mp < 10 then mp + 3 else mp - 9)
      in (if m \<le> 2 then y + 1 else y, m, d))"

definition ymd_from_filetime :: "int \<Rightarrow> int \<times> int \<times> int" where
  "ymd_from_filetime ticks =
     (let days = i64_wrap (ticks - FILETIME_UNIX_DELTA) div 86400000000000
      in civil_from_days days)"

section \<open>Hour buckets (ukg.rs)\<close>

definition TICKS_PER_SEC :: int where "TICKS_PER_SEC = 10000000"
definition TICKS_PER_HOUR :: int where "TICKS_PER_HOUR = 3600 * TICKS_PER_SEC"

definition hour_bucket :: "int \<Rightarrow> int \<times> int \<times> int" where
  "hour_bucket ts_100ns =
     (let unix_secs = trunc_div (i64_wrap (ts_100ns - FILETIME_UNIX_DELTA)) TICKS_PER_SEC;
          days = unix_secs div 86400;
          secs_of_day = unix_secs mod 86400;
          hour = secs_of_day div 3600;
          dow = (days + 4) mod 7;
          hour_start = FILETIME_UNIX_DELTA + (days * 24 + hour) * TICKS_PER_HOUR
      in (hour, dow, hour_start))"

section \<open>The calendar as a specification\<close>

text \<open>The inverse direction, written from the calendar itself: the number of days between
  1970-01-01 and a civil date of the proleptic Gregorian calendar, with years that begin in
  March so that the leap day is the last day of its year.\<close>

definition days_from_civil :: "int \<times> int \<times> int \<Rightarrow> int" where
  "days_from_civil ymd =
     (case ymd of (y, m, d) \<Rightarrow>
        let y' = (if m \<le> 2 then y - 1 else y);
            mp = (if 2 < m then m - 3 else m + 9)
        in 365 * y' + y' div 4 - y' div 100 + y' div 400 + (153 * mp + 2) div 5 + d - 1 - 719468)"

definition leap_year :: "int \<Rightarrow> bool" where
  "leap_year y \<longleftrightarrow> y mod 4 = 0 \<and> (y mod 100 \<noteq> 0 \<or> y mod 400 = 0)"

definition month_days :: "int \<Rightarrow> int \<Rightarrow> int" where
  "month_days y m =
     (if m = 2 then (if leap_year y then 29 else 28)
      else if m = 4 \<or> m = 6 \<or> m = 9 \<or> m = 11 then 30 else 31)"

section \<open>Lemmas on the calendar\<close>

text \<open>The year of the 400-year era is found through a monotone function of the day of the
  era; the first day of year \<open>k\<close> is \<open>era_year_start k\<close>. The two facts about the 400 year
  boundaries are evaluated.\<close>

definition era_days :: "int \<Rightarrow> int" where
  "era_days doe = doe - doe div 1460 + doe div 36524 - doe div 146096"

definition era_year_start :: "int \<Rightarrow> int" where
  "era_year_start k = 365 * k + k div 4 - k div 100"

lemma era_days_step: "0 \<le> n \<Longrightarrow> n < 146096 \<Longrightarrow> era_days n \<le> era_days (n + 1)"
proof -
  assume "0 \<le> n" "n < 146096"
  have "(n + 1) div 1460 \<le> n div 1460 + 1" by linarith
  moreover have "n div 36524 + (n + 1) div 146096 \<le> (n + 1) div 36524 + n div 146096"
  proof (cases "n = 146095")
    case False
    then have "(n + 1) div 146096 = 0" "n div 146096 = 0"
      using \<open>0 \<le> n\<close> \<open>n < 146096\<close> by (simp_all add: div_pos_pos_trivial)
    then show ?thesis by (simp add: zdiv_mono1)
  qed simp
  ultimately show ?thesis by (simp add: era_days_def)
qed

lemma era_days_mono:
  assumes "m \<le> n" "0 \<le> m" "n \<le> 146096"
  shows "era_days m \<le> era_days n"
  using assms
proof (induction n rule: int_ge_induct)
  case base
  then show ?case by simp
next
  case (step i)
  then show ?case using era_days_step [of i] by simp
qed

lemma era_boundaries:
  "list_all (\<lambda>k. 365 * k \<le> era_days (era_year_start k)
      \<and> era_days (era_year_start (k + 1) - 1) < 365 * (k + 1)) (map int [0..<400])"
  by code_simp

lemma era_boundary:
  assumes "0 \<le> k" "k < 400"
  shows "365 * k \<le> era_days (era_year_start k)"
    and "era_days (era_year_start (k + 1) - 1) < 365 * (k + 1)"
proof -
  have "k \<in> set (map int [0..<400])"
    using assms by (auto intro!: image_eqI [of _ _ "nat k"])
  with era_boundaries have "365 * k \<le> era_days (era_year_start k)
      \<and> era_days (era_year_start (k + 1) - 1) < 365 * (k + 1)"
    unfolding list_all_iff by (rule bspec)
  then show "365 * k \<le> era_days (era_year_start k)"
    and "era_days (era_year_start (k + 1) - 1) < 365 * (k + 1)" by simp_all
qed

lemma era_year_start_mono: "j \<le> k \<Longrightarrow> era_year_start j \<le> era_year_start k"
proof -
  assume "j \<le> k"
  then have "k div 100 - j div 100 \<le> k - j" and "j div 4 \<le> k div 4" by linarith+
  with \<open>j \<le> k\<close> show ?thesis by (simp add: era_year_start_def)
qed

lemma div_add_one:
  fixes k n :: int
  assumes "0 < n"
  shows "(k + 1) div n = k div n + (if (k + 1) mod n = 0 then 1 else 0)"
proof (cases "k mod n = n - 1")
  case True
  then have "k + 1 = n * (k div n) + n"
    using mult_div_mod_eq [of n k] by linarith
  then have "k + 1 = n * (k div n + 1)" by (simp add: distrib_left)
  then show ?thesis
    using assms by (metis add.commute mod_mult_self1_is_0 nonzero_mult_div_cancel_left less_irrefl)
next
  case False
  have r: "0 \<le> k mod n + 1" "k mod n + 1 < n" "k mod n + 1 \<noteq> 0"
    using assms False pos_mod_bound [of n k] pos_mod_sign [of n k] by linarith+
  have "k + 1 = k mod n + 1 + n * (k div n)"
    using mult_div_mod_eq [of n k] by simp
  then have "(k + 1) div n = k div n + (k mod n + 1) div n" "(k + 1) mod n = (k mod n + 1) mod n"
    using assms by (metis div_mult_self2 less_irrefl add.commute, metis mod_mult_self2)
  then show ?thesis
    using r by (simp_all add: div_pos_pos_trivial mod_pos_pos_trivial)
qed

lemma era_year_start_Suc:
  "era_year_start (k + 1) = era_year_start k + (if leap_year (k + 1) then 366 else 365)
      - (if (k + 1) mod 400 = 0 then 1 else 0)"
proof -
  have "(k + 1) mod 100 = 0 \<Longrightarrow> (k + 1) mod 4 = 0" "(k + 1) mod 400 = 0 \<Longrightarrow> (k + 1) mod 100 = 0"
    using mod_mod_cancel [of 4 100 "k + 1"] mod_mod_cancel [of 100 400 "k + 1"] by auto
  then show ?thesis
    by (auto simp: era_year_start_def leap_year_def div_add_one)
qed

text \<open>The year of the era, as the code computes it, brackets the day of the era.\<close>

lemma year_of_era:
  fixes doe :: int
  assumes doe: "0 \<le> doe" "doe < 146097"
  defines "yoe \<equiv> era_days doe div 365"
  shows "0 \<le> yoe" "yoe < 400" "era_year_start yoe \<le> doe"
    and "yoe < 399 \<Longrightarrow> doe < era_year_start (yoe + 1)"
proof -
  have lo: "0 \<le> era_days doe"
    using era_days_mono [of 0 doe] doe by (simp add: era_days_def)
  have hi: "era_days doe \<le> 145999"
    using era_days_mono [of doe 146096] doe by (simp add: era_days_def)
  show y0: "0 \<le> yoe" and y1: "yoe < 400"
    using lo hi by (auto simp: yoe_def)
  have q: "365 * yoe \<le> era_days doe" "era_days doe < 365 * (yoe + 1)"
    by (auto simp: yoe_def)
  show "era_year_start yoe \<le> doe"
  proof (rule ccontr)
    assume "\<not> era_year_start yoe \<le> doe"
    moreover have "era_year_start 0 = 0" by (simp add: era_year_start_def)
    ultimately have "yoe \<noteq> 0" using doe by auto
    then have "era_days (era_year_start yoe - 1) < 365 * yoe"
      using era_boundary(2) [of "yoe - 1"] y0 y1 by simp
    moreover have "era_days doe \<le> era_days (era_year_start yoe - 1)"
    proof (rule era_days_mono)
      have "era_year_start yoe \<le> era_year_start 399"
        using y1 by (intro era_year_start_mono) simp
      then show "era_year_start yoe - 1 \<le> 146096" by (simp add: era_year_start_def)
    qed (use doe \<open>\<not> era_year_start yoe \<le> doe\<close> in auto)
    ultimately show False using q by simp
  qed
  show "doe < era_year_start (yoe + 1)" if "yoe < 399"
  proof (rule ccontr)
    assume "\<not> doe < era_year_start (yoe + 1)"
    moreover have "0 \<le> era_year_start (yoe + 1)"
      using era_year_start_mono [of 0 "yoe + 1"] y0 by (simp add: era_year_start_def)
    ultimately have "era_days (era_year_start (yoe + 1)) \<le> era_days doe"
      using doe by (intro era_days_mono) auto
    then show False using era_boundary(1) [of "yoe + 1"] that y0 q by simp
  qed
qed

lemma day_of_year:
  fixes doe :: int
  assumes doe: "0 \<le> doe" "doe < 146097"
  defines "yoe \<equiv> era_days doe div 365"
  shows "0 \<le> doe - era_year_start yoe" and "doe - era_year_start yoe \<le> 365"
    and "doe - era_year_start yoe = 365 \<Longrightarrow> leap_year (yoe + 1)"
proof -
  note y = year_of_era [OF doe, folded yoe_def]
  show "0 \<le> doe - era_year_start yoe" using y(3) by simp
  have bound: "doe - era_year_start yoe < (if leap_year (yoe + 1) then 366 else 365)"
  proof (cases "yoe = 399")
    case True
    then show ?thesis using doe by (simp add: era_year_start_def leap_year_def)
  next
    case False
    then have "yoe + 1 < 400" "0 < yoe + 1" using y by simp_all
    then have "(yoe + 1) mod 400 \<noteq> 0" by simp
    then show ?thesis
      using False y era_year_start_Suc [of yoe] by simp
  qed
  then show "doe - era_year_start yoe \<le> 365" by (simp split: if_splits)
  show "leap_year (yoe + 1)" if "doe - era_year_start yoe = 365"
    using bound that by (simp split: if_splits)
qed

text \<open>Month and day inside a year that begins in March.\<close>

definition month_of_doy :: "int \<Rightarrow> int" where
  "month_of_doy doy = (5 * doy + 2) div 153"

definition day_of_doy :: "int \<Rightarrow> int" where
  "day_of_doy doy = doy - (153 * month_of_doy doy + 2) div 5 + 1"

definition month_ok :: "int \<Rightarrow> bool" where
  "month_ok doy \<longleftrightarrow>
     (let mp = month_of_doy doy; d = day_of_doy doy
      in 0 \<le> mp \<and> mp \<le> 11 \<and> 1 \<le> d \<and>
         d \<le> (if mp = 11 then (if doy = 365 then 29 else 28)
               else if mp = 1 \<or> mp = 3 \<or> mp = 6 \<or> mp = 8 then 30 else 31))"

lemma month_table: "list_all month_ok (map int [0..<366])"
  by code_simp

lemma month_of_year: "0 \<le> doy \<Longrightarrow> doy \<le> 365 \<Longrightarrow> month_ok doy"
proof -
  assume "0 \<le> doy" "doy \<le> 365"
  then have "doy \<in> set (map int [0..<366])"
    by (auto intro!: image_eqI [of _ _ "nat doy"])
  then show "month_ok doy"
    using month_table by (metis list_all_iff)
qed

lemma leap_year_period: "leap_year (y + era * 400) = leap_year y"
proof -
  have "y + era * 400 = y + (era * 100) * 4" "y + era * 400 = y + (era * 4) * 100" by simp_all
  then have "(y + era * 400) mod 4 = y mod 4" "(y + era * 400) mod 100 = y mod 100"
    by (metis mod_mult_self1)+
  then show ?thesis by (simp add: leap_year_def)
qed

text \<open>The code's steps, with the day of the era and the day of the year named.\<close>

lemma civil_from_days_steps:
  fixes days :: int
  defines "doe \<equiv> (days + 719468) mod 146097" and "era \<equiv> (days + 719468) div 146097"
  defines "yoe \<equiv> era_days doe div 365"
  defines "doy \<equiv> doe - era_year_start yoe"
  defines "mp \<equiv> month_of_doy doy"
  shows "civil_from_days days =
     (if mp < 10 then yoe + era * 400 else yoe + era * 400 + 1,
      if mp < 10 then mp + 3 else mp - 9, day_of_doy doy)"
    and "0 \<le> doy" "doy \<le> 365" "doy = 365 \<Longrightarrow> leap_year (yoe + era * 400 + 1)"
    and "0 \<le> yoe" "yoe < 400" "days = era * 146097 + era_year_start yoe + doy - 719468"
proof -
  have doe: "0 \<le> doe" "doe < 146097" by (simp_all add: doe_def)
  note doy = day_of_year [OF doe, folded yoe_def doy_def]
  have m: "0 \<le> mp" "mp \<le> 11"
    using month_of_year [OF doy(1,2)] by (simp_all add: month_ok_def Let_def mp_def)
  show "0 \<le> doy" "doy \<le> 365" by (fact doy(1), fact doy(2))
  show "0 \<le> yoe" "yoe < 400"
    using year_of_era [OF doe] by (simp_all add: yoe_def)
  show "leap_year (yoe + era * 400 + 1)" if "doy = 365"
    using doy(3) [OF that] leap_year_period [of "yoe + 1" era] by (simp add: algebra_simps)
  have "days + 719468 = era * 146097 + doe" by (simp add: era_def doe_def)
  then show "days = era * 146097 + era_year_start yoe + doy - 719468" by (simp add: doy_def)
  show "civil_from_days days =
     (if mp < 10 then yoe + era * 400 else yoe + era * 400 + 1,
      if mp < 10 then mp + 3 else mp - 9, day_of_doy doy)"
  proof -
    have e1: "(doe - doe div 1460 + doe div 36524 - doe div 146096) div 365 = yoe"
      by (simp add: yoe_def era_days_def)
    have e2: "doe - (365 * yoe + yoe div 4 - yoe div 100) = doy"
      by (simp add: doy_def era_year_start_def)
    have e3: "(5 * doy + 2) div 153 = mp" by (simp add: mp_def month_of_doy_def)
    have e4: "doy - (153 * mp + 2) div 5 + 1 = day_of_doy doy"
      by (simp add: mp_def day_of_doy_def)
    show ?thesis
      unfolding civil_from_days_def Let_def doe_def [symmetric] era_def [symmetric] e1 e2 e3 e4
      using m by auto
  qed
qed

lemma era_days_of_year:
  fixes era yoe :: int
  assumes "0 \<le> yoe" "yoe < 400"
  defines "y \<equiv> yoe + era * 400"
  shows "365 * y + y div 4 - y div 100 + y div 400 = era * 146097 + era_year_start yoe"
proof -
  have "y = yoe + (era * 100) * 4" "y = yoe + (era * 4) * 100" "y = yoe + era * 400"
    by (simp_all add: y_def)
  then have "y div 4 = era * 100 + yoe div 4" "y div 100 = era * 4 + yoe div 100"
    "y div 400 = era + yoe div 400"
    using div_mult_self1 [of 4 yoe "era * 100"] div_mult_self1 [of 100 yoe "era * 4"]
      div_mult_self1 [of 400 yoe era] by simp_all
  then show ?thesis
    using assms(1,2) by (simp add: era_year_start_def y_def div_pos_pos_trivial)
qed

lemma month_ok_cases:
  assumes "month_ok doy"
  defines "mp \<equiv> month_of_doy doy"
  defines "m \<equiv> (if mp < 10 then mp + 3 else mp - 9)"
  shows "1 \<le> m" "m \<le> 12" "(if 2 < m then m - 3 else m + 9) = mp" "m \<le> 2 \<longleftrightarrow> 10 \<le> mp"
    and "1 \<le> day_of_doy doy"
    and "(doy = 365 \<Longrightarrow> leap_year y) \<Longrightarrow> day_of_doy doy \<le> month_days y m"
  using assms by (auto simp: month_ok_def Let_def month_days_def split: if_splits)

lemma ymd_of_true_day:
  assumes "i64_range (ticks - FILETIME_UNIX_DELTA)"
  shows "ymd_from_filetime ticks =
     civil_from_days ((ticks - FILETIME_UNIX_DELTA) div 864000000000 div 100)"
proof -
  have "x div 86400000000000 = x div 864000000000 div 100" for x :: int
    using zdiv_zmult2_eq [of 100 x 864000000000] by simp
  then show ?thesis using assms by (simp add: ymd_from_filetime_def)
qed

section \<open>Properties\<close>

text \<open>The calendar algorithm of the object layout is right for every day, before and after
  1970: the date it returns is a date of the Gregorian calendar (month and day in range, leap
  years included), and counting the days to that date gives the day back.\<close>

lemma civil_from_days_correct:
  "case civil_from_days days of (y, m, d) \<Rightarrow>
     1 \<le> m \<and> m \<le> 12 \<and> 1 \<le> d \<and> d \<le> month_days y m \<and> days_from_civil (y, m, d) = days"
proof -
  define doe where "doe = (days + 719468) mod 146097"
  define era where "era = (days + 719468) div 146097"
  define yoe where "yoe = era_days doe div 365"
  define doy where "doy = doe - era_year_start yoe"
  note steps = civil_from_days_steps [of days, folded doe_def era_def, folded yoe_def, folded doy_def]
  define mp where "mp = month_of_doy doy"
  define M where "M = (if mp < 10 then mp + 3 else mp - 9)"
  define Y where "Y = (if mp < 10 then yoe + era * 400 else yoe + era * 400 + 1)"
  note m = month_ok_cases [OF month_of_year [OF steps(2,3)], folded mp_def, folded M_def]
  have civil: "civil_from_days days = (Y, M, day_of_doy doy)"
    using steps(1) by (simp add: Y_def M_def mp_def)
  have leap: "leap_year Y" if "doy = 365"
    using steps(4) that by (simp add: Y_def mp_def month_of_doy_def)
  have year: "(if M \<le> 2 then Y - 1 else Y) = yoe + era * 400"
    using m(4) by (simp add: Y_def)
  have "(153 * mp + 2) div 5 + day_of_doy doy - 1 = doy"
    by (simp add: day_of_doy_def mp_def)
  then have "days_from_civil (Y, M, day_of_doy doy) = days"
    using era_days_of_year [of yoe era] steps(5-7)
    by (simp add: days_from_civil_def Let_def year m(3))
  then show ?thesis
    using m(1,2,5) m(6) [of Y, OF leap] by (simp add: civil)
qed

text \<open>C19. The dates of the object layout: the date of a path is a date of the Gregorian calendar (month
  and day in range, leap years included), namely that of the day number divided by 100, for every
  instant before or after 1970. The calendar algorithm is right, but the ticks are divided by the
  ticks of 100 days, so all instants of a block of 100 days share one directory.\<close>

theorem ymd_advances_every_100_days:
  assumes "i64_range (ticks - FILETIME_UNIX_DELTA)"
  shows "case ymd_from_filetime ticks of (y, m, d) \<Rightarrow>
     1 \<le> m \<and> m \<le> 12 \<and> 1 \<le> d \<and> d \<le> month_days y m
     \<and> days_from_civil (y, m, d) = (ticks - FILETIME_UNIX_DELTA) div 864000000000 div 100"
  using civil_from_days_correct by (simp add: ymd_of_true_day [OF assms])

text \<open>The capture time of the mock client, in June 2022, is filed under July 1970.\<close>

theorem ymd_advances_every_100_days_witness:
  "ymd_from_filetime 133000000000000000 = (1970, 7, 11)
   \<and> days_from_civil (1970, 7, 11) = (133000000000000000 - FILETIME_UNIX_DELTA) div 864000000000 div 100
   \<and> civil_from_days ((133000000000000000 - FILETIME_UNIX_DELTA) div 864000000000) = (2022, 6, 18)"
proof -
  have h: "i64_range (133000000000000000 - FILETIME_UNIX_DELTA)"
    by (simp add: i64_range_def FILETIME_UNIX_DELTA_def)
  have c: "civil_from_days 191 = (1970, 7, 11)" "civil_from_days 19161 = (2022, 6, 18)"
    by code_simp+
  have y: "ymd_from_filetime 133000000000000000 = (1970, 7, 11)"
    unfolding ymd_of_true_day [OF h] by (simp add: FILETIME_UNIX_DELTA_def c(1))
  show ?thesis
    using ymd_advances_every_100_days [OF h] c(2) unfolding y by (simp add: FILETIME_UNIX_DELTA_def)
qed

text \<open>Dwell-time buckets: for every instant since 1970 the bucket is the hour the instant is
  in. Its start is a whole number of hours after 1970, not after the instant, and less than an
  hour before it; the hour of day and the day of week are in range.\<close>

lemma hour_bucket_correct:
  assumes "FILETIME_UNIX_DELTA \<le> ts" and "i64_range ts"
  shows "case hour_bucket ts of (hour, dow, start) \<Rightarrow>
     0 \<le> hour \<and> hour < 24 \<and> 0 \<le> dow \<and> dow < 7
     \<and> start \<le> ts \<and> ts < start + TICKS_PER_HOUR
     \<and> (start - FILETIME_UNIX_DELTA) mod TICKS_PER_HOUR = 0
     \<and> hour = (start - FILETIME_UNIX_DELTA) div TICKS_PER_HOUR mod 24"
proof -
  define u where "u = (ts - FILETIME_UNIX_DELTA) div TICKS_PER_SEC"
  define days where "days = u div 86400"
  define h where "h = u mod 86400 div 3600"
  have r: "i64_range (ts - FILETIME_UNIX_DELTA)" "0 \<le> ts - FILETIME_UNIX_DELTA"
    using assms by (simp_all add: i64_range_def FILETIME_UNIX_DELTA_def)
  have hb: "hour_bucket ts =
      (h, (days + 4) mod 7, FILETIME_UNIX_DELTA + (days * 24 + h) * TICKS_PER_HOUR)"
    using r by (simp add: hour_bucket_def Let_def trunc_div_nonneg TICKS_PER_SEC_def u_def days_def h_def)
  have h: "0 \<le> h" "h < 24" by (auto simp: h_def)
  have q: "u = days * 86400 + h * 3600 + u mod 3600"
  proof -
    have "u mod 86400 mod 3600 = u mod 3600" by (simp add: mod_mod_cancel)
    then have "u mod 86400 = 3600 * h + u mod 3600"
      using mult_div_mod_eq [of 3600 "u mod 86400"] by (simp add: h_def)
    moreover have "u = 86400 * days + u mod 86400" by (simp add: days_def)
    ultimately show ?thesis by linarith
  qed
  define r1 where "r1 = (ts - FILETIME_UNIX_DELTA) mod TICKS_PER_SEC"
  define r2 where "r2 = u mod 3600"
  have ts: "ts - FILETIME_UNIX_DELTA = u * 10000000 + r1"
    using div_mult_mod_eq [of "ts - FILETIME_UNIX_DELTA" TICKS_PER_SEC]
    by (simp add: u_def r1_def TICKS_PER_SEC_def)
  have r: "0 \<le> r1" "r1 < 10000000" "0 \<le> r2" "r2 \<le> 3599"
    using pos_mod_bound [of 3600 u] by (simp_all add: r1_def r2_def TICKS_PER_SEC_def)
  define start where "start = FILETIME_UNIX_DELTA + (days * 24 + h) * TICKS_PER_HOUR"
  have "start \<le> ts" "ts < start + TICKS_PER_HOUR"
    using ts r q [folded r2_def] by (simp_all add: start_def TICKS_PER_HOUR_def TICKS_PER_SEC_def)
  moreover have "(start - FILETIME_UNIX_DELTA) div TICKS_PER_HOUR = days * 24 + h"
    "(start - FILETIME_UNIX_DELTA) mod TICKS_PER_HOUR = 0"
    by (simp_all add: start_def TICKS_PER_HOUR_def TICKS_PER_SEC_def)
  ultimately show ?thesis
    using h by (simp add: hb flip: start_def)
qed

end
