(* ===== verification/Ukg_Tables.thy ===== *)
theory Ukg_Tables
  imports Proto_Records Hex_Crypto Filetime "HOL-Library.AList"
begin

text \<open>
  \<open>ukg.db\<close>: the tables of \<open>precall-store/src/schema.rs\<close> and the operations of
  \<open>precall-store/src/ukg.rs\<close> that write them. A table with an \<open>AUTOINCREMENT\<close> key is its
  rows in insertion order, each with its id, and the last id given out; a table keyed by
  columns of its own is an association list. A transaction that fails leaves the database as
  it was. The errors of the model are the refusals of SQLite the schema can cause (foreign
  keys, a query without rows); operations no constraint can refuse return the new state only.
  Faults of the disk are not modelled. An insertion that a unique index ignores does not use
  up an id.
\<close>

section \<open>Tables\<close>

datatype ukg_error =
    UkgSql string
  | UkgJson string

record 'r table =
  tbl_rows :: "(int \<times> 'r) list"
  tbl_seq :: int

definition tbl_empty :: "'r table" where
  "tbl_empty = \<lparr>tbl_rows = [], tbl_seq = 0\<rparr>"

definition tbl_insert :: "'r \<Rightarrow> 'r table \<Rightarrow> int \<times> 'r table" where
  "tbl_insert r t =
     (tbl_seq t + 1, \<lparr>tbl_rows = tbl_rows t @ [(tbl_seq t + 1, r)], tbl_seq = tbl_seq t + 1\<rparr>)"

definition tbl_id_where :: "('r \<Rightarrow> bool) \<Rightarrow> 'r table \<Rightarrow> int option" where
  "tbl_id_where P t = map_option fst (find (\<lambda>(i, r). P r) (tbl_rows t))"

definition tbl_get :: "int \<Rightarrow> 'r table \<Rightarrow> 'r option" where
  "tbl_get i t = map_of (tbl_rows t) i"

definition tbl_ids :: "'r table \<Rightarrow> int list" where
  "tbl_ids t = map fst (tbl_rows t)"

text \<open>\<open>INSERT OR IGNORE\<close> under a unique index on \<open>key\<close>, then the \<open>SELECT\<close> of the id.\<close>

definition tbl_insert_or_ignore :: "('r \<Rightarrow> 'k) \<Rightarrow> 'r \<Rightarrow> 'r table \<Rightarrow> 'r table" where
  "tbl_insert_or_ignore key r t =
     (if list_ex (\<lambda>(i, r'). key r' = key r) (tbl_rows t) then t else snd (tbl_insert r t))"

definition tbl_upsert :: "('r \<Rightarrow> 'k) \<Rightarrow> 'r \<Rightarrow> 'r table \<Rightarrow> ukg_error + int \<times> 'r table" where
  "tbl_upsert key r t =
     (let t' = tbl_insert_or_ignore key r t
      in case tbl_id_where (\<lambda>r'. key r' = key r) t' of
           None \<Rightarrow> Inl (UkgSql ''Query returned no rows'')
         | Some i \<Rightarrow> Inr (i, t'))"

definition rel_insert_or_ignore :: "'p \<Rightarrow> 'p list \<Rightarrow> 'p list" where
  "rel_insert_or_ignore p ps = (if p \<in> set ps then ps else ps @ [p])"

section \<open>The database (schema.rs)\<close>

record window_capture_row =
  wc_name :: "string option"
  wc_image_token :: "string option"
  wc_is_foreground :: int
  wc_window_id :: int
  wc_window_bounds :: "string option"
  wc_window_title :: "string option"
  wc_properties :: "string option"
  wc_timestamp :: int
  wc_is_processed :: int
  wc_activation_uri :: "string option"
  wc_activity_id :: "string option"
  wc_fallback_uri :: "string option"

record image_state_row =
  is_state :: string
  is_attempts :: int
  is_last_error :: "string option"
  is_updated_at :: int

record client_row =
  cl_hostname :: string
  cl_first_seen :: int
  cl_last_seen :: int

record dwell_row =
  dw_hour_of_day :: int
  dw_day_of_week :: int
  dw_dwell_time :: int

record fts_row =
  fts_name :: string
  fts_window_title :: string
  fts_ocr_text :: string

record ukg =
  uk_captures :: "window_capture_row table"
  uk_apps :: "app_record table"
  uk_app_rel :: "(int \<times> int) list"
  uk_files :: "file_record table"
  uk_file_rel :: "(int \<times> int) list"
  uk_webs :: "web_record table"
  uk_web_rel :: "(int \<times> int) list"
  uk_regions :: "(int \<times> screen_region_record) table"
  uk_topics :: "string table"
  uk_topic_rel :: "((int \<times> int) \<times> f64) list"
  uk_app_dwell :: "((string \<times> int) \<times> dwell_row) list"
  uk_web_dwell :: "((string \<times> int) \<times> dwell_row) list"
  uk_text_index :: "(int \<times> fts_row) list"
  uk_sync :: "int list"
  uk_config :: "(string \<times> string) list"
  uk_clients :: "(string \<times> client_row) list"
  uk_image_state :: "(int \<times> image_state_row) list"
  uk_attempts :: "(int \<times> int) list"

definition ukg_new :: ukg where
  "ukg_new =
     \<lparr>uk_captures = tbl_empty, uk_apps = tbl_empty, uk_app_rel = [], uk_files = tbl_empty,
      uk_file_rel = [], uk_webs = tbl_empty, uk_web_rel = [], uk_regions = tbl_empty,
      uk_topics = tbl_empty, uk_topic_rel = [], uk_app_dwell = [], uk_web_dwell = [],
      uk_text_index = [], uk_sync = [], uk_config = [], uk_clients = [], uk_image_state = [],
      uk_attempts = []\<rparr>"

section \<open>Ingestion (ukg.rs)\<close>

definition app_key :: "app_record \<Rightarrow> string \<times> string" where
  "app_key a = (app_name a, case app_path a of None \<Rightarrow> [] | Some p \<Rightarrow> p)"

definition upsert_app :: "app_record \<Rightarrow> app_record table \<Rightarrow> ukg_error + int \<times> app_record table" where
  "upsert_app a t = tbl_upsert app_key a t"

definition upsert_file :: "file_record \<Rightarrow> file_record table \<Rightarrow> ukg_error + int \<times> file_record table" where
  "upsert_file f t = tbl_upsert file_path f t"

definition upsert_web :: "web_record \<Rightarrow> web_record table \<Rightarrow> ukg_error + int \<times> web_record table" where
  "upsert_web w t = tbl_upsert web_uri w t"

fun try_fold :: "('a \<Rightarrow> 's \<Rightarrow> 'e + 's) \<Rightarrow> 'a list \<Rightarrow> 's \<Rightarrow> 'e + 's" where
  "try_fold f [] s = Inr s"
| "try_fold f (x # xs) s = rbind (f x s) (try_fold f xs)"

text \<open>One record of a capture: upsert the row, then \<open>INSERT OR IGNORE\<close> the relation.\<close>

definition link ::
  "('r \<Rightarrow> 'r table \<Rightarrow> ukg_error + int \<times> 'r table) \<Rightarrow> int \<Rightarrow> 'r \<Rightarrow> 'r table \<times> (int \<times> int) list
     \<Rightarrow> ukg_error + 'r table \<times> (int \<times> int) list" where
  "link upsert wc_id r s =
     rbind (upsert r (fst s)) (\<lambda>(i, t). Inr (t, rel_insert_or_ignore (wc_id, i) (snd s)))"

definition link_apps :: "int \<Rightarrow> app_record list \<Rightarrow> ukg \<Rightarrow> ukg_error + ukg" where
  "link_apps wc_id apps u =
     rbind (try_fold (link upsert_app wc_id) apps (uk_apps u, uk_app_rel u))
       (\<lambda>(t, rel). Inr (u\<lparr>uk_apps := t, uk_app_rel := rel\<rparr>))"

definition link_files :: "int \<Rightarrow> file_record list \<Rightarrow> ukg \<Rightarrow> ukg_error + ukg" where
  "link_files wc_id files u =
     rbind (try_fold (link upsert_file wc_id) files (uk_files u, uk_file_rel u))
       (\<lambda>(t, rel). Inr (u\<lparr>uk_files := t, uk_file_rel := rel\<rparr>))"

definition link_webs :: "int \<Rightarrow> web_record list \<Rightarrow> ukg \<Rightarrow> ukg_error + ukg" where
  "link_webs wc_id webs u =
     rbind (try_fold (link upsert_web wc_id) webs (uk_webs u, uk_web_rel u))
       (\<lambda>(t, rel). Inr (u\<lparr>uk_webs := t, uk_web_rel := rel\<rparr>))"

definition insert_region :: "int \<Rightarrow> screen_region_record \<Rightarrow> ukg \<Rightarrow> ukg" where
  "insert_region wc_id r u = u\<lparr>uk_regions := snd (tbl_insert (wc_id, r) (uk_regions u))\<rparr>"

definition all_ocr :: "screen_region_record list \<Rightarrow> string" where
  "all_ocr rs =
     concat (map (\<lambda>r. case sreg_ocr_text r of None \<Rightarrow> [] | Some t \<Rightarrow> t @ '' '') rs)"

definition capture_row_of :: "window_capture_record \<Rightarrow> window_capture_row" where
  "capture_row_of rec =
     \<lparr>wc_name = Some (wcr_name rec), wc_image_token = Some (wcr_image_token rec),
      wc_is_foreground = of_bool (wcr_is_foreground rec), wc_window_id = wcr_window_id rec,
      wc_window_bounds = Some (wcr_window_bounds rec),
      wc_window_title = Some (wcr_window_title rec), wc_properties = wcr_properties rec,
      wc_timestamp = timestamp_i64 rec, wc_is_processed = 0,
      wc_activation_uri = wcr_activation_uri rec, wc_activity_id = wcr_activity_id rec,
      wc_fallback_uri = wcr_fallback_uri rec\<rparr>"

definition find_capture_by_token :: "string \<Rightarrow> ukg \<Rightarrow> int option" where
  "find_capture_by_token token u =
     tbl_id_where (\<lambda>r. wc_image_token r = Some token) (uk_captures u)"

definition insert_capture :: "window_capture_record \<Rightarrow> ukg \<Rightarrow> (ukg_error + int) \<times> ukg" where
  "insert_capture rec u =
     (case find_capture_by_token (wcr_image_token rec) u of
        Some i \<Rightarrow> (Inr i, u)
      | None \<Rightarrow>
          let (wc_id, caps) = tbl_insert (capture_row_of rec) (uk_captures u)
          in case rbind (link_apps wc_id (wcr_apps rec) (u\<lparr>uk_captures := caps\<rparr>))
                   (\<lambda>u1. rbind (link_files wc_id (wcr_files rec) u1)
                   (\<lambda>u2. link_webs wc_id (wcr_webs rec) u2)) of
               Inl e \<Rightarrow> (Inl e, u)
             | Inr u3 \<Rightarrow>
                 let u4 = fold (insert_region wc_id) (wcr_regions rec) u3
                 in (Inr wc_id,
                     u4\<lparr>uk_text_index := uk_text_index u4 @
                          [(wc_id, \<lparr>fts_name = wcr_name rec, fts_window_title = wcr_window_title rec,
                                   fts_ocr_text = trim (all_ocr (wcr_regions rec))\<rparr>)]\<rparr>))"

definition touch_client :: "string \<Rightarrow> string \<Rightarrow> int \<Rightarrow> ukg \<Rightarrow> ukg" where
  "touch_client client_id hostname now u =
     u\<lparr>uk_clients := AList.update client_id
          (case map_of (uk_clients u) client_id of
             None \<Rightarrow> \<lparr>cl_hostname = hostname, cl_first_seen = now, cl_last_seen = now\<rparr>
           | Some c \<Rightarrow> c\<lparr>cl_hostname := hostname, cl_last_seen := now\<rparr>)
          (uk_clients u)\<rparr>"

definition fk_failed :: ukg_error where
  "fk_failed = UkgSql ''FOREIGN KEY constraint failed''"

definition capture_ids :: "ukg \<Rightarrow> int list" where
  "capture_ids u = tbl_ids (uk_captures u)"

definition attach_topic :: "int \<Rightarrow> string \<Rightarrow> f64 \<Rightarrow> ukg \<Rightarrow> (ukg_error + unit) \<times> ukg" where
  "attach_topic wc_id title score u =
     (case tbl_upsert (\<lambda>s. s) title (uk_topics u) of
        Inl e \<Rightarrow> (Inl e, u)
      | Inr (topic_id, t) \<Rightarrow>
          if wc_id \<in> set (capture_ids u)
          then (Inr (), u\<lparr>uk_topics := t,
                  uk_topic_rel := [p\<leftarrow>uk_topic_rel u. fst p \<noteq> (wc_id, topic_id)]
                                  @ [((wc_id, topic_id), score)]\<rparr>)
          else (Inl fk_failed, u))"

definition add_dwell ::
  "string \<Rightarrow> int \<Rightarrow> int \<Rightarrow> ((string \<times> int) \<times> dwell_row) list \<Rightarrow> ((string \<times> int) \<times> dwell_row) list" where
  "add_dwell name ts dwell_ms rows =
     (case hour_bucket ts of (hour, dow, bucket) \<Rightarrow>
        AList.update (name, bucket)
          (case map_of rows (name, bucket) of
             None \<Rightarrow> \<lparr>dw_hour_of_day = hour, dw_day_of_week = dow, dw_dwell_time = dwell_ms\<rparr>
           | Some r \<Rightarrow> r\<lparr>dw_dwell_time := dw_dwell_time r + dwell_ms\<rparr>)
          rows)"

definition add_app_dwell :: "string \<Rightarrow> int \<Rightarrow> int \<Rightarrow> ukg \<Rightarrow> ukg" where
  "add_app_dwell windows_app_id ts dwell_ms u =
     u\<lparr>uk_app_dwell := add_dwell windows_app_id ts dwell_ms (uk_app_dwell u)\<rparr>"

definition add_web_dwell :: "string \<Rightarrow> int \<Rightarrow> int \<Rightarrow> ukg \<Rightarrow> ukg" where
  "add_web_dwell domain ts dwell_ms u =
     u\<lparr>uk_web_dwell := add_dwell domain ts dwell_ms (uk_web_dwell u)\<rparr>"

definition tbl_map :: "(int \<Rightarrow> 'r \<Rightarrow> 'r) \<Rightarrow> 'r table \<Rightarrow> 'r table" where
  "tbl_map f t = t\<lparr>tbl_rows := map (\<lambda>(i, r). (i, f i r)) (tbl_rows t)\<rparr>"

definition mark_processed :: "int \<Rightarrow> ukg \<Rightarrow> ukg" where
  "mark_processed wc_id u =
     u\<lparr>uk_captures := tbl_map (\<lambda>i r. if i = wc_id then r\<lparr>wc_is_processed := 1\<rparr> else r) (uk_captures u)\<rparr>"

section \<open>Configuration, image-embedding state, purge\<close>

definition set_config :: "string \<Rightarrow> string \<Rightarrow> ukg \<Rightarrow> ukg" where
  "set_config key val u = u\<lparr>uk_config := AList.update key val (uk_config u)\<rparr>"

definition get_config :: "string \<Rightarrow> ukg \<Rightarrow> string option" where
  "get_config key u = map_of (uk_config u) key"

definition image_embedding_state :: "int \<Rightarrow> ukg \<Rightarrow> (string \<times> int \<times> string option) option" where
  "image_embedding_state wc_id u =
     map_option (\<lambda>r. (is_state r, is_attempts r, is_last_error r)) (map_of (uk_image_state u) wc_id)"

definition set_image_embedding_state ::
  "int \<Rightarrow> string \<Rightarrow> int \<Rightarrow> string option \<Rightarrow> int \<Rightarrow> ukg \<Rightarrow> (ukg_error + unit) \<times> ukg" where
  "set_image_embedding_state wc_id state attempts last_error now u =
     (if wc_id \<in> set (capture_ids u)
      then (Inr (), u\<lparr>uk_image_state := AList.update wc_id
              \<lparr>is_state = state, is_attempts = attempts, is_last_error = last_error,
               is_updated_at = now\<rparr> (uk_image_state u)\<rparr>)
      else (Inl fk_failed, u))"

definition reset_image_embedding_states :: "ukg \<Rightarrow> ukg" where
  "reset_image_embedding_states u = u\<lparr>uk_image_state := []\<rparr>"

definition mark_all_unprocessed :: "ukg \<Rightarrow> ukg" where
  "mark_all_unprocessed u =
     u\<lparr>uk_captures := tbl_map (\<lambda>i r. r\<lparr>wc_is_processed := 0\<rparr>) (uk_captures u)\<rparr>"

definition touch_enrich_attempt :: "int \<Rightarrow> int \<Rightarrow> ukg \<Rightarrow> (ukg_error + unit) \<times> ukg" where
  "touch_enrich_attempt wc_id now u =
     (if wc_id \<in> set (capture_ids u)
      then (Inr (), u\<lparr>uk_attempts := AList.update wc_id now (uk_attempts u)\<rparr>)
      else (Inl fk_failed, u))"

definition tbl_delete_all :: "'r table \<Rightarrow> 'r table" where
  "tbl_delete_all t = t\<lparr>tbl_rows := []\<rparr>"

definition purge_all :: "ukg \<Rightarrow> ukg" where
  "purge_all u =
     u\<lparr>uk_topic_rel := [], uk_app_rel := [], uk_file_rel := [], uk_web_rel := [],
       uk_regions := tbl_delete_all (uk_regions u), uk_text_index := [],
       uk_captures := tbl_delete_all (uk_captures u), uk_app_dwell := [], uk_web_dwell := [],
       uk_sync := [], uk_image_state := [], uk_attempts := []\<rparr>"

section \<open>Integrity\<close>

definition tbl_ok :: "'r table \<Rightarrow> bool" where
  "tbl_ok t \<longleftrightarrow> distinct (tbl_ids t) \<and> (\<forall>i \<in> set (tbl_ids t). 0 < i \<and> i \<le> tbl_seq t) \<and> 0 \<le> tbl_seq t"

definition tbl_unique :: "('r \<Rightarrow> 'k) \<Rightarrow> 'r table \<Rightarrow> bool" where
  "tbl_unique key t \<longleftrightarrow> distinct (map (\<lambda>(i, r). key r) (tbl_rows t))"

text \<open>A relation is sound when it has no duplicate and both foreign keys hold.\<close>

definition rel_ok :: "int list \<Rightarrow> int list \<Rightarrow> (int \<times> int) list \<Rightarrow> bool" where
  "rel_ok as bs ps \<longleftrightarrow> distinct ps \<and> (\<forall>(a, b) \<in> set ps. a \<in> set as \<and> b \<in> set bs)"

definition refs_ok :: "int list \<Rightarrow> (int \<times> 'v) list \<Rightarrow> bool" where
  "refs_ok as kvs \<longleftrightarrow> distinct (map fst kvs) \<and> set (map fst kvs) \<subseteq> set as"

definition links_ok :: "('r \<Rightarrow> 'k) \<Rightarrow> int list \<Rightarrow> 'r table \<times> (int \<times> int) list \<Rightarrow> bool" where
  "links_ok key ids s \<longleftrightarrow>
     tbl_ok (fst s) \<and> tbl_unique key (fst s) \<and> rel_ok ids (tbl_ids (fst s)) (snd s)"

definition regions_ok :: "int list \<Rightarrow> (int \<times> screen_region_record) table \<Rightarrow> bool" where
  "regions_ok ids t \<longleftrightarrow> tbl_ok t \<and> (\<forall>p \<in> set (tbl_rows t). fst (snd p) \<in> set ids)"

definition ukg_ok :: "ukg \<Rightarrow> bool" where
  "ukg_ok u \<longleftrightarrow>
     tbl_ok (uk_captures u) \<and> tbl_unique wc_image_token (uk_captures u)
     \<and> links_ok app_key (capture_ids u) (uk_apps u, uk_app_rel u)
     \<and> links_ok file_path (capture_ids u) (uk_files u, uk_file_rel u)
     \<and> links_ok web_uri (capture_ids u) (uk_webs u, uk_web_rel u)
     \<and> regions_ok (capture_ids u) (uk_regions u)
     \<and> links_ok (\<lambda>s. s) (capture_ids u) (uk_topics u, map fst (uk_topic_rel u))
     \<and> map fst (uk_text_index u) = capture_ids u
     \<and> refs_ok (capture_ids u) (uk_image_state u)
     \<and> refs_ok (capture_ids u) (uk_attempts u)"

end
