(* ===== verification/Ukg_Integrity.thy ===== *)
theory Ukg_Integrity
  imports Ukg_Tables
begin

text \<open>
  The write side of \<open>ukg.db\<close>: what the operations of \<open>Ukg_Tables\<close> promise. The tables and
  the links of a capture are treated once for all record types; the integrity of the whole
  database is an invariant of every sequence of operations.
\<close>

section \<open>Tables\<close>

lemma tbl_ids_insert: "tbl_ids (snd (tbl_insert r t)) = tbl_ids t @ [tbl_seq t + 1]"
  by (simp add: tbl_ids_def tbl_insert_def)

lemma tbl_ok_empty [simp]: "tbl_ok tbl_empty"
  by (simp add: tbl_ok_def tbl_empty_def tbl_ids_def)

lemma tbl_unique_empty [simp]: "tbl_unique key tbl_empty"
  by (simp add: tbl_unique_def tbl_empty_def)

lemma tbl_ids_empty [simp]: "tbl_ids tbl_empty = []"
  by (simp add: tbl_empty_def tbl_ids_def)

lemma tbl_new_id: "tbl_ok t \<Longrightarrow> tbl_seq t + 1 \<notin> set (tbl_ids t)"
  by (force simp: tbl_ok_def)

lemma tbl_ok_insert: "tbl_ok t \<Longrightarrow> tbl_ok (snd (tbl_insert r t))"
  using tbl_new_id [of t]
  by (auto simp: tbl_ok_def tbl_ids_insert) (auto simp: tbl_insert_def)

lemma tbl_unique_insert:
  assumes "tbl_unique key t" "\<not> list_ex (\<lambda>(i, r'). key r' = key r) (tbl_rows t)"
  shows "tbl_unique key (snd (tbl_insert r t))"
  using assms by (force simp: tbl_unique_def tbl_insert_def list_ex_iff)

lemma tbl_id_where_Some:
  "tbl_id_where P t = Some i \<Longrightarrow> \<exists>r. (i, r) \<in> set (tbl_rows t) \<and> P r"
  by (auto simp: tbl_id_where_def find_Some_iff) (metis nth_mem)

lemma tbl_id_where_None:
  "tbl_id_where P t = None \<longleftrightarrow> (\<forall>(i, r) \<in> set (tbl_rows t). \<not> P r)"
  by (auto simp: tbl_id_where_def find_None_iff)

lemma tbl_unique_row:
  "tbl_unique key t \<Longrightarrow> (i, r) \<in> set (tbl_rows t) \<Longrightarrow> (j, q) \<in> set (tbl_rows t) \<Longrightarrow> key r = key q
     \<Longrightarrow> (i, r) = (j, q)"
  by (auto simp: tbl_unique_def distinct_map inj_on_def)

lemma tbl_id_where_unique:
  assumes "tbl_unique key t" "(i, r) \<in> set (tbl_rows t)"
  shows "tbl_id_where (\<lambda>q. key q = key r) t = Some i"
proof (cases "tbl_id_where (\<lambda>q. key q = key r) t")
  case None
  then show ?thesis using assms(2) by (auto simp: tbl_id_where_None)
next
  case (Some j)
  then obtain q where "(j, q) \<in> set (tbl_rows t)" "key q = key r"
    using tbl_id_where_Some by fast
  then have "(j, q) = (i, r)" using tbl_unique_row [OF assms(1) _ assms(2)] by blast
  then show ?thesis using Some by simp
qed

lemma tbl_get_row: "tbl_ok t \<Longrightarrow> tbl_get i t = Some r \<longleftrightarrow> (i, r) \<in> set (tbl_rows t)"
  by (simp add: tbl_get_def tbl_ok_def tbl_ids_def map_of_eq_Some_iff)

lemma insert_or_ignore_cases:
  obtains "tbl_insert_or_ignore key r t = t" "list_ex (\<lambda>(i, r'). key r' = key r) (tbl_rows t)"
  | "tbl_insert_or_ignore key r t = snd (tbl_insert r t)"
    "\<not> list_ex (\<lambda>(i, r'). key r' = key r) (tbl_rows t)"
  by (auto simp: tbl_insert_or_ignore_def)

lemma insert_or_ignore_ok:
  "tbl_ok t \<Longrightarrow> tbl_ok (tbl_insert_or_ignore key r t)"
  "tbl_unique key t \<Longrightarrow> tbl_unique key (tbl_insert_or_ignore key r t)"
  by (cases rule: insert_or_ignore_cases [of key r t]; simp add: tbl_ok_insert tbl_unique_insert)+

lemma insert_or_ignore_extends: "\<exists>xs. tbl_rows (tbl_insert_or_ignore key r t) = tbl_rows t @ xs"
  by (cases rule: insert_or_ignore_cases [of key r t]) (auto simp: tbl_insert_def)

lemma insert_or_ignore_present: "\<exists>i r'. (i, r') \<in> set (tbl_rows (tbl_insert_or_ignore key r t)) \<and> key r' = key r"
  by (cases rule: insert_or_ignore_cases [of key r t]) (force simp: list_ex_iff tbl_insert_def)+

text \<open>An upsert never fails, keeps the table sound, only appends, and answers the id of a row
  with the key asked for.\<close>

lemma tbl_upsert_ok:
  assumes "tbl_ok t" "tbl_unique key t"
  obtains i t' xs r' where "tbl_upsert key r t = Inr (i, t')" "tbl_ok t'" "tbl_unique key t'"
    "tbl_rows t' = tbl_rows t @ xs" "(i, r') \<in> set (tbl_rows t')" "key r' = key r"
proof -
  let ?t = "tbl_insert_or_ignore key r t"
  obtain j q where q: "(j, q) \<in> set (tbl_rows ?t)" "key q = key r"
    using insert_or_ignore_present [of key r t] by blast
  have "tbl_id_where (\<lambda>r'. key r' = key r) ?t \<noteq> None"
    unfolding tbl_id_where_None using q by blast
  then obtain i where i: "tbl_id_where (\<lambda>r'. key r' = key r) ?t = Some i" by blast
  obtain r' where r': "(i, r') \<in> set (tbl_rows ?t)" "key r' = key r"
    using tbl_id_where_Some [OF i] by blast
  obtain xs where xs: "tbl_rows ?t = tbl_rows t @ xs"
    using insert_or_ignore_extends [of key r t] by blast
  show thesis
    using that [of i ?t xs r'] i r' xs insert_or_ignore_ok(1) [of t key r] insert_or_ignore_ok(2) [of key t r] assms by (simp add: tbl_upsert_def)
qed

section \<open>Links\<close>

definition linked :: "('r \<Rightarrow> 'k) \<Rightarrow> int \<Rightarrow> 'r \<Rightarrow> 'r table \<times> (int \<times> int) list \<Rightarrow> bool" where
  "linked key wc r s \<longleftrightarrow>
     (\<exists>i r'. (wc, i) \<in> set (snd s) \<and> (i, r') \<in> set (tbl_rows (fst s)) \<and> key r' = key r)"

text \<open>The part of a link table that other captures see.\<close>

definition extends_links :: "int \<Rightarrow> 'r table \<times> (int \<times> int) list \<Rightarrow> 'r table \<times> (int \<times> int) list \<Rightarrow> bool" where
  "extends_links wc s s' \<longleftrightarrow>
     (\<exists>xs. tbl_rows (fst s') = tbl_rows (fst s) @ xs)
     \<and> [p\<leftarrow>snd s'. fst p \<noteq> wc] = [p\<leftarrow>snd s. fst p \<noteq> wc] \<and> set (snd s) \<subseteq> set (snd s')"

lemma extends_links_refl: "extends_links wc s s"
  by (simp add: extends_links_def)

lemma extends_links_trans: "extends_links wc s t \<Longrightarrow> extends_links wc t v \<Longrightarrow> extends_links wc s v"
  by (auto simp: extends_links_def)

lemma extends_linked: "extends_links wc s s' \<Longrightarrow> linked key wc r s \<Longrightarrow> linked key wc r s'"
  by (fastforce simp: extends_links_def linked_def)

lemma link_step:
  assumes "links_ok key ids s" "wc \<in> set ids"
  obtains s' where "link (tbl_upsert key) wc r s = Inr s'" "links_ok key ids s'"
    "extends_links wc s s'" "linked key wc r s'"
proof -
  obtain t rel where s: "s = (t, rel)" by (cases s)
  then have ok: "tbl_ok t" "tbl_unique key t" "rel_ok ids (tbl_ids t) rel"
    using assms(1) by (simp_all add: links_ok_def)
  obtain i t' xs r' where u: "tbl_upsert key r t = Inr (i, t')" "tbl_ok t'" "tbl_unique key t'"
    "tbl_rows t' = tbl_rows t @ xs" "(i, r') \<in> set (tbl_rows t')" "key r' = key r"
    using tbl_upsert_ok [OF ok(1,2)] by metis
  have ids: "set (tbl_ids t) \<subseteq> set (tbl_ids t')" "i \<in> set (tbl_ids t')"
    using u(4,5) by (auto simp: tbl_ids_def rev_image_eqI)
  let ?s = "(t', rel_insert_or_ignore (wc, i) rel)"
  have "rel_ok ids (tbl_ids t') (rel_insert_or_ignore (wc, i) rel)"
    using ok(3) ids assms(2) by (auto simp: rel_ok_def rel_insert_or_ignore_def)
  moreover have "extends_links wc s ?s"
    using u(4) by (auto simp: extends_links_def s rel_insert_or_ignore_def)
  moreover have "linked key wc r ?s"
    using u(5,6) by (auto simp: linked_def rel_insert_or_ignore_def)
  ultimately show thesis
    using that [of ?s] u by (simp add: link_def s links_ok_def)
qed

lemma link_all:
  assumes "links_ok key ids s" "wc \<in> set ids"
  shows "\<exists>s'. try_fold (link (tbl_upsert key) wc) rs s = Inr s' \<and> links_ok key ids s'
      \<and> extends_links wc s s' \<and> (\<forall>r \<in> set rs. linked key wc r s')"
  using assms(1)
proof (induction rs arbitrary: s)
  case Nil
  then show ?case by (simp add: extends_links_refl)
next
  case (Cons r rs)
  obtain s1 where s1: "link (tbl_upsert key) wc r s = Inr s1" "links_ok key ids s1"
    "extends_links wc s s1" "linked key wc r s1"
    using link_step [OF Cons.prems assms(2)] by metis
  obtain s' where s': "try_fold (link (tbl_upsert key) wc) rs s1 = Inr s'" "links_ok key ids s'"
    "extends_links wc s1 s'" "\<forall>r \<in> set rs. linked key wc r s'"
    using Cons.IH [OF s1(2)] by blast
  have "linked key wc r s'" using extends_linked [OF s'(3) s1(4)] .
  then show ?case
    using s1 s' extends_links_trans [OF s1(3) s'(3)] by auto
qed

lemma upsert_funs: "upsert_app = tbl_upsert app_key" "upsert_file = tbl_upsert file_path"
    "upsert_web = tbl_upsert web_uri"
  by (simp_all add: fun_eq_iff upsert_app_def upsert_file_def upsert_web_def)

lemma links_ok_mono: "links_ok key ids s \<Longrightarrow> set ids \<subseteq> set ids' \<Longrightarrow> links_ok key ids' s"
  by (force simp: links_ok_def rel_ok_def)

lemma refs_ok_mono: "refs_ok ids kvs \<Longrightarrow> set ids \<subseteq> set ids' \<Longrightarrow> refs_ok ids' kvs"
  by (auto simp: refs_ok_def)

section \<open>Inserting a capture\<close>

lemma regions_fold:
  "regions_ok ids (uk_regions u) \<Longrightarrow> wc \<in> set ids \<Longrightarrow>
     \<exists>t. fold (insert_region wc) rs u = u\<lparr>uk_regions := t\<rparr> \<and> regions_ok ids t
       \<and> [p\<leftarrow>tbl_rows t. fst (snd p) \<noteq> wc] = [p\<leftarrow>tbl_rows (uk_regions u). fst (snd p) \<noteq> wc]
       \<and> map (snd \<circ> snd) [p\<leftarrow>tbl_rows t. fst (snd p) = wc]
           = map (snd \<circ> snd) [p\<leftarrow>tbl_rows (uk_regions u). fst (snd p) = wc] @ rs"
proof (induction rs arbitrary: u)
  case Nil
  then show ?case by (intro exI [of _ "uk_regions u"]) simp
next
  case (Cons r rs)
  have "regions_ok ids (uk_regions (insert_region wc r u))"
    using Cons.prems tbl_ok_insert [of "uk_regions u"]
    by (auto simp: regions_ok_def insert_region_def tbl_insert_def)
  from Cons.IH [OF this Cons.prems(2)] show ?case
    by (auto simp: insert_region_def tbl_insert_def)
qed

lemma find_capture_None:
  "find_capture_by_token t u = None \<longleftrightarrow> Some t \<notin> (wc_image_token \<circ> snd) ` set (tbl_rows (uk_captures u))"
  by (force simp: find_capture_by_token_def tbl_id_where_None)

lemma find_capture_Some:
  assumes "ukg_ok u"
  shows "find_capture_by_token t u = Some i \<longleftrightarrow>
     (\<exists>r. tbl_get i (uk_captures u) = Some r \<and> wc_image_token r = Some t)"
proof -
  have ok: "tbl_ok (uk_captures u)" "tbl_unique wc_image_token (uk_captures u)"
    using assms by (simp_all add: ukg_ok_def)
  show ?thesis
    unfolding find_capture_by_token_def tbl_get_row [OF ok(1)]
    using tbl_id_where_Some [of "\<lambda>r. wc_image_token r = Some t" "uk_captures u" i]
      tbl_id_where_unique [OF ok(2), of i]
    by fastforce
qed

definition index_row_of :: "window_capture_record \<Rightarrow> fts_row" where
  "index_row_of rec =
     \<lparr>fts_name = wcr_name rec, fts_window_title = wcr_window_title rec,
      fts_ocr_text = trim (all_ocr (wcr_regions rec))\<rparr>"

lemma ukg_ok_captures:
  "ukg_ok u \<Longrightarrow> tbl_ok (uk_captures u)" "ukg_ok u \<Longrightarrow> tbl_unique wc_image_token (uk_captures u)"
  by (simp_all add: ukg_ok_def)

text \<open>The capture's links, regions and index row after the insertion.\<close>

definition capture_stored :: "window_capture_record \<Rightarrow> int \<Rightarrow> ukg \<Rightarrow> bool" where
  "capture_stored rec wc u \<longleftrightarrow>
     tbl_get wc (uk_captures u) = Some (capture_row_of rec)
     \<and> (\<forall>a \<in> set (wcr_apps rec). linked app_key wc a (uk_apps u, uk_app_rel u))
     \<and> (\<forall>f \<in> set (wcr_files rec). linked file_path wc f (uk_files u, uk_file_rel u))
     \<and> (\<forall>w \<in> set (wcr_webs rec). linked web_uri wc w (uk_webs u, uk_web_rel u))
     \<and> map (snd \<circ> snd) [p\<leftarrow>tbl_rows (uk_regions u). fst (snd p) = wc] = wcr_regions rec
     \<and> map_of (uk_text_index u) wc = Some (index_row_of rec)"

text \<open>What everything but the links of capture \<open>wc\<close> sees of a change.\<close>

definition others_unchanged :: "int \<Rightarrow> ukg \<Rightarrow> ukg \<Rightarrow> bool" where
  "others_unchanged wc u u' \<longleftrightarrow>
     extends_links wc (uk_apps u, uk_app_rel u) (uk_apps u', uk_app_rel u')
     \<and> extends_links wc (uk_files u, uk_file_rel u) (uk_files u', uk_file_rel u')
     \<and> extends_links wc (uk_webs u, uk_web_rel u) (uk_webs u', uk_web_rel u')
     \<and> [p\<leftarrow>tbl_rows (uk_regions u'). fst (snd p) \<noteq> wc] = [p\<leftarrow>tbl_rows (uk_regions u). fst (snd p) \<noteq> wc]
     \<and> uk_topics u' = uk_topics u \<and> uk_topic_rel u' = uk_topic_rel u
     \<and> uk_app_dwell u' = uk_app_dwell u \<and> uk_web_dwell u' = uk_web_dwell u
     \<and> uk_config u' = uk_config u \<and> uk_clients u' = uk_clients u
     \<and> uk_image_state u' = uk_image_state u \<and> uk_attempts u' = uk_attempts u"

text \<open>The parts of an insertion: the capture's row, the links of one kind, and the whole.\<close>

lemma capture_row_added:
  assumes "ukg_ok u" "find_capture_by_token (wcr_image_token rec) u = None"
  defines "caps \<equiv> snd (tbl_insert (capture_row_of rec) (uk_captures u))"
    and "wc \<equiv> tbl_seq (uk_captures u) + 1"
  shows "tbl_ok caps" "tbl_unique wc_image_token caps" "wc \<in> set (tbl_ids caps)"
    "set (capture_ids u) \<subseteq> set (tbl_ids caps)" "wc \<notin> set (capture_ids u)"
    "tbl_ids caps = capture_ids u @ [wc]" "tbl_get wc caps = Some (capture_row_of rec)"
proof -
  have "\<not> list_ex (\<lambda>(i, r'). wc_image_token r' = wc_image_token (capture_row_of rec)) (tbl_rows (uk_captures u))"
    using assms(2) by (force simp: find_capture_None list_ex_iff capture_row_of_def)
  then show caps: "tbl_ok caps" "tbl_unique wc_image_token caps"
    using ukg_ok_captures [OF assms(1)] by (simp_all add: caps_def tbl_ok_insert tbl_unique_insert)
  show "wc \<in> set (tbl_ids caps)" "set (capture_ids u) \<subseteq> set (tbl_ids caps)"
    "tbl_ids caps = capture_ids u @ [wc]"
    by (auto simp: tbl_ids_insert capture_ids_def caps_def wc_def)
  show "wc \<notin> set (capture_ids u)"
    using ukg_ok_captures(1) [OF assms(1)] tbl_new_id [of "uk_captures u"] by (simp add: capture_ids_def wc_def)
  show "tbl_get wc caps = Some (capture_row_of rec)"
    using caps(1) by (simp add: tbl_get_row) (simp add: caps_def wc_def tbl_insert_def)
qed

lemma link_records:
  assumes "links_ok key ids (t, rel)" "set ids \<subseteq> set ids'" "wc \<in> set ids'"
  obtains t' rel' where "try_fold (link (tbl_upsert key) wc) rs (t, rel) = Inr (t', rel')"
    "links_ok key ids' (t', rel')" "extends_links wc (t, rel) (t', rel')"
    "\<forall>r \<in> set rs. linked key wc r (t', rel')"
  using link_all [OF links_ok_mono [OF assms(1,2)] assms(3), of rs] by (metis surj_pair)

lemma inserted_ok:
  assumes "ukg_ok u" "tbl_ok caps" "tbl_unique wc_image_token caps" "set (capture_ids u) \<subseteq> set (tbl_ids caps)"
    and "links_ok app_key (tbl_ids caps) (apt, apr)" "links_ok file_path (tbl_ids caps) (ft, fr)"
    and "links_ok web_uri (tbl_ids caps) (wt, wr)" "regions_ok (tbl_ids caps) rt" "map fst idx = tbl_ids caps"
  shows "ukg_ok (u\<lparr>uk_captures := caps, uk_apps := apt, uk_app_rel := apr, uk_files := ft, uk_file_rel := fr,
      uk_webs := wt, uk_web_rel := wr, uk_regions := rt, uk_text_index := idx\<rparr>)"
proof -
  note u = assms(1) [unfolded ukg_ok_def]
  have "links_ok (\<lambda>s. s) (tbl_ids caps) (uk_topics u, map fst (uk_topic_rel u))"
    using u assms(4) links_ok_mono by blast
  moreover have "refs_ok (tbl_ids caps) (uk_image_state u)" "refs_ok (tbl_ids caps) (uk_attempts u)"
    using u assms(4) refs_ok_mono by blast+
  ultimately show ?thesis
    using assms by (simp add: ukg_ok_def capture_ids_def)
qed

lemma ukg_links:
  assumes "ukg_ok u" "set (capture_ids u) \<subseteq> set ids" "wc \<in> set ids"
  obtains apt apr ft fr wt wr
  where "try_fold (link upsert_app wc) apps (uk_apps u, uk_app_rel u) = Inr (apt, apr)"
    "links_ok app_key ids (apt, apr)" "extends_links wc (uk_apps u, uk_app_rel u) (apt, apr)"
    "\<forall>r \<in> set apps. linked app_key wc r (apt, apr)"
    "try_fold (link upsert_file wc) files (uk_files u, uk_file_rel u) = Inr (ft, fr)"
    "links_ok file_path ids (ft, fr)" "extends_links wc (uk_files u, uk_file_rel u) (ft, fr)"
    "\<forall>r \<in> set files. linked file_path wc r (ft, fr)"
    "try_fold (link upsert_web wc) webs (uk_webs u, uk_web_rel u) = Inr (wt, wr)"
    "links_ok web_uri ids (wt, wr)" "extends_links wc (uk_webs u, uk_web_rel u) (wt, wr)"
    "\<forall>r \<in> set webs. linked web_uri wc r (wt, wr)"
proof -
  have links: "links_ok app_key (capture_ids u) (uk_apps u, uk_app_rel u)"
    "links_ok file_path (capture_ids u) (uk_files u, uk_file_rel u)"
    "links_ok web_uri (capture_ids u) (uk_webs u, uk_web_rel u)"
    using assms(1) unfolding ukg_ok_def by blast+
  note each = link_records [OF links(1) assms(2,3), of apps] link_records [OF links(2) assms(2,3), of files]
    link_records [OF links(3) assms(2,3), of webs]
  show thesis unfolding upsert_funs
    by (rule each(1), rule each(2), rule each(3)) (rule that [unfolded upsert_funs])
qed

lemma insert_capture_fresh:
  assumes ok: "ukg_ok u" and fresh: "find_capture_by_token (wcr_image_token rec) u = None"
  obtains u' where "insert_capture rec u = (Inr (tbl_seq (uk_captures u) + 1), u')" "ukg_ok u'"
    "uk_captures u' = snd (tbl_insert (capture_row_of rec) (uk_captures u))"
    "capture_stored rec (tbl_seq (uk_captures u) + 1) u'"
    "others_unchanged (tbl_seq (uk_captures u) + 1) u u'"
proof -
  let ?wc = "tbl_seq (uk_captures u) + 1"
  let ?caps = "snd (tbl_insert (capture_row_of rec) (uk_captures u))"
  let ?ids = "tbl_ids ?caps"
  note okd = ok [unfolded ukg_ok_def]
  note caps = capture_row_added [OF ok fresh]
  obtain apt apr ft fr wt wr where
    a: "try_fold (link upsert_app ?wc) (wcr_apps rec) (uk_apps u, uk_app_rel u) = Inr (apt, apr)"
    "links_ok app_key ?ids (apt, apr)" "extends_links ?wc (uk_apps u, uk_app_rel u) (apt, apr)"
    "\<forall>r \<in> set (wcr_apps rec). linked app_key ?wc r (apt, apr)" and
    f: "try_fold (link upsert_file ?wc) (wcr_files rec) (uk_files u, uk_file_rel u) = Inr (ft, fr)"
    "links_ok file_path ?ids (ft, fr)" "extends_links ?wc (uk_files u, uk_file_rel u) (ft, fr)"
    "\<forall>r \<in> set (wcr_files rec). linked file_path ?wc r (ft, fr)" and
    w: "try_fold (link upsert_web ?wc) (wcr_webs rec) (uk_webs u, uk_web_rel u) = Inr (wt, wr)"
    "links_ok web_uri ?ids (wt, wr)" "extends_links ?wc (uk_webs u, uk_web_rel u) (wt, wr)"
    "\<forall>r \<in> set (wcr_webs rec). linked web_uri ?wc r (wt, wr)"
    by (rule ukg_links [OF ok caps(4,3)])
  let ?u3 = "u\<lparr>uk_captures := ?caps, uk_apps := apt, uk_app_rel := apr, uk_files := ft,
      uk_file_rel := fr, uk_webs := wt, uk_web_rel := wr\<rparr>"
  have "regions_ok ?ids (uk_regions ?u3)" using okd caps(4) by (auto simp: regions_ok_def)
  from regions_fold [OF this caps(3), of "wcr_regions rec"] obtain rt where
    r: "fold (insert_region ?wc) (wcr_regions rec) ?u3 = ?u3\<lparr>uk_regions := rt\<rparr>" "regions_ok ?ids rt"
    "[p\<leftarrow>tbl_rows rt. fst (snd p) \<noteq> ?wc] = [p\<leftarrow>tbl_rows (uk_regions u). fst (snd p) \<noteq> ?wc]"
    "map (snd \<circ> snd) [p\<leftarrow>tbl_rows rt. fst (snd p) = ?wc]
       = map (snd \<circ> snd) [p\<leftarrow>tbl_rows (uk_regions u). fst (snd p) = ?wc] @ wcr_regions rec"
    by auto
  let ?idx = "uk_text_index u @ [(?wc, index_row_of rec)]"
  let ?u' = "?u3\<lparr>uk_regions := rt, uk_text_index := ?idx\<rparr>"
  have ins: "insert_capture rec u = (Inr ?wc, ?u')"
    using fresh
    by (simp add: insert_capture_def tbl_insert_def link_apps_def link_files_def link_webs_def
        index_row_of_def a(1) f(1) w(1))
      (simp add: r(1) [unfolded tbl_insert_def snd_conv])
  have "map fst ?idx = ?ids" using okd by (simp add: caps(6))
  then have good: "ukg_ok ?u'" by (rule inserted_ok [OF ok caps(1,2,4) a(2) f(2) w(2) r(2)])
  have "[p\<leftarrow>tbl_rows (uk_regions u). fst (snd p) = ?wc] = []" "map_of (uk_text_index u) ?wc = None"
    using okd caps(5) by (auto simp: regions_ok_def filter_empty_conv map_of_eq_None_iff simp flip: set_map)
  then have "capture_stored rec ?wc ?u'"
    using a(4) f(4) w(4) r(4) caps(7)
    by (simp add: capture_stored_def map_add_Some_iff map_of_append)
  moreover have "others_unchanged ?wc u ?u'"
    using a(3) f(3) w(3) r(3) by (simp add: others_unchanged_def)
  ultimately show thesis using that [of ?u'] ins good by simp
qed

lemma insert_capture_known:
  "find_capture_by_token (wcr_image_token rec) u = Some i \<Longrightarrow> insert_capture rec u = (Inr i, u)"
  by (simp add: insert_capture_def)

lemma insert_capture_ok:
  assumes "ukg_ok u" "insert_capture rec u = (r, u')"
  shows "ukg_ok u'"
proof (cases "find_capture_by_token (wcr_image_token rec) u")
  case None
  show ?thesis
    by (rule insert_capture_fresh [OF assms(1) None]) (use assms(2) in simp)
next
  case (Some i)
  then show ?thesis using assms insert_capture_known by simp
qed

lemma capture_stored_found:
  assumes "ukg_ok u" "capture_stored rec i u"
  shows "find_capture_by_token (wcr_image_token rec) u = Some i"
  using assms(2) unfolding find_capture_Some [OF assms(1)]
  by (simp add: capture_stored_def capture_row_of_def)

section \<open>The other operations\<close>

lemma tbl_ids_map [simp]: "tbl_ids (tbl_map f t) = tbl_ids t"
  by (auto simp: tbl_ids_def tbl_map_def)

lemma tbl_ok_map: "tbl_ok t \<Longrightarrow> tbl_ok (tbl_map f t)"
  using tbl_ids_map [of f t] by (simp add: tbl_ok_def) (simp add: tbl_map_def)

lemma tbl_unique_map:
  assumes "tbl_unique key t" "\<And>i r. key (f i r) = key r"
  shows "tbl_unique key (tbl_map f t)"
proof -
  have "map (\<lambda>(i, r). key r) (tbl_rows (tbl_map f t)) = map (\<lambda>(i, r). key r) (tbl_rows t)"
    by (auto simp: tbl_map_def assms(2))
  then show ?thesis using assms(1) by (simp add: tbl_unique_def)
qed

lemma refs_ok_update: "refs_ok ids kvs \<Longrightarrow> i \<in> set ids \<Longrightarrow> refs_ok ids (AList.update i v kvs)"
  by (auto simp: refs_ok_def distinct_update dom_update)

lemma rel_ok_replace:
  "rel_ok as bs ps \<Longrightarrow> a \<in> set as \<Longrightarrow> b \<in> set bs \<Longrightarrow> rel_ok as bs ([p\<leftarrow>ps. p \<noteq> (a, b)] @ [(a, b)])"
  by (auto simp: rel_ok_def)

lemma rel_ok_mono: "rel_ok as bs ps \<Longrightarrow> set bs \<subseteq> set bs' \<Longrightarrow> rel_ok as bs' ps"
  by (force simp: rel_ok_def)

lemma attach_topic_ok:
  assumes "ukg_ok u" "attach_topic wc title score u = (r, u')"
  shows "ukg_ok u'"
proof -
  have t: "tbl_ok (uk_topics u)" "tbl_unique (\<lambda>s. s) (uk_topics u)"
    "rel_ok (capture_ids u) (tbl_ids (uk_topics u)) (map fst (uk_topic_rel u))"
    using assms(1) by (simp_all add: ukg_ok_def links_ok_def)
  obtain i t' xs r' where up: "tbl_upsert (\<lambda>s. s) title (uk_topics u) = Inr (i, t')" "tbl_ok t'"
    "tbl_unique (\<lambda>s. s) t'" "tbl_rows t' = tbl_rows (uk_topics u) @ xs" "(i, r') \<in> set (tbl_rows t')"
    using tbl_upsert_ok [OF t(1,2)] by metis
  show ?thesis
  proof (cases "wc \<in> set (capture_ids u)")
    case False
    then show ?thesis using assms up(1) by (simp add: attach_topic_def)
  next
    case True
    have ids: "set (tbl_ids (uk_topics u)) \<subseteq> set (tbl_ids t')" "i \<in> set (tbl_ids t')"
      using up(4,5) by (auto simp: tbl_ids_def rev_image_eqI)
    have "map fst ([p\<leftarrow>uk_topic_rel u. fst p \<noteq> (wc, i)] @ [((wc, i), score)])
        = [p\<leftarrow>map fst (uk_topic_rel u). p \<noteq> (wc, i)] @ [(wc, i)]"
      by (simp add: filter_map o_def)
    then have "rel_ok (capture_ids u) (tbl_ids t')
        (map fst ([p\<leftarrow>uk_topic_rel u. fst p \<noteq> (wc, i)] @ [((wc, i), score)]))"
      using rel_ok_replace [OF rel_ok_mono [OF t(3) ids(1)] True ids(2)] by simp
    then show ?thesis
      using assms True up by (auto simp: attach_topic_def ukg_ok_def links_ok_def capture_ids_def)
  qed
qed

text \<open>One operation on the database.\<close>

inductive ukg_step :: "ukg \<Rightarrow> ukg \<Rightarrow> bool" where
  ingest: "insert_capture rec u = (r, u') \<Longrightarrow> ukg_step u u'"
| client: "ukg_step u (touch_client cid host now u)"
| topic: "attach_topic wc title score u = (r', u') \<Longrightarrow> ukg_step u u'"
| app_dwell_time: "ukg_step u (add_app_dwell name ts ms u)"
| web_dwell_time: "ukg_step u (add_web_dwell domain ts ms u)"
| processed: "ukg_step u (mark_processed wc u)"
| config: "ukg_step u (set_config k v u)"
| image_state: "set_image_embedding_state wc st att err now u = (r', u') \<Longrightarrow> ukg_step u u'"
| reset: "ukg_step u (reset_image_embedding_states u)"
| requeue: "ukg_step u (mark_all_unprocessed u)"
| attempt: "touch_enrich_attempt wc now u = (r', u') \<Longrightarrow> ukg_step u u'"
| purge: "ukg_step u (purge_all u)"

inductive_cases ukg_stepE: "ukg_step u u'"

lemma ukg_ok_new: "ukg_ok ukg_new"
  by (simp add: ukg_ok_def ukg_new_def links_ok_def rel_ok_def regions_ok_def refs_ok_def
      capture_ids_def)
    (simp add: tbl_empty_def)

lemma mark_ok:
  assumes "ukg_ok u" "\<And>i r. wc_image_token (f i r) = wc_image_token r"
  shows "ukg_ok (u\<lparr>uk_captures := tbl_map f (uk_captures u)\<rparr>)"
  using assms(1) tbl_ok_map [of "uk_captures u" f] tbl_unique_map [of wc_image_token _ f, OF _ assms(2)]
  by (simp add: ukg_ok_def capture_ids_def)

lemma purge_all_ok: "ukg_ok u \<Longrightarrow> ukg_ok (purge_all u)"
  by (simp add: ukg_ok_def purge_all_def tbl_delete_all_def links_ok_def rel_ok_def regions_ok_def
      refs_ok_def capture_ids_def tbl_ids_def tbl_ok_def tbl_unique_def)

lemma ukg_step_ok: "ukg_ok u \<Longrightarrow> ukg_step u u' \<Longrightarrow> ukg_ok u'"
proof (erule ukg_stepE)
  fix rec r
  assume "ukg_ok u" "insert_capture rec u = (r, u')"
  then show "ukg_ok u'" by (rule insert_capture_ok)
next
  fix wc title score r'
  assume "ukg_ok u" "attach_topic wc title score u = (r', u')"
  then show "ukg_ok u'" by (rule attach_topic_ok)
next
  fix wc st att err now r'
  assume "ukg_ok u" "set_image_embedding_state wc st att err now u = (r', u')"
  then show "ukg_ok u'"
    by (auto simp: set_image_embedding_state_def ukg_ok_def capture_ids_def refs_ok_update
        split: if_splits)
next
  fix wc now r'
  assume "ukg_ok u" "touch_enrich_attempt wc now u = (r', u')"
  then show "ukg_ok u'"
    by (auto simp: touch_enrich_attempt_def ukg_ok_def capture_ids_def refs_ok_update
        split: if_splits)
next
  fix wc
  assume "ukg_ok u" "u' = mark_processed wc u"
  then show "ukg_ok u'" unfolding mark_processed_def by (simp add: mark_ok)
next
  assume "ukg_ok u" "u' = mark_all_unprocessed u"
  then show "ukg_ok u'" unfolding mark_all_unprocessed_def by (simp add: mark_ok)
next
  assume "ukg_ok u" "u' = purge_all u"
  then show "ukg_ok u'" by (simp add: purge_all_ok)
qed (simp_all add: ukg_ok_def touch_client_def add_app_dwell_def add_web_dwell_def set_config_def
    reset_image_embedding_states_def capture_ids_def refs_ok_def)

interpretation ukg_machine: state_machine "\<lambda>u. u = ukg_new" ukg_step ukg_ok
  by unfold_locales (auto simp: ukg_ok_new ukg_step_ok)

section \<open>Dwell time\<close>

definition dwell_in :: "string \<Rightarrow> int \<Rightarrow> ((string \<times> int) \<times> dwell_row) list \<Rightarrow> int" where
  "dwell_in name bucket rows =
     (case map_of rows (name, bucket) of None \<Rightarrow> 0 | Some r \<Rightarrow> dw_dwell_time r)"

lemma dwell_in_add:
  "dwell_in n b (add_dwell name ts ms rows)
     = dwell_in n b rows + (if n = name \<and> b = snd (snd (hour_bucket ts)) then ms else 0)"
  by (auto simp: dwell_in_def add_dwell_def update_conv' split: prod.splits option.splits)

lemma dwell_in_fold:
  "dwell_in n b (fold (\<lambda>(name, ts, ms). add_dwell name ts ms) xs rows)
     = dwell_in n b rows
       + sum_list [ms. (name, ts, ms) \<leftarrow> xs, name = n \<and> snd (snd (hour_bucket ts)) = b]"
  by (induction xs arbitrary: rows) (auto simp: dwell_in_add split: prod.splits)

section \<open>An example database\<close>

definition example_capture :: window_capture_record where
  "example_capture =
     \<lparr>wcr_name = ''n'', wcr_image_token = ''t'', wcr_is_foreground = True,
      wcr_window_id = 1, wcr_window_bounds = '''', wcr_window_title = ''w'', wcr_properties = None,
      wcr_timestamp_100ns = 7, wcr_activation_uri = None, wcr_activity_id = None,
      wcr_fallback_uri = None, wcr_apps = [], wcr_files = [], wcr_webs = [], wcr_regions = []\<rparr>"

definition example_ukg :: ukg where
  "example_ukg = snd (insert_capture example_capture ukg_new)"

lemma example_token_new: "find_capture_by_token t ukg_new = None"
  by (simp add: find_capture_None ukg_new_def tbl_empty_def)

lemma example_ukg_ok: "ukg_ok example_ukg"
  unfolding example_ukg_def using insert_capture_ok [OF ukg_ok_new] by (metis prod.collapse)

lemma example_ukg_rows: "tbl_rows (uk_captures example_ukg) = [(1, capture_row_of example_capture)]"
proof (rule insert_capture_fresh [OF ukg_ok_new example_token_new [of "wcr_image_token example_capture"]])
  fix u'
  assume "insert_capture example_capture ukg_new = (Inr (tbl_seq (uk_captures ukg_new) + 1), u')"
    "uk_captures u' = snd (tbl_insert (capture_row_of example_capture) (uk_captures ukg_new))"
  then show ?thesis
    by (simp add: example_ukg_def tbl_insert_def) (simp add: ukg_new_def tbl_empty_def)
qed

lemma example_ukg_get: "tbl_get i (uk_captures example_ukg) = (if i = 1 then Some (capture_row_of example_capture) else None)"
  by (simp add: tbl_get_def example_ukg_rows)

lemma example_attempts: "uk_attempts example_ukg = []" "uk_image_state example_ukg = []"
proof -
  have "uk_attempts example_ukg = [] \<and> uk_image_state example_ukg = []"
  proof (rule insert_capture_fresh [OF ukg_ok_new example_token_new [of "wcr_image_token example_capture"]])
    fix u'
    assume "insert_capture example_capture ukg_new = (Inr (tbl_seq (uk_captures ukg_new) + 1), u')"
      "others_unchanged (tbl_seq (uk_captures ukg_new) + 1) ukg_new u'"
    then show ?thesis by (simp add: example_ukg_def others_unchanged_def) (simp add: ukg_new_def)
  qed
  then show "uk_attempts example_ukg = []" "uk_image_state example_ukg = []" by simp_all
qed

section \<open>Sequences of insertions\<close>

definition insert_all :: "window_capture_record list \<Rightarrow> ukg \<Rightarrow> ukg" where
  "insert_all recs u = fold (\<lambda>rec u. snd (insert_capture rec u)) recs u"

definition later_captures :: "ukg \<Rightarrow> ukg \<Rightarrow> bool" where
  "later_captures u u' \<longleftrightarrow>
     ukg_ok u' \<and> uk_attempts u' = uk_attempts u \<and> uk_image_state u' = uk_image_state u
     \<and> (\<exists>new. tbl_rows (uk_captures u') = tbl_rows (uk_captures u) @ new
          \<and> (\<forall>p \<in> set new. \<forall>j \<in> set (capture_ids u). j < fst p))"

lemma later_refl: "ukg_ok u \<Longrightarrow> later_captures u u"
  by (simp add: later_captures_def)

lemma later_trans: "later_captures u v \<Longrightarrow> later_captures v x \<Longrightarrow> later_captures u x"
  by (fastforce simp: later_captures_def capture_ids_def tbl_ids_def)

lemma later_insert:
  assumes "ukg_ok u"
  shows "later_captures u (snd (insert_capture rec u))"
proof (cases "find_capture_by_token (wcr_image_token rec) u")
  case (Some i)
  then show ?thesis using insert_capture_known later_refl [OF assms] by simp
next
  case None
  have seq: "\<forall>j \<in> set (capture_ids u). j < tbl_seq (uk_captures u) + 1"
    using ukg_ok_captures(1) [OF assms] by (auto simp: tbl_ok_def capture_ids_def)
  show ?thesis
    by (rule insert_capture_fresh [OF assms None])
      (use seq in \<open>auto simp: later_captures_def others_unchanged_def tbl_insert_def\<close>)
qed

lemma later_insert_all: "ukg_ok u \<Longrightarrow> later_captures u (insert_all recs u)"
proof (induction recs arbitrary: u)
  case Nil
  then show ?case by (simp add: insert_all_def later_refl)
next
  case (Cons r recs)
  have 1: "later_captures u (snd (insert_capture r u))" by (rule later_insert [OF Cons.prems])
  then have "later_captures (snd (insert_capture r u)) (insert_all recs (snd (insert_capture r u)))"
    by (intro Cons.IH) (simp add: later_captures_def)
  then show ?case using later_trans [OF 1] by (simp add: insert_all_def)
qed

lemma insert_all_stored:
  assumes "ukg_ok u" "distinct (map wcr_image_token recs)"
    and "\<forall>rec \<in> set recs. find_capture_by_token (wcr_image_token rec) u = None"
    and "rec \<in> set recs"
  shows "\<exists>wc. tbl_get wc (uk_captures (insert_all recs u)) = Some (capture_row_of rec)"
  using assms
proof (induction recs arbitrary: u)
  case (Cons r recs)
  define u1 where "u1 = snd (insert_capture r u)"
  have None: "find_capture_by_token (wcr_image_token r) u = None" using Cons.prems(3) by simp
  have rows: "tbl_rows (uk_captures u1) = tbl_rows (uk_captures u) @ [(tbl_seq (uk_captures u) + 1, capture_row_of r)]"
    by (rule insert_capture_fresh [OF Cons.prems(1) None]) (simp add: u1_def tbl_insert_def)
  have later: "later_captures u u1" unfolding u1_def by (rule later_insert [OF Cons.prems(1)])
  then have ok: "ukg_ok u1" by (simp add: later_captures_def)
  have all: "insert_all (r # recs) u = insert_all recs u1" by (simp add: insert_all_def u1_def)
  show ?case
  proof (cases "rec = r")
    case True
    obtain new where "tbl_rows (uk_captures (insert_all recs u1)) = tbl_rows (uk_captures u1) @ new"
      "ukg_ok (insert_all recs u1)"
      using later_insert_all [OF ok, of recs] by (auto simp: later_captures_def)
    then show ?thesis
      using rows True by (auto simp: all tbl_get_row [OF ukg_ok_captures(1)])
  next
    case False
    have "find_capture_by_token (wcr_image_token q) u1 = None" if "q \<in> set recs" for q
    proof -
      have "wcr_image_token q \<noteq> wcr_image_token r" using that Cons.prems(2) by (auto simp: rev_image_eqI)
      then show ?thesis
        using that Cons.prems(3) by (simp add: find_capture_None rows capture_row_of_def image_Un)
    qed
    then show ?thesis
      using Cons.IH [OF ok] Cons.prems(2,4) False by (simp add: all)
  qed
qed simp

section \<open>Properties\<close>



text \<open>C27. \<open>insert_capture\<close> stores a capture once and completely: it always succeeds; a token
  that is not in the database gets a new id under which the row, a link to every application,
  file and web record, all regions in order and the index row are found, and nothing of any
  other capture changes; a known token gets its id back with no change; and a retransmission
  finds the id of the first transmission.\<close>

theorem insert_capture_correct:
  assumes "ukg_ok u"
  shows "\<exists>wc u'. insert_capture rec u = (Inr wc, u')
     \<and> insert_capture rec u' = (Inr wc, u')
     \<and> (case find_capture_by_token (wcr_image_token rec) u of
          None \<Rightarrow> wc \<notin> set (capture_ids u) \<and> capture_stored rec wc u' \<and> others_unchanged wc u u'
        | Some i \<Rightarrow> wc = i \<and> u' = u)"
proof (cases "find_capture_by_token (wcr_image_token rec) u")
  case None
  let ?wc = "tbl_seq (uk_captures u) + 1"
  show ?thesis
  proof (rule insert_capture_fresh [OF assms None])
    fix u'
    assume u': "insert_capture rec u = (Inr ?wc, u')" "ukg_ok u'" "capture_stored rec ?wc u'"
      "others_unchanged ?wc u u'"
    have "insert_capture rec u' = (Inr ?wc, u')"
      using capture_stored_found [OF u'(2,3)] by (rule insert_capture_known)
    moreover have "?wc \<notin> set (capture_ids u)"
      using tbl_new_id ukg_ok_captures(1) [OF assms] by (simp add: capture_ids_def)
    ultimately show ?thesis
      using u' None by (intro exI [of _ ?wc] exI [of _ u']) simp
  qed
next
  case (Some i)
  then show ?thesis
    using insert_capture_known [OF Some] by simp
qed

theorem insert_capture_correct_witness:
  "\<exists>wc u'. insert_capture example_capture ukg_new = (Inr wc, u')
     \<and> insert_capture example_capture u' = (Inr wc, u') \<and> capture_stored example_capture wc u'"
  using insert_capture_correct [OF ukg_ok_new, of example_capture] example_token_new by auto

text \<open>Dwell time is conserved: after any calls of \<open>add_app_dwell\<close>, the row of an
  application and an hour holds exactly the sum of the times that were added for the
  application with a time stamp in that hour.\<close>

lemma dwell_time_conserved:
  "dwell_in app bucket (uk_app_dwell (fold (\<lambda>(name, ts, ms). add_app_dwell name ts ms) calls ukg_new))
     = sum_list [ms. (name, ts, ms) \<leftarrow> calls, name = app \<and> snd (snd (hour_bucket ts)) = bucket]"
proof -
  have "uk_app_dwell (fold (\<lambda>(name, ts, ms). add_app_dwell name ts ms) calls u)
      = fold (\<lambda>(name, ts, ms). add_dwell name ts ms) calls (uk_app_dwell u)" for u
    by (induction calls arbitrary: u) (auto simp: add_app_dwell_def)
  then show ?thesis
    by (simp add: dwell_in_fold) (simp add: ukg_new_def dwell_in_def)
qed

text \<open>The panic button: \<open>purge_all\<close> leaves no capture and nothing that belongs to one (no
  relation, region, index row, state, attempt or dwell time), and ids of purged captures are
  never given out again. It does not delete every trace, as its comment has it: the
  applications, files, web addresses and topics that the captures named, and the settings and
  client rows, all stay.\<close>

lemma purge_all_scope:
  assumes "ukg_ok u"
  shows "capture_ids (purge_all u) = [] \<and> uk_app_rel (purge_all u) = [] \<and> uk_file_rel (purge_all u) = []
   \<and> uk_web_rel (purge_all u) = [] \<and> uk_topic_rel (purge_all u) = []
   \<and> tbl_rows (uk_regions (purge_all u)) = [] \<and> uk_text_index (purge_all u) = []
   \<and> uk_image_state (purge_all u) = [] \<and> uk_attempts (purge_all u) = []
   \<and> uk_app_dwell (purge_all u) = [] \<and> uk_web_dwell (purge_all u) = []
   \<and> list_all (\<lambda>i. i < fst (tbl_insert row (uk_captures (purge_all u)))) (capture_ids u)
   \<and> uk_apps (purge_all u) = uk_apps u \<and> uk_files (purge_all u) = uk_files u
   \<and> uk_webs (purge_all u) = uk_webs u \<and> uk_topics (purge_all u) = uk_topics u
   \<and> uk_config (purge_all u) = uk_config u \<and> uk_clients (purge_all u) = uk_clients u"
  using assms
  by (force simp: purge_all_def capture_ids_def tbl_ids_def tbl_delete_all_def tbl_insert_def
      ukg_ok_def tbl_ok_def list_all_iff)

end
