(* ===== verification/Object_Store.thy ===== *)
theory Object_Store
  imports Hex_Crypto Filetime
begin

text \<open>
  \<open>precall-store/src/objects.rs\<close>: the object store for screenshots and audio segments, on a
  file system that maps the components of an absolute path to the file's bytes. The file
  system says for which paths the operating system reports an I/O error. A \<open>PathBuf\<close> is its
  list of components: \<open>join\<close> of an empty or \<open>.\<close> component adds nothing.
\<close>

section \<open>File system\<close>

type_synonym path = "string list"

record file_system =
  fs_files :: "path \<Rightarrow> bytes option"
  fs_fault :: "path \<Rightarrow> bool"

datatype object_error =
    OIo string
  | OCrypto crypto_error
  | ONotFound path

definition fs_write :: "path \<Rightarrow> bytes \<Rightarrow> file_system \<Rightarrow> (object_error + unit) \<times> file_system" where
  "fs_write p data fs =
     (if fs_fault fs p then (Inl (OIo ''write failed''), fs)
      else (Inr (), fs\<lparr>fs_files := (fs_files fs)(p \<mapsto> data)\<rparr>))"

definition fs_read :: "path \<Rightarrow> file_system \<Rightarrow> object_error + bytes" where
  "fs_read p fs =
     (if fs_fault fs p then Inl (OIo ''read failed'')
      else case fs_files fs p of
             None \<Rightarrow> Inl (OIo ''not found'')
           | Some data \<Rightarrow> Inr data)"

definition fs_create_dir_all :: "path \<Rightarrow> file_system \<Rightarrow> object_error + unit" where
  "fs_create_dir_all p fs = (if fs_fault fs p then Inl (OIo ''mkdir failed'') else Inr ())"

text \<open>\<open>Path::starts_with\<close> compares whole components.\<close>

definition path_starts_with :: "path \<Rightarrow> path \<Rightarrow> bool" where
  "path_starts_with p base \<longleftrightarrow> take (length base) p = base"

definition path_components :: "string list \<Rightarrow> path" where
  "path_components cs = [c\<leftarrow>cs. c \<noteq> [] \<and> c \<noteq> ''.'']"

section \<open>Keys\<close>

fun dec_digits :: "nat \<Rightarrow> string" where
  "dec_digits n =
     (if n < 10 then [char_of (48 + n)] else dec_digits (n div 10) @ [char_of (48 + n mod 10)])"

declare dec_digits.simps [simp del]

definition pad0 :: "nat \<Rightarrow> string \<Rightarrow> string" where
  "pad0 w s = replicate (w - length s) (CHR ''0'') @ s"

text \<open>\<open>format!("{:04}", n)\<close>: the sign counts towards the width.\<close>

definition fmt_int :: "nat \<Rightarrow> int \<Rightarrow> string" where
  "fmt_int w n =
     (if n < 0 then CHR ''-'' # pad0 (w - 1) (dec_digits (nat (- n))) else pad0 w (dec_digits (nat n)))"

definition clean_char :: "char \<Rightarrow> bool" where
  "clean_char c \<longleftrightarrow> ascii_alnum c \<or> c = CHR ''-'' \<or> c = CHR ''_'' \<or> c = CHR ''.''"

definition clean :: "string \<Rightarrow> string" where
  "clean s = filter clean_char s"

definition key_path :: "string \<Rightarrow> int \<times> int \<times> int \<Rightarrow> string \<Rightarrow> string \<Rightarrow> path" where
  "key_path client_id date token ext =
     (case date of (y, m, d) \<Rightarrow>
        path_components
          [clean client_id, fmt_int 4 y, fmt_int 2 m, fmt_int 2 d,
           clean token @ ''.'' @ clean ext])"

section \<open>The store\<close>

record object_store =
  os_root :: path
  os_cipher :: "envelope_cipher option"

definition object_store_open ::
  "path \<Rightarrow> envelope_cipher option \<Rightarrow> file_system \<Rightarrow> object_error + object_store" where
  "object_store_open base cipher fs =
     rbind (fs_create_dir_all base fs) (\<lambda>_. Inr \<lparr>os_root = base, os_cipher = cipher\<rparr>)"

definition object_store_plain :: "path \<Rightarrow> file_system \<Rightarrow> object_error + object_store" where
  "object_store_plain base fs = object_store_open base None fs"

definition object_store_encrypted ::
  "aead \<Rightarrow> path \<Rightarrow> bytes \<Rightarrow> file_system \<Rightarrow> object_error + object_store" where
  "object_store_encrypted a base key fs =
     object_store_open base (Some \<lparr>env_aead = a, env_key = key\<rparr>) fs"

definition obj_abs :: "object_store \<Rightarrow> path \<Rightarrow> path" where
  "obj_abs st rel = os_root st @ rel"

text \<open>\<open>nonce\<close> is the randomness \<open>seal\<close> draws; it is unused when the store is plain.\<close>

definition obj_put ::
  "object_store \<Rightarrow> bytes \<Rightarrow> string \<Rightarrow> int \<times> int \<times> int \<Rightarrow> string \<Rightarrow> string \<Rightarrow> bytes \<Rightarrow> file_system
     \<Rightarrow> (object_error + path) \<times> file_system" where
  "obj_put st nonce client_id date token ext data fs =
     (let rel = key_path client_id date token ext;
          abs = obj_abs st rel
      in case fs_create_dir_all (butlast abs) fs of
           Inl e \<Rightarrow> (Inl e, fs)
         | Inr _ \<Rightarrow>
             let content =
                   (case os_cipher st of
                      Some c \<Rightarrow> envelope_seal c nonce (str_bytes token) data
                    | None \<Rightarrow> data)
             in case fs_write abs content fs of
                  (Inl e, fs') \<Rightarrow> (Inl e, fs')
                | (Inr _, fs') \<Rightarrow> (Inr rel, fs'))"

definition put_image ::
  "object_store \<Rightarrow> bytes \<Rightarrow> string \<Rightarrow> int \<times> int \<times> int \<Rightarrow> string \<Rightarrow> bytes \<Rightarrow> file_system
     \<Rightarrow> (object_error + path) \<times> file_system" where
  "put_image st nonce client_id date token jpeg fs =
     obj_put st nonce client_id date token ''jpg'' jpeg fs"

definition put_audio ::
  "object_store \<Rightarrow> bytes \<Rightarrow> string \<Rightarrow> int \<times> int \<times> int \<Rightarrow> string \<Rightarrow> bytes \<Rightarrow> file_system
     \<Rightarrow> (object_error + path) \<times> file_system" where
  "put_audio st nonce client_id date token opus fs =
     obj_put st nonce client_id date token ''opus'' opus fs"

text \<open>The guard of \<open>get\<close> uses the client id as it is given. The ids the program passes are
  single components (the text of a UUID, or a directory name).\<close>

definition obj_get ::
  "object_store \<Rightarrow> string \<Rightarrow> path \<Rightarrow> string \<Rightarrow> file_system \<Rightarrow> object_error + bytes" where
  "obj_get st client_id rel token fs =
     (let abs = obj_abs st rel;
          guard = os_root st @ path_components [client_id]
      in if \<not> path_starts_with abs guard then Inl (ONotFound rel)
         else rbind (fs_read abs fs)
                (\<lambda>raw. case os_cipher st of
                          Some c \<Rightarrow> (case envelope_open c (str_bytes token) raw of
                                       Inl e \<Rightarrow> Inl (OCrypto e)
                                     | Inr pt \<Rightarrow> Inr pt)
                        | None \<Rightarrow> Inr raw))"

definition obj_exists :: "object_store \<Rightarrow> path \<Rightarrow> file_system \<Rightarrow> bool" where
  "obj_exists st rel fs \<longleftrightarrow> fs_files fs (obj_abs st rel) \<noteq> None"

text \<open>A directory is there when the file system has a file below it (or cannot be removed).\<close>

definition purge_client ::
  "object_store \<Rightarrow> string \<Rightarrow> file_system \<Rightarrow> (object_error + unit) \<times> file_system" where
  "purge_client st client_id fs =
     (let dir = os_root st @ path_components [client_id]
      in if fs_fault fs dir then (Inl (OIo ''remove failed''), fs)
         else (Inr (), fs\<lparr>fs_files := (\<lambda>p. if path_starts_with p dir then None else fs_files fs p)\<rparr>))"

text \<open>\<open>load_or_create_key\<close>: \<open>fresh\<close> is the key \<open>generate_key\<close> would draw, \<open>lossy\<close> is
  \<open>String::from_utf8_lossy\<close>.\<close>

definition load_or_create_key ::
  "(bytes \<Rightarrow> string) \<Rightarrow> bytes \<Rightarrow> path \<Rightarrow> file_system
     \<Rightarrow> (object_error + bytes) outcome \<times> file_system" where
  "load_or_create_key lossy fresh data_root fs =
     (let dir = data_root @ [''.keys''];
          p = dir @ [''objects.key'']
      in case fs_create_dir_all dir fs of
           Inl e \<Rightarrow> (Returned (Inl e), fs)
         | Inr _ \<Rightarrow>
             if fs_files fs p \<noteq> None then
               (case fs_read p fs of
                  Inl e \<Rightarrow> (Returned (Inl e), fs)
                | Inr raw \<Rightarrow>
                    if length raw = 32 then (Returned (Inr raw), fs)
                    else (case hex_pairs (trim (lossy raw)) of
                            Panicked \<Rightarrow> (Panicked, fs)
                          | Returned (Inl e) \<Rightarrow> (Returned (Inl (OIo e)), fs)
                          | Returned (Inr d) \<Rightarrow>
                              if length d = 32 then (Returned (Inr d), fs)
                              else (Returned (Inl (OIo ''objects.key must be 32 bytes'')), fs)))
             else (case fs_write p fresh fs of
                     (Inl e, fs') \<Rightarrow> (Returned (Inl e), fs')
                   | (Inr _, fs') \<Rightarrow> (Returned (Inr fresh), fs')))"

section \<open>Lemmas on keys\<close>

definition digit_or_sign :: "char \<Rightarrow> bool" where
  "digit_or_sign c \<longleftrightarrow> (let n = of_char c :: nat in 48 \<le> n \<and> n \<le> 57) \<or> c = CHR ''-''"

lemma dec_digits_chars: "c \<in> set (dec_digits n) \<Longrightarrow> digit_or_sign c"
proof (induction n rule: dec_digits.induct)
  case (1 n)
  have d: "k < 10 \<Longrightarrow> digit_or_sign (char_of (48 + k))" for k :: nat
    by (simp add: digit_or_sign_def of_char_of)
  show ?case
  proof (cases "n < 10")
    case True
    then show ?thesis using "1.prems" d [of n] by (simp add: dec_digits.simps [of n])
  next
    case False
    then have "c \<in> set (dec_digits (n div 10)) \<or> c = char_of (48 + n mod 10)"
      using "1.prems" by (auto simp: dec_digits.simps [of n])
    then show ?thesis using "1.IH" False d [of "n mod 10"] by auto
  qed
qed

lemma dec_digits_nonempty [simp]: "dec_digits n \<noteq> []"
  by (subst dec_digits.simps) simp

lemma fmt_int_chars: "c \<in> set (fmt_int w n) \<Longrightarrow> digit_or_sign c"
  using dec_digits_chars by (auto simp: fmt_int_def pad0_def digit_or_sign_def split: if_splits)

lemma fmt_int_nonempty [simp]: "fmt_int w n \<noteq> []"
  by (simp add: fmt_int_def pad0_def)

lemma digit_or_sign_not_dot: "\<not> digit_or_sign (CHR ''.'')" "\<not> digit_or_sign (CHR ''/'')"
  by (simp_all add: digit_or_sign_def)

lemma fmt_int_component [simp]: "fmt_int w n \<noteq> ''.''" "fmt_int w n \<noteq> ''..''"
  using fmt_int_chars [of _ w n] digit_or_sign_not_dot by (metis list.set_intros(1))+

lemma clean_no_slash: "CHR ''/'' \<notin> set (clean s)"
  by (auto simp: clean_def clean_char_def ascii_alnum_def)

lemma clean_idem: "clean (clean s) = clean s"
  by (simp add: clean_def)

lemma clean_exts [simp]: "clean ''jpg'' = ''jpg''" "clean ''raw'' = ''raw''" "clean ''opus'' = ''opus''"
  by (simp_all add: clean_def clean_char_def ascii_alnum_def)

text \<open>The client ids of the program: a path component that \<open>clean\<close> does not change.\<close>

definition plain_component :: "string \<Rightarrow> bool" where
  "plain_component s \<longleftrightarrow> clean s = s \<and> s \<noteq> [] \<and> s \<noteq> ''.'' \<and> s \<noteq> ''..''"

definition media_ext :: "string \<Rightarrow> bool" where
  "media_ext ext \<longleftrightarrow> ext \<in> {''jpg'', ''raw'', ''opus''}"

lemma media_component:
  "media_ext ext \<Longrightarrow> clean t @ ''.'' @ clean ext \<noteq> [] \<and> clean t @ ''.'' @ clean ext \<noteq> ''.''
     \<and> clean t @ ''.'' @ clean ext \<noteq> ''..''"
  by (auto simp: media_ext_def append_eq_Cons_conv)

lemma key_path_components:
  assumes "plain_component client" "media_ext ext"
  shows "key_path client (y, m, d) token ext =
     [client, fmt_int 4 y, fmt_int 2 m, fmt_int 2 d, clean token @ ''.'' @ ext]"
  using assms media_component [OF assms(2), of token]
  by (auto simp: key_path_def path_components_def plain_component_def media_ext_def)

lemma key_path_under_client:
  assumes "plain_component client" "media_ext ext"
  shows "path_starts_with (base @ key_path client date token ext) (base @ path_components [client])"
proof -
  obtain y m d where "date = (y, m, d)" by (cases date)
  then show ?thesis
    using assms by (simp add: key_path_components path_starts_with_def path_components_def
        plain_component_def)
qed

lemma key_path_same_date:
  assumes "plain_component client" "media_ext ext"
  shows "key_path client date t1 ext = key_path client date t2 ext \<longleftrightarrow> clean t1 = clean t2"
  using assms by (cases date) (simp add: key_path_components)

section \<open>Lemmas on the store\<close>

definition no_faults :: "file_system \<Rightarrow> bool" where
  "no_faults fs \<longleftrightarrow> (\<forall>p. \<not> fs_fault fs p)"

text \<open>A store whose cipher, if it has one, is a correct AEAD.\<close>

definition sound_store :: "object_store \<Rightarrow> bool" where
  "sound_store st \<longleftrightarrow> (\<forall>c. os_cipher st = Some c \<longrightarrow> aead_correct (env_aead c))"

definition sealed_content :: "object_store \<Rightarrow> bytes \<Rightarrow> string \<Rightarrow> bytes \<Rightarrow> bytes" where
  "sealed_content st nonce token data =
     (case os_cipher st of
        Some c \<Rightarrow> envelope_seal c nonce (str_bytes token) data
      | None \<Rightarrow> data)"

lemma obj_put_no_faults:
  "no_faults fs \<Longrightarrow> obj_put st nonce client date token ext data fs =
     (Inr (key_path client date token ext),
      fs\<lparr>fs_files := (fs_files fs)(obj_abs st (key_path client date token ext)
           \<mapsto> sealed_content st nonce token data)\<rparr>)"
  by (simp add: obj_put_def no_faults_def fs_create_dir_all_def fs_write_def Let_def
      sealed_content_def)

lemma no_faults_put:
  "no_faults fs \<Longrightarrow> no_faults (snd (obj_put st nonce client date token ext data fs))"
  by (simp add: obj_put_no_faults) (simp add: no_faults_def)

lemma obj_get_own_path:
  assumes "plain_component client" "media_ext ext" "no_faults fs"
  shows "obj_get st client (key_path client date token ext) tok fs =
     (case fs_files fs (obj_abs st (key_path client date token ext)) of
        None \<Rightarrow> Inl (OIo ''not found'')
      | Some raw \<Rightarrow>
          (case os_cipher st of
             None \<Rightarrow> Inr raw
           | Some c \<Rightarrow> (case envelope_open c (str_bytes tok) raw of
                          Inl e \<Rightarrow> Inl (OCrypto e)
                        | Inr pt \<Rightarrow> Inr pt)))"
  using assms key_path_under_client [OF assms(1,2), of "os_root st" date token]
  by (auto simp: obj_get_def Let_def obj_abs_def fs_read_def no_faults_def
      split: option.splits)

text \<open>Reading and writing through keys, as the broker and the readers use the store.\<close>

type_synonym object_key = "(int \<times> int \<times> int) \<times> string \<times> string"

definition store_put ::
  "string \<Rightarrow> object_key \<Rightarrow> bytes \<times> bytes \<Rightarrow> object_store \<times> file_system \<Rightarrow> object_store \<times> file_system" where
  "store_put client k v s =
     (case (k, v, s) of ((date, token, ext), (nonce, data), (st, fs)) \<Rightarrow>
        (st, snd (obj_put st nonce client date token ext data fs)))"

definition store_get :: "string \<Rightarrow> object_key \<Rightarrow> object_store \<times> file_system \<Rightarrow> object_error + bytes" where
  "store_get client k s =
     (case (k, s) of ((date, token, ext), (st, fs)) \<Rightarrow>
        obj_get st client (key_path client date token ext) token fs)"

definition store_path :: "string \<Rightarrow> object_key \<Rightarrow> path" where
  "store_path client k = (case k of (date, token, ext) \<Rightarrow> key_path client date token ext)"

definition store_ready :: "string \<Rightarrow> object_store \<times> file_system \<Rightarrow> bool" where
  "store_ready client s \<longleftrightarrow> plain_component client \<and> sound_store (fst s) \<and> no_faults (snd s)"

definition store_key_ok :: "object_key \<Rightarrow> bool" where
  "store_key_ok k \<longleftrightarrow> media_ext (snd (snd k))"

definition store_value_ok :: "bytes \<times> bytes \<Rightarrow> bool" where
  "store_value_ok v \<longleftrightarrow> length (fst v) = 12"

text \<open>The interface between the writer and the readers of objects.\<close>

locale keyed_store =
  fixes put :: "'k \<Rightarrow> 'v \<Rightarrow> 's \<Rightarrow> 's"
    and get :: "'k \<Rightarrow> 's \<Rightarrow> 'e + 'd"
    and place :: "'k \<Rightarrow> 'p"
    and content :: "'v \<Rightarrow> 'd"
    and ready :: "'s \<Rightarrow> bool"
    and key_ok :: "'k \<Rightarrow> bool"
    and value_ok :: "'v \<Rightarrow> bool"
  assumes get_put: "ready s \<Longrightarrow> key_ok k \<Longrightarrow> value_ok v \<Longrightarrow> get k (put k v s) = Inr (content v)"
    and get_put_other:
      "ready s \<Longrightarrow> key_ok k \<Longrightarrow> key_ok k' \<Longrightarrow> place k \<noteq> place k' \<Longrightarrow> get k (put k' v s) = get k s"
    and ready_put: "ready s \<Longrightarrow> key_ok k \<Longrightarrow> ready (put k v s)"
begin

lemma ready_puts:
  "ready s \<Longrightarrow> \<forall>p \<in> set kvs. key_ok (fst p) \<Longrightarrow> ready (foldl (\<lambda>s (k, v). put k v s) s kvs)"
  by (induction kvs arbitrary: s) (auto simp: ready_put)

lemma get_puts_other:
  "ready s \<Longrightarrow> key_ok k \<Longrightarrow> \<forall>p \<in> set kvs. key_ok (fst p) \<and> place (fst p) \<noteq> place k
     \<Longrightarrow> get k (foldl (\<lambda>s (k, v). put k v s) s kvs) = get k s"
proof (induction kvs arbitrary: s)
  case Nil
  then show ?case by simp
next
  case (Cons p kvs)
  obtain k' v where p: "p = (k', v)" by (cases p)
  then have "get k (put k' v s) = get k s" "ready (put k' v s)"
    using Cons.prems by (auto intro!: get_put_other ready_put)
  then show ?case
    using Cons.IH [of "put k' v s"] Cons.prems p by simp
qed

lemma get_puts:
  assumes "ready s" "\<forall>p \<in> set kvs. key_ok (fst p) \<and> value_ok (snd p)"
    and "distinct (map (\<lambda>p. place (fst p)) kvs)" "(k, v) \<in> set kvs"
  shows "get k (foldl (\<lambda>s (k, v). put k v s) s kvs) = Inr (content v)"
  using assms
proof (induction kvs arbitrary: s)
  case Nil
  then show ?case by simp
next
  case (Cons p kvs)
  obtain k' v' where p: "p = (k', v')" by (cases p)
  have r: "ready (put k' v' s)"
    using Cons.prems p by (intro ready_put) auto
  show ?case
  proof (cases "(k, v) = p")
    case True
    then have "get k (foldl (\<lambda>s (k, v). put k v s) (put k v s) kvs) = get k (put k v s)"
      using Cons.prems p r by (intro get_puts_other) (auto simp: rev_image_eqI)
    then show ?thesis
      using True p Cons.prems get_put [of s k v] by simp
  next
    case False
    then show ?thesis using Cons.IH [OF r] Cons.prems p by auto
  qed
qed

end

interpretation objects: keyed_store "store_put client" "store_get client" "store_path client" snd
  "store_ready client" store_key_ok store_value_ok for client
proof
  fix s k v
  assume r: "store_ready client s" "store_key_ok k" "store_value_ok v"
  obtain date token ext nonce data st fs where e: "k = (date, token, ext)" "v = (nonce, data)" "s = (st, fs)"
    by (metis prod.exhaust)
  have nf: "no_faults (fs\<lparr>fs_files := f\<rparr>)" for f
    using r by (simp add: e store_ready_def no_faults_def)
  show "store_get client k (store_put client k v s) = Inr (snd v)"
    using r envelope_roundtrip [of _ nonce]
    by (auto simp: e store_get_def store_put_def store_ready_def store_key_ok_def store_value_ok_def
        obj_put_no_faults obj_get_own_path [OF _ _ nf] sealed_content_def sound_store_def
        split: option.splits)
next
  fix s k k' and v :: "bytes \<times> bytes"
  assume r: "store_ready client s" "store_key_ok k" "store_key_ok k'"
    and ne: "store_path client k \<noteq> store_path client k'"
  obtain date token ext date' token' ext' nonce data st fs
    where e: "k = (date, token, ext)" "k' = (date', token', ext')" "v = (nonce, data)" "s = (st, fs)"
    by (metis prod.exhaust)
  have nf: "no_faults (fs\<lparr>fs_files := f\<rparr>)" for f
    using r by (simp add: e store_ready_def no_faults_def)
  show "store_get client k (store_put client k' v s) = store_get client k s"
    using r ne
    by (simp add: e store_get_def store_put_def store_ready_def store_key_ok_def store_path_def
        obj_put_no_faults obj_get_own_path [OF _ _ nf] obj_get_own_path obj_abs_def)
next
  fix s k v
  assume "store_ready client s" "store_key_ok k"
  then show "store_ready client (store_put client k v s)"
    by (auto simp: store_put_def store_ready_def no_faults_put split: prod.splits)
qed

section \<open>The shared key\<close>

text \<open>When one process got a key, every later call, whatever random key it would have drawn, returns
  the same key and leaves the file system alone.\<close>

lemma object_key_is_stable:
  assumes "length fresh = 32" "load_or_create_key lossy fresh dir fs = (Returned (Inr k), fs')"
  shows "length k = 32 \<and> load_or_create_key lossy fresh2 dir fs' = (Returned (Inr k), fs')"
proof (cases "fs_files fs (dir @ [''.keys''] @ [''objects.key''])")
  case None
  then have "\<not> fs_fault fs (dir @ [''.keys''])" "\<not> fs_fault fs (dir @ [''.keys''] @ [''objects.key''])"
    "k = fresh" "fs' = fs\<lparr>fs_files := (fs_files fs)(dir @ [''.keys''] @ [''objects.key''] \<mapsto> fresh)\<rparr>"
    using assms(2)
    by (auto simp: load_or_create_key_def fs_create_dir_all_def fs_write_def Let_def split: if_splits)
  then show ?thesis
    using assms(1) by (simp add: load_or_create_key_def fs_create_dir_all_def fs_read_def Let_def)
next
  case (Some raw)
  then show ?thesis
    using assms(2)
    by (auto simp: load_or_create_key_def Let_def
        split: sum.splits if_splits outcome.splits option.splits)
qed

section \<open>Properties\<close>

text \<open>C21. Nothing the broker stores later disturbs an object: after any sequence of writes for
  a client whose keys fall on distinct paths, on a store whose cipher (if any) is correct and
  a file system without faults, every object reads back as it was written.\<close>

theorem objects_survive_later_puts:
  assumes "store_ready client s" "\<forall>p \<in> set kvs. store_key_ok (fst p) \<and> store_value_ok (snd p)"
    and "distinct (map (\<lambda>p. store_path client (fst p)) kvs)" "(k, v) \<in> set kvs"
  shows "store_get client k (foldl (\<lambda>s (k, v). store_put client k v s) s kvs) = Inr (snd v)"
  by (rule objects.get_puts [OF assms])

theorem objects_survive_later_puts_witness:
  "store_get ''ab'' ((2025, 1, 2), ''t1'', ''jpg'')
     (foldl (\<lambda>s (k, v). store_put ''ab'' k v s)
        (\<lparr>os_root = [''r''], os_cipher = Some \<lparr>env_aead = example_aead, env_key = [1]\<rparr>\<rparr>,
         \<lparr>fs_files = Map.empty, fs_fault = (\<lambda>_. False)\<rparr>)
        [(((2025, 1, 2), ''t1'', ''jpg''), (replicate 12 7, [1, 2, 3])),
         (((2025, 1, 2), ''t2'', ''jpg''), (replicate 12 9, [4]))]) = Inr [1, 2, 3]"
proof -
  let ?kvs = "[(((2025 :: int, 1 :: int, 2 :: int), ''t1'', ''jpg''), (replicate 12 (7 :: u8), [1, 2, 3 :: u8])),
         (((2025, 1, 2), ''t2'', ''jpg''), (replicate 12 9, [4]))]"
  have pc: "plain_component ''ab''"
    by (simp add: plain_component_def clean_def clean_char_def ascii_alnum_def)
  have ready: "store_ready ''ab''
     (\<lparr>os_root = [''r''], os_cipher = Some \<lparr>env_aead = example_aead, env_key = [1]\<rparr>\<rparr>,
      \<lparr>fs_files = Map.empty, fs_fault = (\<lambda>_. False)\<rparr>)"
    using pc example_aead_correct by (simp add: store_ready_def sound_store_def no_faults_def)
  have ok: "\<forall>p \<in> set ?kvs. store_key_ok (fst p) \<and> store_value_ok (snd p)"
    by (simp add: store_key_ok_def store_value_ok_def media_ext_def)
  have d: "distinct (map (\<lambda>p. store_path ''ab'' (fst p)) ?kvs)"
    by (simp add: store_path_def key_path_same_date [OF pc] media_ext_def clean_def clean_char_def
        ascii_alnum_def)
  show ?thesis
    using objects_survive_later_puts [OF ready ok d,
        of "((2025, 1, 2), ''t1'', ''jpg'')" "(replicate 12 7, [1, 2, 3])"] by simp
qed

text \<open>C22. Wherever a token comes from, its object stays under its client's directory: for a
  client id that is a plain component (a UUID's text), every component of the key is non-empty,
  has no separator and is neither \<open>.\<close> nor \<open>..\<close>, and the absolute path passes the
  guard of the readers for this client and for no other client.\<close>

theorem object_keys_confined:
  assumes "plain_component client" "media_ext ext"
  shows "(\<forall>c \<in> set (key_path client date token ext).
            c \<noteq> [] \<and> CHR ''/'' \<notin> set c \<and> c \<noteq> ''.'' \<and> c \<noteq> ''..'')
     \<and> (\<forall>other. plain_component other \<longrightarrow>
          (path_starts_with (obj_abs st (key_path client date token ext))
             (os_root st @ path_components [other]) \<longleftrightarrow> other = client))"
proof -
  obtain y m d where date: "date = (y, m, d)" by (cases date)
  have noslash: "CHR ''/'' \<notin> set client" "CHR ''/'' \<notin> set (clean token)"
    using clean_no_slash [of client] clean_no_slash [of token] assms(1)
    by (simp_all add: plain_component_def)
  have num: "CHR ''/'' \<notin> set (fmt_int w n)" for w n
    using fmt_int_chars digit_or_sign_not_dot(2) by blast
  have ext: "CHR ''/'' \<notin> set ext" using assms(2) by (auto simp: media_ext_def)
  have last: "clean token @ ''.'' @ ext \<noteq> ''.''" "clean token @ ''.'' @ ext \<noteq> ''..''"
    using assms(2) by (auto simp: media_ext_def append_eq_Cons_conv)
  have "\<forall>c \<in> set (key_path client date token ext).
            c \<noteq> [] \<and> CHR ''/'' \<notin> set c \<and> c \<noteq> ''.'' \<and> c \<noteq> ''..''"
    using assms(1) noslash num ext last
    by (simp add: date key_path_components [OF assms] plain_component_def)
  then show ?thesis
    using assms(1)
    by (auto simp: date key_path_components [OF assms] path_starts_with_def obj_abs_def
        path_components_def plain_component_def)
qed

theorem object_keys_confined_witness:
  "path_starts_with
     (obj_abs \<lparr>os_root = [''r''], os_cipher = None\<rparr> (key_path ''ab'' (2025, 1, 2) ''../../etc'' ''jpg''))
     [''r'', ''ab'']"
proof -
  have pc: "plain_component ''ab''"
    by (simp add: plain_component_def clean_def clean_char_def ascii_alnum_def)
  show ?thesis
    using object_keys_confined [OF pc, of "''jpg''" "(2025, 1, 2)" "''../../etc''"
        "\<lparr>os_root = [''r''], os_cipher = None\<rparr>", THEN conjunct2, THEN spec [of _ "''ab''"]] pc
    by (simp add: media_ext_def path_components_def)
qed

text \<open>C23. The token is authenticated, not only used as a name: two tokens that sanitise to the
  same key share a path, so the second write replaces the first object, and reading with the
  first token is then a decryption error, never the second token's image.\<close>

theorem colliding_tokens_never_confused:
  assumes "plain_component client" "media_ext ext" "no_faults fs"
    and "os_cipher st = Some c" "aead_correct (env_aead c)" "length nonce = 12"
    and "clean t1 = clean t2"
    and "aead_binds_aad (env_aead c) (env_key c) nonce (str_bytes t2) data (str_bytes t1)"
  shows "obj_get st client (key_path client date t1 ext) t1
           (snd (obj_put st nonce client date t2 ext data fs)) = Inl (OCrypto CDecrypt)
     \<and> obj_get st client (key_path client date t2 ext) t2
           (snd (obj_put st nonce client date t2 ext data fs)) = Inr data"
proof -
  have same: "key_path client date t1 ext = key_path client date t2 ext"
    using assms by (simp add: key_path_same_date)
  have nf: "no_faults (fs\<lparr>fs_files := f\<rparr>)" for f
    using assms(3) by (simp add: no_faults_def)
  show ?thesis
    using envelope_wrong_aad [OF assms(5,6,8)] envelope_roundtrip [OF assms(5,6)] assms(4)
    by (simp add: same obj_put_no_faults [OF assms(3)] obj_get_own_path [OF assms(1,2) nf]
        sealed_content_def)
qed

theorem colliding_tokens_never_confused_witness:
  "obj_get \<lparr>os_root = [''r''], os_cipher = Some \<lparr>env_aead = example_aead, env_key = [1]\<rparr>\<rparr>
     ''ab'' (key_path ''ab'' (2025, 1, 2) ''a/b'' ''jpg'') ''a/b''
     (snd (obj_put \<lparr>os_root = [''r''], os_cipher = Some \<lparr>env_aead = example_aead, env_key = [1]\<rparr>\<rparr>
        (replicate 12 0) ''ab'' (2025, 1, 2) ''ab'' ''jpg'' [5]
        \<lparr>fs_files = Map.empty, fs_fault = (\<lambda>_. False)\<rparr>)) = Inl (OCrypto CDecrypt)"
proof -
  have pc: "plain_component ''ab''"
    by (simp add: plain_component_def clean_def clean_char_def ascii_alnum_def)
  have cl: "clean ''a/b'' = clean ''ab''"
    by (simp add: clean_def clean_char_def ascii_alnum_def)
  have b: "aead_binds_aad example_aead [1] (replicate 12 0) (str_bytes ''ab'') [5] (str_bytes ''a/b'')"
    unfolding aead_binds_aad_def example_aead_def example_tag_def str_bytes_def by code_simp
  show ?thesis
    using colliding_tokens_never_confused [of "''ab''" "''jpg''"
        "\<lparr>fs_files = Map.empty, fs_fault = (\<lambda>_. False)\<rparr>"
        "\<lparr>os_root = [''r''], os_cipher = Some \<lparr>env_aead = example_aead, env_key = [1]\<rparr>\<rparr>"
        "\<lparr>env_aead = example_aead, env_key = [1]\<rparr>" "replicate 12 0" "''a/b''" "''ab''" "[5]"
        "(2025, 1, 2)"] pc cl b example_aead_correct
    by (simp add: media_ext_def no_faults_def)
qed

end
