(* ===== verification/Ukg_Queries.thy ===== *)
theory Ukg_Queries
  imports Ukg_Integrity "HOL-Library.Product_Lexorder" "HOL-Library.List_Lexorder"
begin

text \<open>
  The read side of \<open>precall-store/src/ukg.rs\<close>: timeline, full-text search, the filters of the
  semantic legs, the two work queues of the enricher and the escaping of queries. A statement
  without \<open>ORDER BY\<close> gives its rows in insertion order. What FTS5 makes of a \<open>MATCH\<close> query
  (an error, or rows with snippet and bm25 rank) is an argument.
\<close>

section \<open>Result records\<close>

record timeline_entry =
  tl_id :: int
  tl_name :: "string option"
  tl_image_token :: "string option"
  tl_window_title :: "string option"
  tl_window_bounds :: "string option"
  tl_timestamp_100ns :: int
  tl_activation_uri :: "string option"
  tl_fallback_uri :: "string option"
  tl_apps :: "string list"

record search_hit =
  hit_window_capture_id :: int
  hit_timestamp_100ns :: int
  hit_window_title :: "string option"
  hit_app_name :: "string option"
  hit_image_token :: "string option"
  hit_ocr_preview :: "string option"
  hit_score :: rat
  hit_activation_uri :: "string option"

record search_options =
  so_query :: string
  so_start_100ns :: "int option"
  so_end_100ns :: "int option"
  so_app_filter :: "string list"
  so_limit :: "int option"

type_synonym queued_capture = "int \<times> int option \<times> string"
type_synonym pending_capture = "int \<times> int option \<times> string option"
type_synonym capture_row = "int \<times> window_capture_row"

type_synonym fts_engine = "string \<Rightarrow> (int \<times> fts_row) list \<Rightarrow> string + (int \<times> string option \<times> rat) list"

section \<open>Lookups\<close>

text \<open>SQLite reads a negative \<open>LIMIT\<close> as none.\<close>

definition sql_limit :: "int \<Rightarrow> 'a list \<Rightarrow> 'a list" where
  "sql_limit n xs = (if n < 0 then xs else take (nat n) xs)"

definition capture_app_names :: "int \<Rightarrow> ukg \<Rightarrow> string list" where
  "capture_app_names wc u =
     [app_name a. (w, i) \<leftarrow> uk_app_rel u, w = wc, (j, a) \<leftarrow> tbl_rows (uk_apps u), j = i]"

definition image_token :: "int \<Rightarrow> ukg \<Rightarrow> string option" where
  "image_token wc u = Option.bind (tbl_get wc (uk_captures u)) wc_image_token"

definition capture_timestamp :: "int \<Rightarrow> ukg \<Rightarrow> int option" where
  "capture_timestamp wc u = map_option wc_timestamp (tbl_get wc (uk_captures u))"

definition regions :: "int \<Rightarrow> ukg \<Rightarrow> (int \<times> string \<times> string option \<times> string) list" where
  "regions wc u =
     map (\<lambda>(i, w, r). (i, sreg_region_kind r, sreg_ocr_text r, sreg_bounds r))
       (sort_key fst [p\<leftarrow>tbl_rows (uk_regions u). fst (snd p) = wc])"

definition apps :: "ukg \<Rightarrow> (int \<times> string \<times> string option) list" where
  "apps u =
     map (\<lambda>(i, a). (i, app_name a, app_path a))
       (sort_key (\<lambda>(i, a). str_bytes (app_name a)) (tbl_rows (uk_apps u)))"

record dwell_entry =
  de_name :: string
  de_hour_of_day :: u32
  de_day_of_week :: u32
  de_hour_start_100ns :: int
  de_dwell_time_ms :: int

definition dwell_entries :: "((string \<times> int) \<times> dwell_row) list \<Rightarrow> dwell_entry list" where
  "dwell_entries rows =
     map (\<lambda>((n, b), r). \<lparr>de_name = n, de_hour_of_day = word_of_int (dw_hour_of_day r),
           de_day_of_week = word_of_int (dw_day_of_week r), de_hour_start_100ns = b,
           de_dwell_time_ms = dw_dwell_time r\<rparr>)
       (sql_limit 10000 (sort_key (\<lambda>((n, b), r). - b) rows))"

definition app_dwell :: "ukg \<Rightarrow> dwell_entry list" where
  "app_dwell u = dwell_entries (uk_app_dwell u)"

definition web_dwell :: "ukg \<Rightarrow> dwell_entry list" where
  "web_dwell u = dwell_entries (uk_web_dwell u)"

section \<open>Timeline\<close>

definition timeline_entry_of :: "ukg \<Rightarrow> capture_row \<Rightarrow> timeline_entry" where
  "timeline_entry_of u p =
     (case p of (i, r) \<Rightarrow>
        \<lparr>tl_id = i, tl_name = wc_name r, tl_image_token = wc_image_token r,
         tl_window_title = wc_window_title r, tl_window_bounds = wc_window_bounds r,
         tl_timestamp_100ns = wc_timestamp r, tl_activation_uri = wc_activation_uri r,
         tl_fallback_uri = wc_fallback_uri r, tl_apps = capture_app_names i u\<rparr>)"

definition newest_first :: "capture_row list \<Rightarrow> capture_row list" where
  "newest_first rows = sort_key (\<lambda>p. - wc_timestamp (snd p)) rows"

definition timeline :: "int option \<Rightarrow> int \<Rightarrow> ukg \<Rightarrow> timeline_entry list" where
  "timeline before_100ns limit u =
     (let before = (case before_100ns of None \<Rightarrow> 2 ^ 63 - 1 | Some b \<Rightarrow> b)
      in map (timeline_entry_of u)
           (sql_limit limit
              (newest_first [p\<leftarrow>tbl_rows (uk_captures u). wc_timestamp (snd p) < before])))"

section \<open>Search\<close>

definition in_window :: "int option \<Rightarrow> int option \<Rightarrow> int \<Rightarrow> bool" where
  "in_window start until ts \<longleftrightarrow>
     (case start of None \<Rightarrow> True | Some s \<Rightarrow> s \<le> ts) \<and> (case until of None \<Rightarrow> True | Some e \<Rightarrow> ts \<le> e)"

text \<open>The sub-select both queries share: \<open>a.Path IN (paths) OR a.Name IN (names)\<close>.\<close>

definition app_clause :: "string list \<Rightarrow> string list \<Rightarrow> ukg \<Rightarrow> int \<Rightarrow> bool" where
  "app_clause paths names u wc \<longleftrightarrow>
     list_ex (\<lambda>(w, i). w = wc \<and>
       list_ex (\<lambda>(j, a). j = i \<and>
          ((case app_path a of None \<Rightarrow> False | Some p \<Rightarrow> p \<in> set paths) \<or> app_name a \<in> set names))
         (tbl_rows (uk_apps u)))
       (uk_app_rel u)"

definition clamp :: "int \<Rightarrow> int \<Rightarrow> int \<Rightarrow> int" where
  "clamp lo hi x = (if x < lo then lo else if hi < x then hi else x)"

text \<open>The two marker lists of the statement take the parameters in the order they were pushed:
  each filter twice in a row.\<close>

definition search_rows ::
  "search_options \<Rightarrow> ukg \<Rightarrow> (int \<times> string option \<times> rat) list \<Rightarrow> (rat \<times> string option \<times> capture_row) list" where
  "search_rows opts u found =
     (let n = length (so_app_filter opts);
          pushed = concat (map (\<lambda>a. [a, a]) (so_app_filter opts))
      in [(rank, snip, p). (i, snip, rank) \<leftarrow> found, p \<leftarrow> tbl_rows (uk_captures u),
            fst p = i \<and> in_window (so_start_100ns opts) (so_end_100ns opts) (wc_timestamp (snd p))
            \<and> (so_app_filter opts \<noteq> [] \<longrightarrow> app_clause (take n pushed) (drop n pushed) u i)])"

definition search_hit_of :: "ukg \<Rightarrow> rat \<times> string option \<times> capture_row \<Rightarrow> search_hit" where
  "search_hit_of u row =
     (case row of (rank, snip, i, r) \<Rightarrow>
        \<lparr>hit_window_capture_id = i, hit_timestamp_100ns = wc_timestamp r,
         hit_window_title = wc_window_title r,
         hit_app_name = (case capture_app_names i u of [] \<Rightarrow> None | a # _ \<Rightarrow> Some a),
         hit_image_token = wc_image_token r, hit_ocr_preview = snip,
         hit_score = - rank, hit_activation_uri = wc_activation_uri r\<rparr>)"

definition search_fts :: "fts_engine \<Rightarrow> search_options \<Rightarrow> ukg \<Rightarrow> ukg_error + search_hit list" where
  "search_fts fts opts u =
     (let limit = clamp 1 500 (case so_limit opts of None \<Rightarrow> 50 | Some l \<Rightarrow> l)
      in case fts (so_query opts) (uk_text_index u) of
           Inl e \<Rightarrow> Inl (UkgSql e)
         | Inr found \<Rightarrow>
             Inr (map (search_hit_of u) (sql_limit limit (sort_key fst (search_rows opts u found)))))"

definition captures_by_ids :: "int list \<Rightarrow> ukg \<Rightarrow> (int \<times> search_hit) list" where
  "captures_by_ids ids u =
     map (\<lambda>(i, r). (i, \<lparr>hit_window_capture_id = i, hit_timestamp_100ns = wc_timestamp r,
            hit_window_title = wc_window_title r, hit_app_name = None,
            hit_image_token = wc_image_token r, hit_ocr_preview = wc_name r, hit_score = 0,
            hit_activation_uri = wc_activation_uri r\<rparr>))
       [(i, r)\<leftarrow>tbl_rows (uk_captures u). i \<in> set ids]"

definition capture_ids_matching_filters ::
  "int option \<Rightarrow> int option \<Rightarrow> string list \<Rightarrow> ukg \<Rightarrow> int list option" where
  "capture_ids_matching_filters start until app_filter u =
     (if start = None \<and> until = None \<and> app_filter = [] then None
      else let n = length app_filter; pushed = app_filter @ app_filter
           in Some (map fst [p\<leftarrow>tbl_rows (uk_captures u).
                       in_window start until (wc_timestamp (snd p))
                       \<and> (app_filter \<noteq> [] \<longrightarrow> app_clause (take n pushed) (drop n pushed) u (fst p))]))"

section \<open>The queues of the enricher\<close>

definition attempt_time :: "ukg \<Rightarrow> int \<Rightarrow> int" where
  "attempt_time u i = (case map_of (uk_attempts u) i of None \<Rightarrow> 0 | Some t \<Rightarrow> t)"

definition paced_out :: "ukg \<Rightarrow> int \<Rightarrow> int \<Rightarrow> bool" where
  "paced_out u cutoff i \<longleftrightarrow> (case map_of (uk_attempts u) i of None \<Rightarrow> False | Some t \<Rightarrow> \<not> t \<le> cutoff)"

definition paced_queue :: "(capture_row \<Rightarrow> bool) \<Rightarrow> int \<Rightarrow> int \<Rightarrow> ukg \<Rightarrow> capture_row list" where
  "paced_queue waiting limit cutoff u =
     sql_limit limit
       (sort_key (\<lambda>p. (attempt_time u (fst p), fst p))
          [p\<leftarrow>tbl_rows (uk_captures u). waiting p \<and> \<not> paced_out u cutoff (fst p)])"

definition needs_image :: "ukg \<Rightarrow> capture_row \<Rightarrow> bool" where
  "needs_image u p \<longleftrightarrow>
     wc_image_token (snd p) \<noteq> None \<and> wc_is_processed (snd p) = 1
     \<and> (case map_of (uk_image_state u) (fst p) of
          None \<Rightarrow> True
        | Some s \<Rightarrow> is_state s = ''pending'')"

definition captures_needing_image_embedding :: "int \<Rightarrow> int \<Rightarrow> int \<Rightarrow> ukg \<Rightarrow> queued_capture list" where
  "captures_needing_image_embedding limit now backoff u =
     map (\<lambda>(i, r). (i, Some (wc_timestamp r), the (wc_image_token r)))
       (paced_queue (needs_image u) limit (now - backoff) u)"

definition captures_pending_enrichment :: "int \<Rightarrow> int \<Rightarrow> int \<Rightarrow> ukg \<Rightarrow> pending_capture list" where
  "captures_pending_enrichment limit now backoff u =
     map (\<lambda>(i, r). (i, Some (wc_timestamp r), wc_image_token r))
       (paced_queue (\<lambda>p. wc_is_processed (snd p) = 0) limit (now - backoff) u)"

section \<open>Escaping\<close>

fun split_ws :: "string \<Rightarrow> string \<Rightarrow> string list" where
  "split_ws acc [] = (if acc = [] then [] else [rev acc])"
| "split_ws acc (c # cs) =
     (if is_ws c then (if acc = [] then split_ws [] cs else rev acc # split_ws [] cs)
      else split_ws (c # acc) cs)"

definition split_whitespace :: "string \<Rightarrow> string list" where
  "split_whitespace s = split_ws [] s"

definition dquote :: char where "dquote = CHR 0x22"

definition quote_term :: "string \<Rightarrow> string" where
  "quote_term t = dquote # concat (map (\<lambda>c. if c = dquote then [dquote, dquote] else [c]) t) @ [dquote]"

fun join_space :: "string list \<Rightarrow> string" where
  "join_space [] = []"
| "join_space [t] = t"
| "join_space (t # ts) = t @ '' '' @ join_space ts"

definition fts_escape :: "string \<Rightarrow> string" where
  "fts_escape q = join_space (map quote_term (filter (\<lambda>t. t \<noteq> []) (split_whitespace q)))"

text \<open>How FTS5 reads a string: up to a quote that is not doubled; and a query that is nothing
  but strings. The first argument of the reader is the string read so far.\<close>

fun fts5_string :: "string \<Rightarrow> string \<Rightarrow> (string \<times> string) option" where
  "fts5_string acc [] = None"
| "fts5_string acc [c] = (if c = dquote then Some (rev acc, []) else None)"
| "fts5_string acc (c # d # cs) =
     (if c = dquote then (if d = dquote then fts5_string (dquote # acc) cs else Some (rev acc, d # cs))
      else fts5_string (c # acc) (d # cs))"

lemma fts5_string_shorter: "fts5_string acc s = Some (t, rest) \<Longrightarrow> length rest < length s"
  by (induction acc s rule: fts5_string.induct) (auto split: if_splits)

function fts5_strings :: "string \<Rightarrow> string list option" where
  "fts5_strings [] = Some []"
| "fts5_strings (c # cs) =
     (if c = CHR '' '' then fts5_strings cs
      else if c = dquote then
        (case fts5_string [] cs of
           None \<Rightarrow> None
         | Some (t, rest) \<Rightarrow> map_option (\<lambda>ts. t # ts) (fts5_strings rest))
      else None)"
  by pat_completeness auto
termination
  by (relation "measure length") (auto dest: fts5_string_shorter)

text \<open>FTS5 gets the query as a C string: it reads up to the first NUL.\<close>

definition fts5_query :: "string \<Rightarrow> string list option" where
  "fts5_query s = fts5_strings (takeWhile (\<lambda>c. c \<noteq> CHR 0x00) s)"

section \<open>Lemmas on escaping\<close>

lemma dquote_not_space [simp]: "dquote \<noteq> CHR '' ''" "CHR '' '' \<noteq> dquote"
  by (simp_all add: dquote_def)

lemma fts5_string_quoted:
  "rest = [] \<or> hd rest \<noteq> dquote \<Longrightarrow>
     fts5_string acc (concat (map (\<lambda>c. if c = dquote then [dquote, dquote] else [c]) t) @ dquote # rest)
       = Some (rev acc @ t, rest)"
proof (induction t arbitrary: acc)
  case Nil
  then show ?case by (cases rest) auto
next
  case (Cons c t)
  obtain d ds where d: "concat (map (\<lambda>c. if c = dquote then [dquote, dquote] else [c]) t) @ dquote # rest = d # ds"
    by (cases "concat (map (\<lambda>c. if c = dquote then [dquote, dquote] else [c]) t)") auto
  show ?case
    using Cons.IH [OF Cons.prems, of "c # acc"] by (auto simp: d)
qed

lemma fts5_strings_term:
  assumes "rest = [] \<or> hd rest \<noteq> dquote"
  shows "fts5_strings (quote_term t @ rest) = map_option (\<lambda>ts. t # ts) (fts5_strings rest)"
  using fts5_string_quoted [OF assms, of "[]" t]
  by (simp add: quote_term_def)

text \<open>A string that is cut before its quote is no string, whatever it holds.\<close>

lemma fts5_string_unclosed:
  "fts5_string acc (concat (map (\<lambda>c. if c = dquote then [dquote, dquote] else [c]) t)) = None"
proof (induction t arbitrary: acc)
  case Nil
  then show ?case by simp
next
  case (Cons c t)
  define b where "b = concat (map (\<lambda>c. if c = dquote then [dquote, dquote] else [c]) t)"
  have "fts5_string acc ((if c = dquote then [dquote, dquote] else [c]) @ b) = None"
    using Cons.IH [of "c # acc"] unfolding b_def [symmetric] by (cases b) auto
  then show ?case by (simp only: b_def concat.simps list.map)
qed

lemma takeWhile_escaped:
  "takeWhile (\<lambda>c. c \<noteq> CHR 0x00) (concat (map (\<lambda>c. if c = dquote then [dquote, dquote] else [c]) t) @ rest)
     = concat (map (\<lambda>c. if c = dquote then [dquote, dquote] else [c]) (takeWhile (\<lambda>c. c \<noteq> CHR 0x00) t))
         @ (if CHR 0x00 \<in> set t then [] else takeWhile (\<lambda>c. c \<noteq> CHR 0x00) rest)"
  by (induction t) (auto simp: dquote_def)

lemma takeWhile_quote_term:
  "takeWhile (\<lambda>c. c \<noteq> CHR 0x00) (quote_term t @ rest) =
     (if CHR 0x00 \<in> set t
      then dquote # concat (map (\<lambda>c. if c = dquote then [dquote, dquote] else [c])
                              (takeWhile (\<lambda>c. c \<noteq> CHR 0x00) t))
      else quote_term t @ takeWhile (\<lambda>c. c \<noteq> CHR 0x00) rest)"
proof (cases "CHR 0x00 \<in> set t")
  case True
  then show ?thesis
    using takeWhile_escaped [of t "dquote # rest"] by (simp add: quote_term_def) (simp add: dquote_def)
next
  case False
  then have t: "takeWhile (\<lambda>c. c \<noteq> CHR 0x00) t = t" by (simp only: takeWhile_eq_all_conv) metis
  show ?thesis
    using takeWhile_escaped [of t "dquote # rest", unfolded t] False
    by (simp add: quote_term_def) (simp add: dquote_def)
qed

lemma fts5_query_term:
  assumes "rest = [] \<or> hd rest = CHR '' ''"
  shows "fts5_query (quote_term t @ rest) =
     (if CHR 0x00 \<in> set t then None else map_option (\<lambda>ts. t # ts) (fts5_query rest))"
proof (cases "CHR 0x00 \<in> set t")
  case True
  then show ?thesis
    using fts5_string_unclosed [of "[]"] by (simp add: fts5_query_def takeWhile_quote_term)
next
  case False
  let ?r = "takeWhile (\<lambda>c. c \<noteq> CHR 0x00) rest"
  have "?r = [] \<or> hd ?r \<noteq> dquote" using assms by (cases rest) auto
  then show ?thesis
    using False fts5_strings_term [of ?r t] by (simp add: fts5_query_def takeWhile_quote_term)
qed

lemma fts5_query_quoted:
  "fts5_query (join_space (map quote_term ts))
     = (if CHR 0x00 \<in> set (concat ts) then None else Some ts)"
proof (induction ts rule: induct_list012)
  case 1
  then show ?case by (simp add: fts5_query_def)
next
  case (2 t)
  show ?case
    using fts5_query_term [of "[]" t] by (simp add: fts5_query_def)
next
  case (3 t t' ts)
  define more where "more = join_space (map quote_term (t' # ts))"
  have "fts5_query ('' '' @ more) = fts5_query more" by (simp add: fts5_query_def)
  then have "fts5_query (quote_term t @ '' '' @ more)
      = (if CHR 0x00 \<in> set t then None else map_option (\<lambda>ts. t # ts) (fts5_query more))"
    by (subst fts5_query_term) simp_all
  moreover have "join_space (map quote_term (t # t' # ts)) = quote_term t @ '' '' @ more"
    by (simp add: more_def)
  ultimately show ?case
    using "3.IH"(2) by (auto simp: more_def simp del: list.map)
qed

lemma split_ws_terms:
  "list_all (\<lambda>c. \<not> is_ws c) acc \<Longrightarrow>
     list_all (\<lambda>t. t \<noteq> [] \<and> list_all (\<lambda>c. \<not> is_ws c) t) (split_ws acc s)"
  by (induction acc s rule: split_ws.induct) simp_all

lemma split_ws_chars: "concat (split_ws acc s) = rev acc @ filter (\<lambda>c. \<not> is_ws c) s"
  by (induction acc s rule: split_ws.induct) auto

section \<open>Lemmas on queues\<close>

lemma set_sql_limit: "set (sql_limit n xs) \<subseteq> set xs"
  by (auto simp: sql_limit_def dest: in_set_takeD)

lemma paced_queue_waiting:
  "p \<in> set (paced_queue waiting limit cutoff u) \<Longrightarrow>
     p \<in> set (tbl_rows (uk_captures u)) \<and> waiting p \<and> \<not> paced_out u cutoff (fst p)"
  using set_sql_limit by (fastforce simp: paced_queue_def)

text \<open>A waiting capture that is not selected is one the limit cut off: the queue is full of
  captures that were attempted no later.\<close>

lemma take_sorted_cut:
  assumes "sorted (map f xs)" "x \<in> set xs" "x \<notin> set (take n xs)"
  shows "length (take n xs) = n \<and> (\<forall>y \<in> set (take n xs). f y \<le> f x)"
proof -
  have x: "x \<in> set (drop n xs)"
    using assms(2,3) by (metis Un_iff append_take_drop_id set_append)
  have "sorted (map f (take n xs) @ map f (drop n xs))"
    using assms(1) by (metis append_take_drop_id map_append)
  then have "\<forall>y \<in> set (take n xs). f y \<le> f x"
    using x by (auto simp: sorted_append)
  moreover have "n < length xs" using x by (cases "n < length xs") auto
  ultimately show ?thesis by simp
qed

lemma paced_queue_cut:
  assumes "0 \<le> limit" "p \<in> set (tbl_rows (uk_captures u))" "waiting p" "\<not> paced_out u cutoff (fst p)"
    and "p \<notin> set (paced_queue waiting limit cutoff u)"
  shows "length (paced_queue waiting limit cutoff u) = nat limit
     \<and> (\<forall>q \<in> set (paced_queue waiting limit cutoff u).
          (attempt_time u (fst q), fst q) \<le> (attempt_time u (fst p), fst p))"
proof -
  let ?f = "\<lambda>p. (attempt_time u (fst p), fst p)"
  let ?xs = "sort_key ?f [p\<leftarrow>tbl_rows (uk_captures u). waiting p \<and> \<not> paced_out u cutoff (fst p)]"
  have q: "paced_queue waiting limit cutoff u = take (nat limit) ?xs"
    using assms(1) by (simp add: paced_queue_def sql_limit_def)
  have "sorted (map ?f ?xs)" "p \<in> set ?xs" using assms(2-4) by simp_all
  then show ?thesis
    using take_sorted_cut [of ?f ?xs p "nat limit"] assms(5) by (simp add: q)
qed

lemma distinct_paced_queue: "tbl_ok (uk_captures u) \<Longrightarrow> distinct (map fst (paced_queue waiting limit cutoff u))"
proof -
  assume ok: "tbl_ok (uk_captures u)"
  let ?ys = "[p\<leftarrow>tbl_rows (uk_captures u). waiting p \<and> \<not> paced_out u cutoff (fst p)]"
  let ?xs = "sort_key (\<lambda>p. (attempt_time u (fst p), fst p)) ?ys"
  have "distinct (map fst (tbl_rows (uk_captures u)))"
    using ok by (simp add: tbl_ok_def tbl_ids_def)
  then have "distinct (map fst ?ys)" by (rule distinct_map_filter)
  then have "distinct (map fst ?xs)"
    by (simp add: distinct_map)
  then show "distinct (map fst (paced_queue waiting limit cutoff u))"
    by (simp add: paced_queue_def sql_limit_def distinct_take flip: take_map)
qed

section \<open>Lemmas on filters\<close>

definition filter_spec :: "int option \<Rightarrow> int option \<Rightarrow> string list \<Rightarrow> ukg \<Rightarrow> int \<Rightarrow> int \<Rightarrow> bool" where
  "filter_spec start until app_filter u i ts \<longleftrightarrow>
     in_window start until ts
     \<and> (app_filter = [] \<or>
        (\<exists>k a. (i, k) \<in> set (uk_app_rel u) \<and> (k, a) \<in> set (tbl_rows (uk_apps u))
           \<and> (app_name a \<in> set app_filter \<or> app_path a \<in> Some ` set app_filter)))"

lemma app_clause_iff:
  "app_clause paths names u i \<longleftrightarrow>
     (\<exists>k a. (i, k) \<in> set (uk_app_rel u) \<and> (k, a) \<in> set (tbl_rows (uk_apps u))
        \<and> (app_name a \<in> set names \<or> app_path a \<in> Some ` set paths))"
proof -
  have path: "(case app_path a of None \<Rightarrow> False | Some p \<Rightarrow> p \<in> set paths) \<longleftrightarrow> app_path a \<in> Some ` set paths" for a
    by (cases "app_path a") auto
  show ?thesis
    unfolding app_clause_def list_ex_iff path by blast
qed

lemma search_rows_sound:
  assumes "(rank, snip, p) \<in> set (search_rows opts u found)"
  defines "n \<equiv> length (so_app_filter opts)"
    and "pushed \<equiv> concat (map (\<lambda>a. [a, a]) (so_app_filter opts))"
  shows "p \<in> set (tbl_rows (uk_captures u)) \<and> (fst p, snip, rank) \<in> set found
     \<and> in_window (so_start_100ns opts) (so_end_100ns opts) (wc_timestamp (snd p))
     \<and> (so_app_filter opts = [] \<or> app_clause (take n pushed) (drop n pushed) u (fst p))"
  using assms(1) unfolding search_rows_def n_def pushed_def Let_def
  by (auto split: if_splits prod.splits)

lemma hit_of_row: "hit_window_capture_id (search_hit_of u (rank, snip, p)) = fst p"
  by (cases p) (simp add: search_hit_of_def)

lemma search_fts_hit:
  assumes "search_fts fts opts u = Inr hits" "h \<in> set hits"
  obtains found rank snip p where "fts (so_query opts) (uk_text_index u) = Inr found"
    "(rank, snip, p) \<in> set (search_rows opts u found)" "h = search_hit_of u (rank, snip, p)"
proof (cases "fts (so_query opts) (uk_text_index u)")
  case (Inl e)
  then show thesis using assms(1) by (simp add: search_fts_def)
next
  case (Inr found)
  then obtain row where "row \<in> set (sort_key fst (search_rows opts u found))" "h = search_hit_of u row"
    using assms set_sql_limit by (fastforce simp: search_fts_def)
  then have "row \<in> set (search_rows opts u found)" by simp
  then show thesis using that [OF Inr, of "fst row" "fst (snd row)" "snd (snd row)"] \<open>h = _\<close> by simp
qed

section \<open>Lemmas on the timeline\<close>

lemma timeline_entry_of_simps [simp]:
  "tl_id (timeline_entry_of u p) = fst p"
  "tl_timestamp_100ns (timeline_entry_of u p) = wc_timestamp (snd p)"
  by (simp_all add: timeline_entry_of_def split: prod.splits)

lemma newest_first_rows:
  fixes before :: int
  assumes "tbl_ok (uk_captures u)"
  defines "xs \<equiv> newest_first [p\<leftarrow>tbl_rows (uk_captures u). wc_timestamp (snd p) < before]"
  shows "sorted (map (\<lambda>p. - wc_timestamp (snd p)) xs)" "distinct (map fst xs)"
    and "\<And>i r. (i, r) \<in> set xs \<Longrightarrow> tbl_get i (uk_captures u) = Some r \<and> wc_timestamp r < before"
    and "\<And>i r. tbl_get i (uk_captures u) = Some r \<Longrightarrow> wc_timestamp r < before \<Longrightarrow> (i, r) \<in> set xs"
proof -
  show "sorted (map (\<lambda>p. - wc_timestamp (snd p)) xs)" by (simp add: xs_def newest_first_def)
  have "distinct (map fst (tbl_rows (uk_captures u)))"
    using assms(1) by (simp add: tbl_ok_def tbl_ids_def)
  then have "distinct (map fst [p\<leftarrow>tbl_rows (uk_captures u). wc_timestamp (snd p) < before])"
    by (rule distinct_map_filter)
  then show "distinct (map fst xs)" by (simp add: xs_def distinct_map newest_first_def)
qed (auto simp: xs_def newest_first_def tbl_get_row [OF assms(1)])

section \<open>Properties\<close>


text \<open>C29. The timeline is a correct page of the captures: its entries are captures older than
  the cursor, newest first, without duplicates, at most \<open>limit\<close> of them, and every capture
  that is older than the cursor and newer than the last entry is on the page.\<close>

theorem timeline_is_a_page:
  fixes before limit :: int
  assumes "ukg_ok u" "0 \<le> limit"
  defines "page \<equiv> timeline (Some before) limit u"
  shows "sorted (map (\<lambda>e. - tl_timestamp_100ns e) page)
     \<and> distinct (map tl_id page) \<and> int (length page) \<le> limit
     \<and> (\<forall>e \<in> set page. \<exists>r. tbl_get (tl_id e) (uk_captures u) = Some r
          \<and> tl_timestamp_100ns e = wc_timestamp r \<and> wc_timestamp r < before)
     \<and> (\<forall>i r. tbl_get i (uk_captures u) = Some r \<and> wc_timestamp r < before
          \<and> (int (length page) < limit \<or> (\<exists>e \<in> set page. tl_timestamp_100ns e < wc_timestamp r))
          \<longrightarrow> i \<in> tl_id ` set page)"
proof -
  let ?xs = "newest_first [p\<leftarrow>tbl_rows (uk_captures u). wc_timestamp (snd p) < before]"
  note xs = newest_first_rows [OF ukg_ok_captures(1) [OF assms(1)], where before = before]
  have page: "page = map (timeline_entry_of u) (take (nat limit) ?xs)"
    using assms(2) by (simp add: page_def timeline_def sql_limit_def)
  have 1: "sorted (map (\<lambda>e. - tl_timestamp_100ns e) page)"
    using xs(1) sorted_wrt_take [of "(\<le>)" "map (\<lambda>p. - wc_timestamp (snd p)) ?xs" "nat limit"]
    by (simp add: page o_def take_map)
  have 2: "distinct (map tl_id page)"
    using xs(2) distinct_take [of "map fst ?xs" "nat limit"] by (simp add: page o_def take_map)
  have 3: "int (length page) \<le> limit" using assms(2) by (simp add: page)
  have 4: "\<exists>r. tbl_get (tl_id x) (uk_captures u) = Some r
          \<and> tl_timestamp_100ns x = wc_timestamp r \<and> wc_timestamp r < before" if "x \<in> set page" for x
  proof -
    obtain p where "x = timeline_entry_of u p" "p \<in> set ?xs"
      using \<open>x \<in> set page\<close> unfolding page set_map by (blast dest: in_set_takeD)
    then show ?thesis using xs(3) [of "fst p" "snd p"] by simp
  qed
  have 5: "i \<in> tl_id ` set page"
    if i: "tbl_get i (uk_captures u) = Some r" "wc_timestamp r < before"
      "int (length page) < limit \<or> (\<exists>e \<in> set page. tl_timestamp_100ns e < wc_timestamp r)" for i r
  proof (rule ccontr)
    assume "i \<notin> tl_id ` set page"
    then have "(i, r) \<notin> set (take (nat limit) ?xs)" by (force simp: page)
    from take_sorted_cut [OF xs(1) xs(4) [OF i(1,2)] this]
    have "length page = nat limit" "\<forall>e \<in> set page. wc_timestamp r \<le> tl_timestamp_100ns e"
      by (auto simp: page)
    moreover then have "int (length page) = limit" using assms(2) by simp
    ultimately show False using i(3) by (meson leD less_irrefl)
  qed
  show ?thesis using 1 2 3 4 5 by blast
qed

theorem timeline_is_a_page_witness:
  "tl_id ` set (timeline (Some 8) 10 example_ukg) = {1} \<and> timeline (Some 7) 10 example_ukg = []"
proof -
  have ts: "wc_timestamp (capture_row_of example_capture) = 7"
    by (simp add: capture_row_of_def timestamp_i64_def example_capture_def)
  note page = timeline_is_a_page [OF example_ukg_ok, of 10]
  have "tl_id e = 1" if "e \<in> set (timeline (Some 8) 10 example_ukg)" for e
    using page [of 8] that by (auto simp: example_ukg_get split: if_splits)
  moreover have "1 \<in> tl_id ` set (timeline (Some 8) 10 example_ukg)"
  proof -
    have "card (tl_id ` set (timeline (Some 8) 10 example_ukg)) \<le> card {1 :: int}"
      using calculation by (intro card_mono) auto
    then have "int (length (timeline (Some 8) 10 example_ukg)) < 10"
      using page [of 8] by (simp add: distinct_card flip: set_map)
    then show ?thesis using page [of 8] ts by (simp add: example_ukg_get)
  qed
  ultimately have "tl_id ` set (timeline (Some 8) 10 example_ukg) = {1}" by auto
  moreover have "set (timeline (Some 7) 10 example_ukg) = {}"
    using page [of 7] ts by (auto simp: example_ukg_get split: if_splits)
  ultimately show ?thesis by simp
qed

text \<open>C30. The pre-filter of the semantic legs is exact: without a constraint there is none, and
  otherwise it is the set of captures in the time window that are linked to an application
  with a wanted name or path. The full-text leg binds the same filter wrongly: its hits pass
  the filter when at most one application is asked for, but for two it looks for the first
  among the paths only and the second among the names only.\<close>

theorem filters_of_both_legs:
  "(capture_ids_matching_filters start until fs u = None \<longleftrightarrow> start = None \<and> until = None \<and> fs = [])
   \<and> (capture_ids_matching_filters start until fs u = Some ids \<longrightarrow>
        set ids = {i. \<exists>r. (i, r) \<in> set (tbl_rows (uk_captures u)) \<and> filter_spec start until fs u i (wc_timestamp r)})
   \<and> (search_fts fts opts u = Inr hits \<and> h \<in> set hits \<and> length (so_app_filter opts) \<le> 1 \<longrightarrow>
        (\<exists>r. (hit_window_capture_id h, r) \<in> set (tbl_rows (uk_captures u))
           \<and> filter_spec (so_start_100ns opts) (so_end_100ns opts) (so_app_filter opts) u
               (hit_window_capture_id h) (wc_timestamp r)))
   \<and> (search_fts fts opts u = Inr hits \<and> h \<in> set hits \<and> so_app_filter opts = [a, b] \<longrightarrow>
        app_clause [a, a] [b, b] u (hit_window_capture_id h))"
proof (intro conjI impI)
  show "capture_ids_matching_filters start until fs u = None \<longleftrightarrow> start = None \<and> until = None \<and> fs = []"
    by (simp add: capture_ids_matching_filters_def Let_def)
next
  assume "capture_ids_matching_filters start until fs u = Some ids"
  then have "ids = map fst [p\<leftarrow>tbl_rows (uk_captures u).
      in_window start until (wc_timestamp (snd p)) \<and> (fs \<noteq> [] \<longrightarrow> app_clause fs fs u (fst p))]"
    by (auto simp: capture_ids_matching_filters_def Let_def split: if_splits)
  then have "i \<in> set ids \<longleftrightarrow> (\<exists>r. (i, r) \<in> set (tbl_rows (uk_captures u))
      \<and> in_window start until (wc_timestamp r) \<and> (fs \<noteq> [] \<longrightarrow> app_clause fs fs u i))" for i
    by (simp add: image_iff)
  then show "set ids = {i. \<exists>r. (i, r) \<in> set (tbl_rows (uk_captures u)) \<and> filter_spec start until fs u i (wc_timestamp r)}"
    unfolding filter_spec_def app_clause_iff by blast
next
  assume a: "search_fts fts opts u = Inr hits \<and> h \<in> set hits \<and> length (so_app_filter opts) \<le> 1"
  then have "search_fts fts opts u = Inr hits" "h \<in> set hits" by simp_all
  then obtain found rank snip p where p: "(rank, snip, p) \<in> set (search_rows opts u found)"
    "h = search_hit_of u (rank, snip, p)"
    by (rule search_fts_hit)
  obtain i r where ir: "p = (i, r)" by (cases p)
  have "so_app_filter opts = [] \<or> (\<exists>f. so_app_filter opts = [f])"
    using a by (cases "so_app_filter opts") auto
  then show "\<exists>r. (hit_window_capture_id h, r) \<in> set (tbl_rows (uk_captures u))
           \<and> filter_spec (so_start_100ns opts) (so_end_100ns opts) (so_app_filter opts) u
               (hit_window_capture_id h) (wc_timestamp r)"
    using search_rows_sound [OF p(1)] p(2) hit_of_row [of u rank snip p]
    unfolding filter_spec_def app_clause_iff ir by auto
next
  assume a: "search_fts fts opts u = Inr hits \<and> h \<in> set hits \<and> so_app_filter opts = [a, b]"
  then have "search_fts fts opts u = Inr hits" "h \<in> set hits" by simp_all
  then obtain found rank snip p where p: "(rank, snip, p) \<in> set (search_rows opts u found)"
    "h = search_hit_of u (rank, snip, p)"
    by (rule search_fts_hit)
  then show "app_clause [a, a] [b, b] u (hit_window_capture_id h)"
    using search_rows_sound [OF p(1)] a hit_of_row [of u rank snip p] by simp
qed

theorem filters_of_both_legs_witness:
  "set (the (capture_ids_matching_filters (Some 1) None [] example_ukg)) = {1}
   \<and> set (the (capture_ids_matching_filters (Some 8) None [] example_ukg)) = {}"
proof -
  have ts: "wc_timestamp (capture_row_of example_capture) = 7"
    by (simp add: capture_row_of_def timestamp_i64_def example_capture_def)
  obtain ids where "capture_ids_matching_filters (Some 1) None [] example_ukg = Some ids"
    using filters_of_both_legs [of "Some 1" None "[]" example_ukg] by fastforce
  moreover obtain ids' where "capture_ids_matching_filters (Some 8) None [] example_ukg = Some ids'"
    using filters_of_both_legs [of "Some 8" None "[]" example_ukg] by fastforce
  ultimately show ?thesis
    using filters_of_both_legs [of "Some 1" None "[]" example_ukg ids]
      filters_of_both_legs [of "Some 8" None "[]" example_ukg ids'] ts
    by (simp add: example_ukg_rows filter_spec_def in_window_def)
qed

text \<open>The work queues are fair: each selects only captures that wait and are out of their
  back-off, each once and at most \<open>limit\<close>, and a waiting capture that is left out is left out
  for a full queue of captures attempted no later than it, older ids first among equals.\<close>

lemma enrichment_queue_fair:
  fixes limit now backoff :: int
  assumes "ukg_ok u" "0 \<le> limit"
  defines "queue \<equiv> captures_pending_enrichment limit now backoff u"
  shows "distinct (map fst queue) \<and> int (length queue) \<le> limit
     \<and> (\<forall>(i, ts, tok) \<in> set queue. \<exists>r. tbl_get i (uk_captures u) = Some r \<and> wc_is_processed r = 0
          \<and> ts = Some (wc_timestamp r) \<and> tok = wc_image_token r \<and> \<not> paced_out u (now - backoff) i)
     \<and> (\<forall>i r. tbl_get i (uk_captures u) = Some r \<and> wc_is_processed r = 0
          \<and> \<not> paced_out u (now - backoff) i \<and> i \<notin> fst ` set queue \<longrightarrow>
          int (length queue) = limit
          \<and> (\<forall>j \<in> fst ` set queue. (attempt_time u j, j) \<le> (attempt_time u i, i)))"
proof -
  let ?q = "paced_queue (\<lambda>p. wc_is_processed (snd p) = 0) limit (now - backoff) u"
  have ok: "tbl_ok (uk_captures u)" using assms(1) by (rule ukg_ok_captures)
  have queue: "queue = map (\<lambda>(i, r). (i, Some (wc_timestamp r), wc_image_token r)) ?q"
    by (simp add: queue_def captures_pending_enrichment_def)
  have ids: "map fst queue = map fst ?q" by (auto simp: queue)
  then have sids: "fst ` set queue = fst ` set ?q" by (metis set_map)
  have 1: "distinct (map fst queue)" unfolding ids by (rule distinct_paced_queue [OF ok])
  have 2: "int (length queue) \<le> limit"
    using assms(2) by (simp add: queue paced_queue_def sql_limit_def)
  have 3: "\<forall>(i, ts, tok) \<in> set queue. \<exists>r. tbl_get i (uk_captures u) = Some r \<and> wc_is_processed r = 0
          \<and> ts = Some (wc_timestamp r) \<and> tok = wc_image_token r \<and> \<not> paced_out u (now - backoff) i"
    using paced_queue_waiting tbl_get_row [OF ok] by (fastforce simp: queue)
  have 4: "int (length queue) = limit \<and> (\<forall>j \<in> fst ` set queue. (attempt_time u j, j) \<le> (attempt_time u i, i))"
    if "tbl_get i (uk_captures u) = Some r" "wc_is_processed r = 0" "\<not> paced_out u (now - backoff) i"
      "i \<notin> fst ` set queue" for i r
  proof -
    have "(i, r) \<in> set (tbl_rows (uk_captures u))" using that(1) tbl_get_row [OF ok] by simp
    moreover have "(i, r) \<notin> set ?q" using that(4) sids by force
    ultimately have "length ?q = nat limit"
      "\<forall>q \<in> set ?q. (attempt_time u (fst q), fst q) \<le> (attempt_time u i, i)"
      using paced_queue_cut [OF assms(2), of "(i, r)" u "\<lambda>p. wc_is_processed (snd p) = 0" "now - backoff"]
        that(2,3) by simp_all
    then show ?thesis using assms(2) unfolding sids by (simp add: queue)
  qed
  show ?thesis using 1 2 3 4 by blast
qed

end
