(* ===== verification/Float32.thy ===== *)
theory Float32
  imports PreCall_Prelude Complex_Main
begin

text \<open>
  The arithmetic of \<open>f32\<close> (IEEE 754 binary32, round to nearest, ties to even) on bit patterns: what
  the embedder, the vector search and the OCR bounds compute with. A finite number is a rational;
  an operation computes exactly and rounds. A result that is not a number is the one quiet NaN
  below, whose payload no code looks at. The main lemma says that rounding gives every finite
  number back.
\<close>

section \<open>Bit patterns\<close>

type_synonym f32 = "32 word"

definition f32_sign :: "f32 \<Rightarrow> bool" where "f32_sign w \<longleftrightarrow> bit w 31"

definition f32_exp :: "f32 \<Rightarrow> int" where "f32_exp w = uint w div 2 ^ 23 mod 2 ^ 8"

definition f32_frac :: "f32 \<Rightarrow> int" where "f32_frac w = uint w mod 2 ^ 23"

definition f32_finite :: "f32 \<Rightarrow> bool" where "f32_finite w \<longleftrightarrow> f32_exp w < 255"

definition f32_is_nan :: "f32 \<Rightarrow> bool" where "f32_is_nan w \<longleftrightarrow> f32_exp w = 255 \<and> f32_frac w \<noteq> 0"

definition f32_is_inf :: "f32 \<Rightarrow> bool" where "f32_is_inf w \<longleftrightarrow> f32_exp w = 255 \<and> f32_frac w = 0"

definition F32_NAN :: f32 where "F32_NAN = 0x7FC00000"

definition f32_signed :: "bool \<Rightarrow> f32 \<Rightarrow> f32" where
  "f32_signed s w = (if s then w + 0x80000000 else w)"

definition f32_neg :: "f32 \<Rightarrow> f32" where "f32_neg w = w XOR 0x80000000"

text \<open>The significand and the exponent of a finite number, and its magnitude and value.\<close>

definition f32_significand :: "f32 \<Rightarrow> int" where
  "f32_significand w = (if f32_exp w = 0 then f32_frac w else 2 ^ 23 + f32_frac w)"

definition f32_scale :: "f32 \<Rightarrow> int" where "f32_scale w = max 1 (f32_exp w) - 150"

definition f32_magnitude :: "f32 \<Rightarrow> rat" where
  "f32_magnitude w = of_int (f32_significand w) * 2 powi f32_scale w"

definition f32_val :: "f32 \<Rightarrow> rat" where
  "f32_val w = (if f32_sign w then - f32_magnitude w else f32_magnitude w)"

section \<open>Rounding\<close>

function int_bits :: "int \<Rightarrow> int" where
  "int_bits n = (if n \<le> 0 then 0 else int_bits (n div 2) + 1)"
  by auto
termination
  by (relation "measure nat") auto

declare int_bits.simps [simp del]

text \<open>The integer logarithm of a positive rational.\<close>

definition rat_log2 :: "rat \<Rightarrow> int" where
  "rat_log2 m =
     (case quotient_of m of
        (a, b) \<Rightarrow>
          let e = int_bits a - int_bits b
          in if 2 powi e \<le> m then e else e - 1)"

definition round_half_even :: "rat \<Rightarrow> int" where
  "round_half_even x =
     (let f = \<lfloor>x\<rfloor>; d = x - of_int f
      in if d < 1 / 2 then f else if 1 / 2 < d then f + 1 else if even f then f else f + 1)"

text \<open>The bit pattern of a magnitude: the number of units \<open>n\<close> of the last place \<open>2 powi q\<close>, written
  below the exponent \<open>q\<close>, so that a carry out of the significand becomes the next exponent and
  what is too large becomes infinity.\<close>

definition f32_round :: "bool \<Rightarrow> rat \<Rightarrow> f32" where
  "f32_round s m =
     (if m = 0 then f32_signed s 0
      else
        let q = max (rat_log2 m - 23) (- 149);
            n = round_half_even (m / 2 powi q)
        in f32_signed s (word_of_int (min ((q + 149) * 2 ^ 23 + n) 0x7F800000)))"

section \<open>Operations\<close>

definition f32_add :: "f32 \<Rightarrow> f32 \<Rightarrow> f32" where
  "f32_add a b =
     (if f32_is_nan a \<or> f32_is_nan b then F32_NAN
      else if f32_is_inf a then (if f32_is_inf b \<and> a \<noteq> b then F32_NAN else a)
      else if f32_is_inf b then b
      else
        let x = f32_val a + f32_val b
        in f32_round (if x = 0 then f32_sign a \<and> f32_sign b else x < 0) \<bar>x\<bar>)"

definition f32_sub :: "f32 \<Rightarrow> f32 \<Rightarrow> f32" where "f32_sub a b = f32_add a (f32_neg b)"

definition f32_is_zero :: "f32 \<Rightarrow> bool" where "f32_is_zero w \<longleftrightarrow> f32_exp w = 0 \<and> f32_frac w = 0"

definition f32_inf :: "bool \<Rightarrow> f32" where "f32_inf s = f32_signed s 0x7F800000"

definition f32_mul :: "f32 \<Rightarrow> f32 \<Rightarrow> f32" where
  "f32_mul a b =
     (let s = (f32_sign a \<noteq> f32_sign b) in
      if f32_is_nan a \<or> f32_is_nan b then F32_NAN
      else if f32_is_inf a \<or> f32_is_inf b then
        (if f32_is_zero a \<or> f32_is_zero b then F32_NAN else f32_inf s)
      else f32_round s (f32_magnitude a * f32_magnitude b))"

definition f32_div :: "f32 \<Rightarrow> f32 \<Rightarrow> f32" where
  "f32_div a b =
     (let s = (f32_sign a \<noteq> f32_sign b) in
      if f32_is_nan a \<or> f32_is_nan b then F32_NAN
      else if f32_is_inf a then (if f32_is_inf b then F32_NAN else f32_inf s)
      else if f32_is_inf b then f32_signed s 0
      else if f32_is_zero b then (if f32_is_zero a then F32_NAN else f32_inf s)
      else f32_round s (f32_magnitude a / f32_magnitude b))"

function isqrt :: "int \<Rightarrow> int" where
  "isqrt n =
     (if n \<le> 0 then 0
      else let r = 2 * isqrt (n div 4) in if (r + 1) * (r + 1) \<le> n then r + 1 else r)"
  by auto
termination
  by (relation "measure nat") auto

declare isqrt.simps [simp del]

text \<open>The root to at least 26 bits, and half a unit more when it is not exact: no number between
  two \<open>f32\<close>, nor the middle of two, lies between that and the true root.\<close>

definition f32_sqrt :: "f32 \<Rightarrow> f32" where
  "f32_sqrt w =
     (if f32_is_nan w then F32_NAN
      else if f32_is_zero w then w
      else if f32_sign w then F32_NAN
      else if f32_is_inf w then w
      else
        let q = f32_scale w;
            m = f32_significand w * (if even q then 1 else 2) * 2 ^ 52;
            r = isqrt m
        in f32_round False
             ((of_int r + (if r * r < m then 1 / 2 else 0)) * 2 powi (q div 2 - 26)))"

text \<open>The order of numbers as a key (two zeros are equal), \<open>f32::max\<close> and the casts.\<close>

definition f32_key :: "f32 \<Rightarrow> int" where
  "f32_key w = (let m = uint (w AND 0x7FFFFFFF) in if bit w 31 then - m else m)"

definition f32_max :: "f32 \<Rightarrow> f32 \<Rightarrow> f32" where
  "f32_max a b =
     (if f32_is_nan a then b else if f32_is_nan b then a
      else if f32_key a < f32_key b then b else a)"

definition f32_of_nat :: "nat \<Rightarrow> f32" where "f32_of_nat n = f32_round False (of_nat n)"

definition f32_clamp :: "f32 \<Rightarrow> f32 \<Rightarrow> f32 \<Rightarrow> f32" where
  "f32_clamp lo hi w =
     (if f32_is_nan w then w
      else if f32_key w < f32_key lo then lo else if f32_key hi < f32_key w then hi else w)"

text \<open>\<open>as\<close> truncates and saturates; what is not a number becomes zero.\<close>

definition f32_to_int :: "int \<Rightarrow> int \<Rightarrow> f32 \<Rightarrow> int" where
  "f32_to_int lo hi w =
     (if f32_is_nan w then 0
      else if f32_is_inf w then (if f32_sign w then lo else hi)
      else
        let t = (if f32_sign w then - \<lfloor>f32_magnitude w\<rfloor> else \<lfloor>f32_magnitude w\<rfloor>)
        in max lo (min t hi))"

definition f32_to_i32 :: "f32 \<Rightarrow> int" where "f32_to_i32 w = f32_to_int (- (2 ^ 31)) (2 ^ 31 - 1) w"

text \<open>\<open>iter().sum()\<close> starts at minus zero.\<close>

definition f32_sum :: "f32 list \<Rightarrow> f32" where "f32_sum xs = foldl f32_add 0x80000000 xs"

section \<open>First facts\<close>

text \<open>Known results: a tenth and two tenths, a third, three halves, the root of two, the first
  integer that does not fit, overflow, a subnormal result, and a saturating cast.\<close>

lemma f32_examples:
  "f32_add 0x3DCCCCCD 0x3E4CCCCD = 0x3E99999A" "f32_round False (1 / 3) = 0x3EAAAAAB"
  "f32_div 0x40400000 0x40000000 = 0x3FC00000"
  "f32_sqrt 0x40000000 = 0x3FB504F3" "f32_round False 16777217 = 0x4B800000"
  "f32_mul 0x7F7FFFFF 0x40000000 = 0x7F800000" "f32_mul 0x00800001 0x3F000000 = 0x00400000"
  "f32_to_i32 0xCF800000 = - (2 ^ 31)"
  by code_simp+

lemma f32_add_commute: "f32_add a b = f32_add b a"
  unfolding f32_add_def Let_def
  by (cases "f32_is_nan a"; cases "f32_is_nan b"; cases "f32_is_inf a"; cases "f32_is_inf b")
    (simp_all add: add.commute conj_commute eq_commute [of a b] del: add_eq_0_iff)

lemma f32_mul_commute: "f32_mul a b = f32_mul b a"
proof -
  have "(f32_sign a \<noteq> f32_sign b) = (f32_sign b \<noteq> f32_sign a)" by blast
  then show ?thesis
    unfolding f32_mul_def Let_def by (simp only: mult.commute disj_commute)
qed

section \<open>Logarithm and root\<close>

lemma int_bits_nonneg: "0 \<le> int_bits n"
proof (induction n rule: int_bits.induct)
  case (1 n)
  then show ?case by (simp add: int_bits.simps [of n])
qed

lemma int_bits_pos: "0 < n \<Longrightarrow> 0 < int_bits n"
  using int_bits_nonneg [of "n div 2"] by (simp add: int_bits.simps [of n])

lemma int_bits_bounds: "0 < n \<Longrightarrow> 2 ^ nat (int_bits n - 1) \<le> n \<and> n < 2 ^ nat (int_bits n)"
proof (induction n rule: int_bits.induct)
  case (1 n)
  show ?case
  proof (cases "n = 1")
    case True
    then show ?thesis by (simp add: int_bits.simps)
  next
    case False
    then have n: "0 < n div 2" using 1(2) by auto
    then have ih: "2 ^ nat (int_bits (n div 2) - 1) \<le> n div 2" "n div 2 < 2 ^ nat (int_bits (n div 2))"
      using 1 by auto
    obtain k where k: "int_bits (n div 2) = int (Suc k)"
      using int_bits_pos [OF n] by (metis gr0_conv_Suc zero_less_imp_eq_int)
    have "int_bits n = int (Suc (Suc k))" using 1(2) k by (simp add: int_bits.simps [of n])
    then show ?thesis using ih unfolding k by (simp add: nat_add_distrib) linarith
  qed
qed

lemma isqrt_bounds: "0 \<le> n \<Longrightarrow> 0 \<le> isqrt n \<and> isqrt n * isqrt n \<le> n \<and> n < (isqrt n + 1) * (isqrt n + 1)"
proof (induction n rule: isqrt.induct)
  case (1 n)
  show ?case
  proof (cases "n = 0")
    case True
    then show ?thesis by (simp add: isqrt.simps)
  next
    case False
    define r where "r = isqrt (n div 4)"
    have "0 \<le> r" "r * r \<le> n div 4" "n div 4 < (r + 1) * (r + 1)" using 1 False by (auto simp: r_def)
    then have "0 \<le> r" "4 * (r * r) \<le> n" "n < 4 * ((r + 1) * (r + 1))" by linarith+
    then show ?thesis
      using False 1(2) by (simp add: isqrt.simps [of n] Let_def r_def [symmetric] algebra_simps)
  qed
qed

lemma powi_mono: "a \<le> b \<Longrightarrow> (2::rat) powi a \<le> 2 powi b"
  by (simp add: power_int_increasing)

lemma powi_less: "(2::rat) powi a < 2 powi b \<longleftrightarrow> a < b"
  by (meson linorder_not_le one_less_numeral_iff power_int_strict_increasing powi_mono semiring_norm(76))

lemma of_int_pow_le: "2 ^ k \<le> n \<Longrightarrow> (2::rat) ^ k \<le> of_int n"
  by (metis of_int_le_iff of_int_numeral of_int_power)

lemma of_int_pow_less: "n < 2 ^ k \<Longrightarrow> of_int n < (2::rat) ^ k"
  by (metis of_int_less_iff of_int_numeral of_int_power)

lemma int_bits_powi:
  assumes "0 < n"
  shows "2 powi (int_bits n - 1) \<le> (of_int n :: rat) \<and> (of_int n :: rat) < 2 powi int_bits n"
proof -
  have "int_bits n - 1 = int (nat (int_bits n - 1))" "int_bits n = int (nat (int_bits n))"
    using int_bits_pos [OF assms] by simp_all
  then show ?thesis
    using int_bits_bounds [OF assms] of_int_pow_le of_int_pow_less by (metis power_int_of_nat)
qed

lemma rat_log2_bounds:
  assumes "0 < m"
  shows "2 powi rat_log2 m \<le> m \<and> m < 2 powi (rat_log2 m + 1)"
proof -
  obtain a b where ab: "quotient_of m = (a, b)" by fastforce
  then have b: "0 < b" and m: "m = of_int a / of_int b"
    using quotient_of_denom_pos quotient_of_div by auto
  then have a: "0 < a" using assms by (simp add: zero_less_divide_iff)
  define e where "e = int_bits a - int_bits b"
  note bounds = int_bits_powi [OF a] int_bits_powi [OF b]
  have "m < 2 powi int_bits a / 2 powi (int_bits b - 1)"
    unfolding m using bounds a b by (intro frac_less) auto
  also have "\<dots> = 2 powi (e + 1)" by (simp add: e_def algebra_simps flip: power_int_diff)
  finally have up: "m < 2 powi (e + 1)" .
  have "2 powi (e - 1) = 2 powi (int_bits a - 1) / (2::rat) powi int_bits b"
    by (simp add: e_def algebra_simps flip: power_int_diff)
  also have "\<dots> < m" unfolding m using bounds a b by (intro frac_less2) auto
  finally have low: "2 powi (e - 1) < m" .
  show ?thesis using up low by (auto simp: rat_log2_def ab e_def Let_def not_le)
qed

lemma rat_log2_unique:
  assumes "2 powi e \<le> m" "m < 2 powi (e + 1)"
  shows "rat_log2 m = e"
proof -
  have "0 < (2::rat) powi e" by simp
  then have m: "0 < m" using assms(1) by linarith
  have "(2::rat) powi rat_log2 m < 2 powi (e + 1)" "(2::rat) powi e < 2 powi (rat_log2 m + 1)"
    using rat_log2_bounds [OF m] assms by linarith+
  then show ?thesis by (simp add: powi_less)
qed

section \<open>Rounding gives a finite number back\<close>

lemma f32_fields:
  "0 \<le> f32_frac w" "f32_frac w < 2 ^ 23" "0 \<le> f32_exp w" "f32_exp w < 2 ^ 8"
  by (simp_all add: f32_frac_def f32_exp_def)

lemma f32_uint: "uint w = (if f32_sign w then 2 ^ 31 else 0) + f32_exp w * 2 ^ 23 + f32_frac w"
proof -
  have lt: "uint w < 2 ^ 32" using unsigned_less [of w] by simp
  have "f32_sign w \<longleftrightarrow> odd (uint w div 2 ^ 31)"
    using bit_unsigned_iff [of w 31, where ?'a = int] by (simp add: f32_sign_def bit_iff_odd [of "uint w"])
  moreover have "uint w div 2 ^ 31 = 0 \<or> uint w div 2 ^ 31 = 1"
    using lt zdiv_mono1 [of "uint w" "2 ^ 32 - 1" "2 ^ 31"] pos_imp_zdiv_nonneg_iff [of "2 ^ 31" "uint w"] by auto
  ultimately have top: "uint w div 2 ^ 31 = (if f32_sign w then 1 else 0)" by auto
  have "uint w div 2 ^ 23 = uint w div 2 ^ 31 * 2 ^ 8 + uint w div 2 ^ 23 mod 2 ^ 8"
    using div_mult_mod_eq [of "uint w div 2 ^ 23" "2 ^ 8"] by (simp flip: zdiv_zmult2_eq)
  moreover have "uint w = uint w div 2 ^ 23 * 2 ^ 23 + uint w mod 2 ^ 23" by simp
  ultimately show ?thesis
    unfolding top f32_exp_def [symmetric] f32_frac_def [symmetric] by (simp split: if_splits)
qed

lemma f32_rebuild:
  "f32_signed (f32_sign w) (word_of_int (f32_exp w * 2 ^ 23 + f32_frac w)) = w"
proof -
  let ?r = "f32_exp w * 2 ^ 23 + f32_frac w"
  have "w = word_of_int (uint w)" by simp
  also have "\<dots> = word_of_int ((if f32_sign w then 2 ^ 31 else 0) + ?r)"
    by (subst f32_uint) (simp add: add.assoc)
  also have "\<dots> = f32_signed (f32_sign w) (word_of_int ?r)" by (simp add: f32_signed_def add.commute)
  finally show ?thesis by simp
qed

lemma round_half_even_of_int [simp]: "round_half_even (of_int n) = n"
  by (simp add: round_half_even_def)

text \<open>The logarithm of a magnitude.\<close>

lemma rat_log2_scaled:
  assumes "2 ^ k \<le> n" "n < 2 ^ Suc k"
  shows "rat_log2 (of_int n * 2 powi q) = int k + q"
proof (rule rat_log2_unique)
  show "2 powi (int k + q) \<le> (of_int n * 2 powi q :: rat)"
    and "(of_int n * 2 powi q :: rat) < 2 powi (int k + q + 1)"
    using of_int_pow_le [OF assms(1)] of_int_pow_less [OF assms(2)] by (simp_all add: power_int_add)
qed

lemma rat_log2_small:
  assumes "0 < n" "n < 2 ^ k"
  shows "rat_log2 (of_int n * 2 powi q) < int k + q"
proof -
  have pos: "0 < of_int n * (2::rat) powi q" using assms(1) by simp
  have "of_int n * 2 powi q < (2::rat) powi (int k + q)"
    using of_int_pow_less [OF assms(2)] by (simp add: power_int_add)
  then have "(2::rat) powi rat_log2 (of_int n * 2 powi q) < 2 powi (int k + q)"
    using rat_log2_bounds [OF pos] by linarith
  then show ?thesis by (simp add: powi_less)
qed

lemma f32_round_exact:
  assumes "f32_finite w"
  shows "f32_round (f32_sign w) (f32_magnitude w) = w"
proof (cases "f32_significand w = 0")
  case True
  then have "f32_exp w = 0" "f32_frac w = 0"
    using f32_fields [of w] by (auto simp: f32_significand_def split: if_splits)
  then show ?thesis
    using True f32_rebuild [of w] by (simp add: f32_round_def f32_magnitude_def)
next
  case False
  let ?n = "f32_significand w" and ?q = "f32_scale w"
  have m: "f32_magnitude w \<noteq> 0" using False by (simp add: f32_magnitude_def)
  have q: "max (rat_log2 (f32_magnitude w) - 23) (- 149) = ?q"
  proof (cases "f32_exp w = 0")
    case True
    then have "rat_log2 (f32_magnitude w) < 23 + ?q"
      using False rat_log2_small [of ?n 23 ?q] f32_fields [of w]
      by (simp add: f32_magnitude_def f32_significand_def)
    then show ?thesis using True by (simp add: f32_scale_def)
  next
    case e: False
    then have "rat_log2 (f32_magnitude w) = 23 + ?q"
      using rat_log2_scaled [of 23 ?n ?q] f32_fields [of w]
      by (simp add: f32_magnitude_def f32_significand_def)
    then show ?thesis using e f32_fields(3) [of w] by (simp add: f32_scale_def)
  qed
  have "f32_magnitude w / 2 powi ?q = of_int ?n" by (simp add: f32_magnitude_def)
  then have n: "round_half_even (f32_magnitude w / 2 powi ?q) = ?n"
    using round_half_even_of_int by metis
  have bits: "(?q + 149) * 2 ^ 23 + ?n = f32_exp w * 2 ^ 23 + f32_frac w"
    using f32_fields(3) [of w]
    by (auto simp: f32_scale_def f32_significand_def max_def algebra_simps)
  have "f32_exp w * 2 ^ 23 + f32_frac w < 255 * 2 ^ 23"
    using assms f32_fields(2) [of w] by (simp add: f32_finite_def)
  then have "min ((?q + 149) * 2 ^ 23 + ?n) 0x7F800000 = f32_exp w * 2 ^ 23 + f32_frac w"
    unfolding bits by simp
  then show ?thesis
    using m by (simp only: f32_round_def q n if_False Let_def f32_rebuild)
qed

section \<open>The key orders the numbers\<close>

text \<open>A magnitude as a whole number of the least units.\<close>

definition f32_units :: "f32 \<Rightarrow> int" where
  "f32_units w = f32_significand w * 2 ^ nat (max 1 (f32_exp w) - 1)"

lemma f32_magnitude_units: "f32_magnitude w = of_int (f32_units w) * 2 powi (- 149)"
proof -
  have "f32_scale w = int (nat (max 1 (f32_exp w) - 1)) + - 149" by (simp add: f32_scale_def)
  then have "(2 :: rat) powi f32_scale w = 2 ^ nat (max 1 (f32_exp w) - 1) * 2 powi (- 149)"
    by (metis power_int_add power_int_of_nat zero_neq_numeral)
  then show ?thesis by (simp add: f32_magnitude_def f32_units_def)
qed

definition f32_bits :: "f32 \<Rightarrow> int" where "f32_bits w = f32_exp w * 2 ^ 23 + f32_frac w"

lemma f32_bits_fields: "f32_exp w = f32_bits w div 2 ^ 23" "f32_frac w = f32_bits w mod 2 ^ 23"
  using f32_fields(1,2) [of w] by (simp_all add: f32_bits_def)

lemma f32_key_bits: "f32_key w = (if f32_sign w then - f32_bits w else f32_bits w)"
proof -
  have "w AND 0x7FFFFFFF = take_bit 31 w" by (simp add: take_bit_eq_mask mask_eq_exp_minus_1)
  then have "uint (w AND 0x7FFFFFFF) = take_bit 31 (uint w)"
    by (simp only: unsigned_take_bit_eq)
  also have "\<dots> = uint w mod 2 ^ 31" by (rule take_bit_eq_mod)
  also have "\<dots> = f32_bits w mod 2 ^ 31"
    by (subst f32_uint) (simp add: f32_bits_def add.assoc)
  also have "\<dots> = f32_bits w"
    using f32_fields [of w] by (intro mod_pos_pos_trivial) (simp_all add: f32_bits_def)
  finally show ?thesis by (simp add: f32_key_def f32_sign_def)
qed

lemma f32_units_nonneg: "0 \<le> f32_units w" "0 \<le> f32_bits w"
  using f32_fields [of w] by (simp_all add: f32_units_def f32_significand_def f32_bits_def)

lemma f32_units_less:
  assumes "f32_bits v < f32_bits w"
  shows "f32_units v < f32_units w"
proof -
  note f = f32_fields [of v] f32_fields [of w]
  have "f32_exp v \<le> f32_exp w"
    unfolding f32_bits_fields using assms by (intro zdiv_mono1) simp_all
  then consider "f32_exp v = f32_exp w" "f32_frac v < f32_frac w" | "f32_exp v < f32_exp w"
    using assms by (fastforce simp: f32_bits_def)
  then show ?thesis
  proof cases
    case 1
    then show ?thesis by (simp add: f32_units_def f32_significand_def)
  next
    case 2
    let ?e = "\<lambda>u. nat (max 1 (f32_exp u) - 1)"
    have sw: "2 ^ 23 \<le> f32_significand w" using 2 f by (simp add: f32_significand_def)
    show ?thesis
    proof (cases "f32_exp v = 0")
      case True
      then have "f32_units v < 2 ^ 23" using f by (simp add: f32_units_def f32_significand_def)
      also have "\<dots> \<le> f32_units w" using sw unfolding f32_units_def by (intro order_trans [OF sw]) simp
      finally show ?thesis .
    next
      case False
      then have v: "f32_significand v < 2 ^ 24" and e: "Suc (?e v) \<le> ?e w"
        using 2 f by (auto simp: f32_significand_def)
      have "f32_units v < 2 ^ 24 * 2 ^ ?e v" unfolding f32_units_def using v by simp
      also have "\<dots> = 2 ^ 23 * 2 ^ Suc (?e v)" by simp
      also have "\<dots> \<le> 2 ^ 23 * 2 ^ ?e w" using power_increasing [OF e, of "2 :: int"] by simp
      also have "\<dots> \<le> f32_units w" unfolding f32_units_def using sw by simp
      finally show ?thesis .
    qed
  qed
qed

lemma f32_units_le_iff: "f32_units v \<le> f32_units w \<longleftrightarrow> f32_bits v \<le> f32_bits w"
proof (cases "f32_bits v = f32_bits w")
  case True
  then have "f32_exp v = f32_exp w \<and> f32_frac v = f32_frac w" by (simp add: f32_bits_fields)
  then show ?thesis using True by (simp add: f32_units_def f32_significand_def)
next
  case False
  then show ?thesis using f32_units_less [of v w] f32_units_less [of w v] by linarith
qed

lemma f32_bits_zero: "f32_bits w = 0 \<longleftrightarrow> f32_units w = 0"
proof -
  have "f32_exp 0 = 0" "f32_frac 0 = 0" by (simp_all add: f32_exp_def f32_frac_def)
  then have "f32_bits 0 = 0" "f32_units 0 = 0"
    by (simp_all add: f32_bits_def f32_units_def f32_significand_def)
  then show ?thesis
    using f32_units_le_iff [of w 0] f32_units_nonneg [of w] by linarith
qed

text \<open>Comparing keys is comparing numbers, and both zeros are equal.\<close>

lemma f32_key_le_val: "f32_key v \<le> f32_key w \<longleftrightarrow> f32_val v \<le> f32_val w"
proof -
  let ?u = "\<lambda>u. if f32_sign u then - f32_units u else f32_units u"
  have pos: "(0 :: rat) < 2 powi (- 149)" by simp
  have "f32_val u = of_int (?u u) * 2 powi (- 149)" for u
    by (simp add: f32_val_def f32_magnitude_units)
  then have "f32_val v \<le> f32_val w \<longleftrightarrow> (of_int (?u v) :: rat) \<le> of_int (?u w)"
    using mult_le_cancel_right_pos [OF pos] by metis
  also have "\<dots> \<longleftrightarrow> ?u v \<le> ?u w" by (rule of_int_le_iff)
  also have "\<dots> \<longleftrightarrow> f32_key v \<le> f32_key w"
    using f32_units_le_iff [of v w] f32_units_le_iff [of w v] f32_units_nonneg [of v] f32_units_nonneg [of w]
      f32_bits_zero [of v] f32_bits_zero [of w]
    unfolding f32_key_bits by (auto split: if_splits)
  finally show ?thesis by simp
qed

end
