(* ===== verification/Semantic_Store.thy ===== *)
theory Semantic_Store
  imports Ukg_Queries Float32
begin

text \<open>
  \<open>precall-store/src/semantic.rs\<close>: one \<open>si_*\<close> vector store. An \<open>f32\<close> is its bit pattern, with the
  arithmetic of \<open>Float32\<close>; the order of the scores is the one of \<open>partial_cmp\<close> on numbers that are
  not NaN (a NaN compares as equal to everything in the code, which is no order to sort by). The handle's dimension is a field of
  the record, the tables are the others.
\<close>

section \<open>Encodings\<close>

definition f32s_to_bytes :: "f32 list \<Rightarrow> bytes" where
  "f32s_to_bytes v = concat (map (le_bytes 4) v)"

fun bytes_to_f32s :: "bytes \<Rightarrow> f32 list" where
  "bytes_to_f32s (a # b # c # d # rest) = le_word [a, b, c, d] # bytes_to_f32s rest"
| "bytes_to_f32s _ = []"

definition item_id_for_capture :: "int \<Rightarrow> bytes" where
  "item_id_for_capture capture_id = replicate 8 0 @ le_bytes 8 (word_of_int capture_id :: u64)"

definition capture_id_for_item :: "bytes \<Rightarrow> int option" where
  "capture_id_for_item item_id =
     (if length item_id \<noteq> 16 \<or> list_ex (\<lambda>b. b \<noteq> 0) (take 8 item_id) then None
      else Some (sint (le_word (drop 8 item_id) :: u64)))"

text \<open>\<open>norm\<close> is at least \<open>f32::EPSILON\<close>. \<open>cosine\<close> with the query's norm at hand.\<close>

definition F32_EPSILON :: f32 where "F32_EPSILON = 0x34000000"

definition vec_norm :: "f32 list \<Rightarrow> f32" where
  "vec_norm v = f32_max (f32_sqrt (f32_sum (map (\<lambda>x. f32_mul x x) v))) F32_EPSILON"

definition cosine :: "f32 list \<Rightarrow> f32 \<Rightarrow> f32 list \<Rightarrow> f32" where
  "cosine query qnorm other =
     f32_div (f32_sum (map2 f32_mul query other)) (f32_mul qnorm (vec_norm other))"

definition cosine_score :: "f32 list \<Rightarrow> f32 list \<Rightarrow> f32" where
  "cosine_score query emb = cosine query (vec_norm query) emb"

section \<open>State\<close>

definition SPACE_UNKNOWN :: string where "SPACE_UNKNOWN = ''unknown''"

datatype semantic_error =
    SemSql string
  | DimMismatch nat nat
  | BadItemId

record embedding_metadata =
  em_embedding_id :: int
  em_item_id :: bytes
  em_region_id :: "string option"
  em_metadata_json :: "string option"

record semantic_index =
  si_dim :: nat
  si_items :: "bytes list"
  si_graph :: "bytes table"
  si_metadata :: "embedding_metadata table"
  si_info :: "(nat \<times> string option) list"
  si_config :: bool

record embedding_hit =
  eh_item_id :: bytes
  eh_region_id :: "string option"
  eh_score :: f32

definition semantic_new :: semantic_index where
  "semantic_new = \<lparr>si_dim = 0, si_items = [], si_graph = tbl_empty, si_metadata = tbl_empty,
     si_info = [], si_config = False\<rparr>"

section \<open>Operations\<close>

definition ensure_info :: "string \<Rightarrow> semantic_index \<Rightarrow> semantic_index" where
  "ensure_info space_id idx =
     (let idx1 = (if si_info idx = [] then idx\<lparr>si_info := [(si_dim idx, Some space_id)]\<rparr> else idx)
      in idx1\<lparr>si_config := True\<rparr>)"

text \<open>Opening an existing file keeps its tables and takes the dimension of the call.\<close>

definition semantic_open :: "nat \<Rightarrow> string \<Rightarrow> semantic_index \<Rightarrow> semantic_index" where
  "semantic_open width space_id db = ensure_info space_id (db\<lparr>si_dim := width\<rparr>)"

definition space_id :: "semantic_index \<Rightarrow> string option" where
  "space_id idx = (case si_info idx of [] \<Rightarrow> None | (d, s) # _ \<Rightarrow> s)"

definition set_space_id :: "string \<Rightarrow> semantic_index \<Rightarrow> semantic_index" where
  "set_space_id s idx =
     (let upd = (\<lambda>i. i\<lparr>si_info := map (\<lambda>(d, _). (d, Some s)) (si_info i)\<rparr>)
      in if si_info idx = [] then upd (ensure_info s idx) else upd idx)"

definition semantic_clear :: "semantic_index \<Rightarrow> semantic_index" where
  "semantic_clear idx =
     idx\<lparr>si_metadata := tbl_delete_all (si_metadata idx), si_graph := tbl_delete_all (si_graph idx),
         si_items := []\<rparr>"

definition semantic_insert ::
  "bytes \<Rightarrow> string option \<Rightarrow> string option \<Rightarrow> f32 list \<Rightarrow> semantic_index
     \<Rightarrow> (semantic_error + int) \<times> semantic_index" where
  "semantic_insert item_id region_id metadata_json embedding idx =
     (if length embedding \<noteq> si_dim idx then (Inl (DimMismatch (si_dim idx) (length embedding)), idx)
      else if length item_id \<noteq> 16 then (Inl BadItemId, idx)
      else
        let (graph_id, g) = tbl_insert (f32s_to_bytes embedding) (si_graph idx);
            m = snd (tbl_insert \<lparr>em_embedding_id = graph_id, em_item_id = item_id,
                       em_region_id = region_id, em_metadata_json = metadata_json\<rparr> (si_metadata idx))
        in (Inr graph_id,
            idx\<lparr>si_items := rel_insert_or_ignore item_id (si_items idx), si_graph := g,
                si_metadata := m\<rparr>))"

definition allowed_item :: "int list option \<Rightarrow> bytes \<Rightarrow> bool" where
  "allowed_item allowed item_id =
     (case allowed of
        None \<Rightarrow> True
      | Some a \<Rightarrow> (case capture_id_for_item item_id of None \<Rightarrow> False | Some cid \<Rightarrow> cid \<in> set a))"

text \<open>The join of the graph with its metadata, filtered during the scan.\<close>

definition scan_hits ::
  "f32 list \<Rightarrow> int list option \<Rightarrow> semantic_index \<Rightarrow> embedding_hit list" where
  "scan_hits query allowed idx =
     [\<lparr>eh_item_id = em_item_id m, eh_region_id = em_region_id m,
       eh_score = cosine_score query (bytes_to_f32s blob)\<rparr>.
      (g, blob) \<leftarrow> tbl_rows (si_graph idx), (k, m) \<leftarrow> tbl_rows (si_metadata idx),
      em_embedding_id m = g \<and> allowed_item allowed (em_item_id m)
        \<and> length (bytes_to_f32s blob) = si_dim idx]"

definition semantic_search ::
  "f32 list \<Rightarrow> nat \<Rightarrow> int list option \<Rightarrow> semantic_index
     \<Rightarrow> semantic_error + embedding_hit list" where
  "semantic_search query k allowed idx =
     (if length query \<noteq> si_dim idx then Inl (DimMismatch (si_dim idx) (length query))
      else if allowed = Some [] then Inr []
      else Inr (take k (sort_key (\<lambda>h. - f32_key (eh_score h)) (scan_hits query allowed idx))))"

definition semantic_count :: "semantic_index \<Rightarrow> int" where
  "semantic_count idx = int (length (tbl_rows (si_graph idx)))"

definition has_item :: "bytes \<Rightarrow> semantic_index \<Rightarrow> semantic_error + bool" where
  "has_item item_id idx =
     (if length item_id \<noteq> 16 then Inl BadItemId
      else Inr (list_ex (\<lambda>i. i = item_id \<and>
             list_ex (\<lambda>(k, m). em_item_id m = i \<and> em_embedding_id m \<in> set (tbl_ids (si_graph idx)))
               (tbl_rows (si_metadata idx)))
           (si_items idx)))"

section \<open>Lemmas on encodings\<close>

lemma bytes_to_f32s_append: "bytes_to_f32s (le_bytes 4 w @ bs) = w # bytes_to_f32s bs"
proof -
  have "le_word (le_bytes 4 w) = w" by simp
  then show ?thesis by (simp add: le_bytes_4)
qed

lemma f32s_roundtrip: "bytes_to_f32s (f32s_to_bytes v) = v"
  by (induction v) (simp_all add: f32s_to_bytes_def bytes_to_f32s_append)

lemma length_item_id [simp]: "length (item_id_for_capture i) = 16"
  by (simp add: item_id_for_capture_def)

lemma item_id_roundtrip: "i64_range i \<Longrightarrow> capture_id_for_item (item_id_for_capture i) = Some i"
  by (simp add: capture_id_for_item_def item_id_for_capture_def i64_range_def list_ex_iff
      int_word_sint)

lemma item_id_inj: "i64_range i \<Longrightarrow> i64_range j \<Longrightarrow> item_id_for_capture i = item_id_for_capture j \<longleftrightarrow> i = j"
  using item_id_roundtrip by (metis option.inject)

section \<open>Integrity\<close>

definition si_ok :: "semantic_index \<Rightarrow> bool" where
  "si_ok idx \<longleftrightarrow>
     tbl_ok (si_graph idx) \<and> tbl_ok (si_metadata idx) \<and> distinct (si_items idx)
     \<and> set (map (\<lambda>(k, m). em_item_id m) (tbl_rows (si_metadata idx))) = set (si_items idx)
     \<and> map (\<lambda>(k, m). em_embedding_id m) (tbl_rows (si_metadata idx)) = tbl_ids (si_graph idx)"

lemma si_ok_new [simp]: "si_ok semantic_new"
  by (simp add: si_ok_def semantic_new_def) (simp add: tbl_empty_def)

lemma si_ok_open: "si_ok db \<Longrightarrow> si_ok (semantic_open width s db)"
  by (simp add: si_ok_def semantic_open_def ensure_info_def Let_def)

lemma si_ok_set_space: "si_ok idx \<Longrightarrow> si_ok (set_space_id s idx)"
  by (simp add: si_ok_def set_space_id_def ensure_info_def Let_def)

lemma si_ok_clear: "si_ok idx \<Longrightarrow> si_ok (semantic_clear idx)"
  by (auto simp: si_ok_def semantic_clear_def tbl_delete_all_def tbl_ok_def tbl_ids_def)

lemma si_ok_insert:
  assumes "si_ok idx" "semantic_insert item reg mj emb idx = (r, idx')"
  shows "si_ok idx'"
proof (cases "length emb = si_dim idx \<and> length item = 16")
  case False
  then show ?thesis using assms by (auto simp: semantic_insert_def split: if_splits)
next
  case True
  then have idx': "idx' = idx\<lparr>si_items := rel_insert_or_ignore item (si_items idx),
      si_graph := snd (tbl_insert (f32s_to_bytes emb) (si_graph idx)),
      si_metadata := snd (tbl_insert \<lparr>em_embedding_id = tbl_seq (si_graph idx) + 1, em_item_id = item,
          em_region_id = reg, em_metadata_json = mj\<rparr> (si_metadata idx))\<rparr>"
    using assms(2) by (auto simp: semantic_insert_def tbl_insert_def)
  show ?thesis
    using assms(1) unfolding si_ok_def idx'
    by (auto simp: tbl_ok_insert tbl_ids_insert rel_insert_or_ignore_def)
      (auto simp: tbl_insert_def)
qed

text \<open>In a sound store an item is present exactly when a metadata row names it.\<close>

lemma has_item_iff:
  assumes "si_ok idx" "length item = 16"
  shows "has_item item idx = Inr (item \<in> set (si_items idx))"
proof -
  have meta: "em_embedding_id m \<in> set (tbl_ids (si_graph idx))" if "(k, m) \<in> set (tbl_rows (si_metadata idx))" for k m
  proof -
    have "em_embedding_id m \<in> set (map (\<lambda>(k, m). em_embedding_id m) (tbl_rows (si_metadata idx)))"
      using that by force
    then show ?thesis using assms(1) unfolding si_ok_def by metis
  qed
  have item: "item \<in> set (si_items idx) \<longleftrightarrow> (\<exists>k m. (k, m) \<in> set (tbl_rows (si_metadata idx)) \<and> em_item_id m = item)"
    using assms(1) by (force simp: si_ok_def)
  show ?thesis
    using assms(2) item meta by (auto simp: has_item_def list_ex_iff) 
qed

lemma has_item_new_clear: "si_ok idx \<Longrightarrow> length item = 16 \<Longrightarrow> has_item item (semantic_clear idx) = Inr False"
  using has_item_iff [OF si_ok_clear] by (simp add: semantic_clear_def)

lemma items_set_space [simp]: "si_items (set_space_id s idx) = si_items idx"
  by (simp add: set_space_id_def ensure_info_def Let_def)

lemma dim_set_space [simp]: "si_dim (set_space_id s idx) = si_dim idx"
  by (simp add: set_space_id_def ensure_info_def Let_def)

lemma space_set_space [simp]: "space_id (set_space_id s idx) = Some s"
  by (cases "si_info idx") (auto simp: space_id_def set_space_id_def ensure_info_def Let_def)

lemma insert_Inr:
  "semantic_insert item reg mj emb idx = (Inr g, idx') \<Longrightarrow>
     length emb = si_dim idx \<and> length item = 16 \<and> si_items idx' = rel_insert_or_ignore item (si_items idx)
     \<and> si_dim idx' = si_dim idx \<and> si_info idx' = si_info idx"
  by (auto simp: semantic_insert_def tbl_insert_def split: if_splits)

lemma insert_succeeds:
  "length emb = si_dim idx \<Longrightarrow> length item = 16 \<Longrightarrow>
     \<exists>g idx'. semantic_insert item reg mj emb idx = (Inr g, idx')"
  by (simp add: semantic_insert_def split_beta Let_def)

section \<open>Lemmas on search\<close>

lemma scan_hits_allowed: "h \<in> set (scan_hits q allowed idx) \<Longrightarrow> allowed_item allowed (eh_item_id h)"
  by (auto simp: scan_hits_def split: if_splits)

lemma allowed_none: "\<not> allowed_item (Some []) i"
  by (simp add: allowed_item_def split: option.splits)

lemma allowed_empty: "allowed = Some [] \<Longrightarrow> scan_hits q allowed idx = []"
  using scan_hits_allowed [of "hd (scan_hits q allowed idx)" q allowed idx] allowed_none
  by (metis hd_in_set)

lemma semantic_search_take:
  "length q = si_dim idx \<Longrightarrow> semantic_search q k allowed idx
     = Inr (take k (sort_key (\<lambda>h. - f32_key (eh_score h)) (scan_hits q allowed idx)))"
  using allowed_empty [of allowed q idx] by (simp add: semantic_search_def)

lemma concat_map_singleton:
  assumes "\<And>x. x \<in> set xs \<Longrightarrow> f x = []"
  shows "concat (map f xs) = []"
  using assms by simp

lemma scan_hits_after_insert:
  assumes ok: "si_ok idx" and len: "length emb = si_dim idx"
    and none: "\<forall>i \<in> set (si_items idx). \<not> allowed_item allowed i"
    and allowed: "allowed_item allowed item"
    and ins: "semantic_insert item reg mj emb idx = (Inr g, idx')"
  shows "scan_hits q allowed idx'
     = [\<lparr>eh_item_id = item, eh_region_id = reg, eh_score = cosine_score q emb\<rparr>]"
proof -
  have g: "g = tbl_seq (si_graph idx) + 1" and dm: "si_dim idx' = si_dim idx"
    and graph: "tbl_rows (si_graph idx') = tbl_rows (si_graph idx) @ [(g, f32s_to_bytes emb)]"
    and meta: "tbl_rows (si_metadata idx') = tbl_rows (si_metadata idx)
      @ [(tbl_seq (si_metadata idx) + 1, \<lparr>em_embedding_id = g, em_item_id = item,
            em_region_id = reg, em_metadata_json = mj\<rparr>)]"
    using ins by (auto simp: semantic_insert_def tbl_insert_def split: if_splits)
  have fresh: "g \<notin> set (tbl_ids (si_graph idx))"
    using ok tbl_new_id [of "si_graph idx"] g by (simp add: si_ok_def)
  have old: "\<not> allowed_item allowed (em_item_id m) \<and> em_embedding_id m \<noteq> g"
    if "(k, m) \<in> set (tbl_rows (si_metadata idx))" for k m
  proof -
    have "em_item_id m \<in> set (map (\<lambda>(k, m). em_item_id m) (tbl_rows (si_metadata idx)))"
      "em_embedding_id m \<in> set (map (\<lambda>(k, m). em_embedding_id m) (tbl_rows (si_metadata idx)))"
      using that by force+
    then have "em_item_id m \<in> set (si_items idx)" "em_embedding_id m \<in> set (tbl_ids (si_graph idx))"
      using ok unfolding si_ok_def by metis+
    then show ?thesis using none fresh by blast
  qed
  have oldg: "i \<noteq> g" if "(i, b) \<in> set (tbl_rows (si_graph idx))" for i b
    using that fresh by (force simp: tbl_ids_def)
  let ?row = "\<lambda>i blob (k, m). if em_embedding_id m = i \<and> allowed_item allowed (em_item_id m)
      \<and> length (bytes_to_f32s blob) = si_dim idx'
    then [\<lparr>eh_item_id = em_item_id m, eh_region_id = em_region_id m,
           eh_score = cosine_score q (bytes_to_f32s blob)\<rparr>] else []"
  have oldm: "concat (map (?row i blob) (tbl_rows (si_metadata idx))) = []" for i blob
    using old by (intro concat_map_singleton) auto
  have "concat (map (?row i blob) (tbl_rows (si_metadata idx'))) = []"
    if "(i, blob) \<in> set (tbl_rows (si_graph idx))" for i blob
    using oldm [of i blob] oldg [OF that] by (simp add: meta)
  then have "concat (map (\<lambda>(i, blob). concat (map (?row i blob) (tbl_rows (si_metadata idx'))))
      (tbl_rows (si_graph idx))) = []"
    by (intro concat_map_singleton) auto
  moreover have "concat (map (?row g (f32s_to_bytes emb)) (tbl_rows (si_metadata idx')))
      = [\<lparr>eh_item_id = item, eh_region_id = reg, eh_score = cosine_score q emb\<rparr>]"
    using oldm [of g "f32s_to_bytes emb"] allowed len dm by (simp add: meta f32s_roundtrip)
  ultimately show ?thesis
    by (simp add: scan_hits_def graph)
qed

section \<open>Properties\<close>

text \<open>Vectors and ids survive storage: the blob of a vector reads back as the same bits and
  the 16-byte item id of a capture decodes to the capture, so distinct captures never share
  an item.\<close>

lemma embedding_blob_roundtrip:
  assumes "i64_range i" "i64_range j"
  shows "bytes_to_f32s (f32s_to_bytes v) = v \<and> length (f32s_to_bytes v) = 4 * length v
     \<and> capture_id_for_item (item_id_for_capture i) = Some i
     \<and> (item_id_for_capture i = item_id_for_capture j \<longleftrightarrow> i = j)"
proof -
  have "length (f32s_to_bytes v) = 4 * length v"
    by (induction v) (simp_all add: f32s_to_bytes_def)
  then show ?thesis
    using f32s_roundtrip item_id_roundtrip [OF assms(1)] item_id_inj [OF assms] by simp
qed

text \<open>Inserting an embedding is all or nothing, and what was inserted can be found: a vector
  of another width or an id of another length changes nothing, any other insertion succeeds,
  keeps the store sound and makes \<open>has_item\<close> true; and a search restricted to a set with no
  other stored capture answers this embedding, however many others score better.\<close>

lemma semantic_insert_searchable:
  assumes "si_ok idx" "semantic_insert item reg mj emb idx = (r, idx')"
  shows "(\<not> is_ok r \<longrightarrow> idx' = idx \<and> (length emb \<noteq> si_dim idx \<or> length item \<noteq> 16))
     \<and> (is_ok r \<longrightarrow> si_ok idx' \<and> has_item item idx' = Inr True \<and> space_id idx' = space_id idx
          \<and> (length q = si_dim idx \<and> 0 < k \<and> allowed_item allowed item
               \<and> list_all (\<lambda>i. \<not> allowed_item allowed i) (si_items idx) \<longrightarrow>
             semantic_search q k allowed idx'
               = Inr [\<lparr>eh_item_id = item, eh_region_id = reg, eh_score = cosine_score q emb\<rparr>]))"
proof (cases r)
  case (Inl e)
  then show ?thesis
    using assms(2) by (auto simp: semantic_insert_def split_beta Let_def split: if_splits)
next
  case (Inr g)
  then have ins: "semantic_insert item reg mj emb idx = (Inr g, idx')" using assms(2) by simp
  note facts = insert_Inr [OF ins]
  have ok: "si_ok idx'" using si_ok_insert [OF assms] .
  have has: "has_item item idx' = Inr True"
    using has_item_iff [OF ok, of item] facts by (auto simp: rel_insert_or_ignore_def)
  have "semantic_search q k allowed idx'
               = Inr [\<lparr>eh_item_id = item, eh_region_id = reg, eh_score = cosine_score q emb\<rparr>]"
    if "length q = si_dim idx \<and> 0 < k \<and> allowed_item allowed item
               \<and> list_all (\<lambda>i. \<not> allowed_item allowed i) (si_items idx)"
    using that facts semantic_search_take [of q idx' k allowed]
      scan_hits_after_insert [OF assms(1) _ _ _ ins, of allowed q]
    by (auto simp: list_all_iff)
  then show ?thesis using Inr ok has facts by (simp add: space_id_def)
qed

text \<open>C31. Search is exact: it answers the best \<open>k\<close> of the embeddings that pass the filter, best
  first by the number the score stands for. An embedding of an allowed capture is left out only
  when \<open>k\<close> embeddings, all at least as good, are answered; no hit is outside the filter. The scores
  are finite here: a stored vector whose square sum overflows can give a NaN, which the comparison
  of the code calls equal to everything, so that there is no order to sort by.\<close>

theorem semantic_search_exact:
  assumes "semantic_search q k allowed idx = Inr hits"
    and "\<forall>h \<in> set (scan_hits q allowed idx). f32_finite (eh_score h)"
  shows "sorted (map (\<lambda>h. - f32_val (eh_score h)) hits) \<and> length hits \<le> k
     \<and> set hits \<subseteq> set (scan_hits q allowed idx)
     \<and> (\<forall>h \<in> set hits. allowed_item allowed (eh_item_id h))
     \<and> (\<forall>h \<in> set (scan_hits q allowed idx). h \<notin> set hits \<longrightarrow>
          length hits = k \<and> (\<forall>h' \<in> set hits. f32_val (eh_score h) \<le> f32_val (eh_score h')))"
proof -
  let ?f = "\<lambda>h. - f32_key (eh_score h)"
  let ?xs = "sort_key ?f (scan_hits q allowed idx)"
  have "length q = si_dim idx" using assms(1) by (auto simp: semantic_search_def split: if_splits)
  then have hits: "hits = take k ?xs" using assms(1) by (simp add: semantic_search_take)
  have srt: "sorted (map ?f ?xs)" by simp
  then have 1: "sorted (map (\<lambda>h. - f32_val (eh_score h)) hits)"
    using sorted_wrt_take [OF srt, of k] by (simp add: hits take_map sorted_wrt_map f32_key_le_val)
  have 2: "set hits \<subseteq> set (scan_hits q allowed idx)"
    using set_take_subset [of k ?xs] by (simp add: hits)
  have 3: "length hits = k \<and> (\<forall>h' \<in> set hits. f32_val (eh_score h) \<le> f32_val (eh_score h'))"
    if "h \<in> set (scan_hits q allowed idx)" "h \<notin> set hits" for h
    using take_sorted_cut [OF srt, of h k] that by (simp add: hits f32_key_le_val)
  have "length hits \<le> k" by (simp add: hits)
  then show ?thesis using 1 2 3 scan_hits_allowed by blast
qed

theorem semantic_search_exact_witness:
  "sorted (map (\<lambda>h. - f32_val (eh_score h))
     [\<lparr>eh_item_id = item_id_for_capture 2, eh_region_id = None, eh_score = 0x3F800000\<rparr>])
   \<and> semantic_search [0x40400000, 0x40800000] 1 None
     (snd (semantic_insert (item_id_for_capture 2) None None [0x40400000, 0x40800000]
       (semantic_open 2 ''s'' semantic_new)))
   = Inr [\<lparr>eh_item_id = item_id_for_capture 2, eh_region_id = None, eh_score = 0x3F800000\<rparr>]"
proof -
  let ?v = "[0x40400000, 0x40800000] :: f32 list"
  let ?i0 = "semantic_open 2 ''s'' semantic_new"
  have d0: "si_dim ?i0 = 2" "si_items ?i0 = []"
    by (simp_all add: semantic_open_def ensure_info_def Let_def semantic_new_def)
  obtain g i1 where i1: "semantic_insert (item_id_for_capture 2) None None ?v ?i0 = (Inr g, i1)"
    using insert_succeeds [of ?v ?i0 "item_id_for_capture 2" None None] d0 by auto
  have "cosine_score ?v ?v = 0x3F800000" by code_simp
  then have scan: "scan_hits ?v None i1
      = [\<lparr>eh_item_id = item_id_for_capture 2, eh_region_id = None, eh_score = 0x3F800000\<rparr>]"
    using scan_hits_after_insert [OF si_ok_open [OF si_ok_new] _ _ _ i1, of None ?v] d0
    by (simp add: allowed_item_def)
  then have s: "semantic_search ?v 1 None i1
      = Inr [\<lparr>eh_item_id = item_id_for_capture 2, eh_region_id = None, eh_score = 0x3F800000\<rparr>]"
    using semantic_search_take [of ?v i1] insert_Inr [OF i1] d0 by simp
  have "f32_finite 0x3F800000" by code_simp
  then show ?thesis
    using semantic_search_exact [OF s] s i1 scan by simp
qed

end
