(* ===== verification/Broker_Ingest.thy ===== *)
theory Broker_Ingest
  imports Client_Session Access_Control Ukg_Integrity Object_Store Semantic_Store
begin

text \<open>
  The broker (\<open>precall-broker/src/ingest.rs\<close>, \<open>config.rs\<close>, \<open>main.rs\<close>): from the hello of a
  connection to what it leaves in the database and the object store. A session is the stream of
  mux frames it receives; every handler is an action on the session's state that may end the
  session with an error. The JSON parsers, the random nonces and the clock are fields of the
  environment.
\<close>

section \<open>Errors and configuration\<close>

datatype broker_error =
    BrIo string
  | BrTls string
  | BrProto proto_error
  | BrStore ukg_error
  | BrObjects object_error
  | BrSemantic semantic_error
  | BrJson string
  | BrAuthRejected string
  | BrConfig string
  | BrCertGen string

record broker_config =
  bc_listen :: string
  bc_tls_cert :: path
  bc_tls_key :: path
  bc_data_root :: path
  bc_psk_tokens :: "string list"
  bc_enrolled_certs :: "string list"
  bc_allow_ntlm :: bool
  bc_allow_any_client :: bool
  bc_require_sealed_payloads :: bool
  bc_heartbeat_interval_ms :: u32
  bc_max_clients :: nat
  bc_encrypt_at_rest :: bool
  bc_embedding_dim :: nat

definition default_true :: bool where "default_true = True"
definition default_heartbeat :: u32 where "default_heartbeat = 30000"
definition default_max_clients :: nat where "default_max_clients = 100"
definition default_dim :: nat where "default_dim = 384"

text \<open>A TOML document: what it says of each field that has a default; the others are required,
  and a document without one of them does not parse.\<close>

record broker_toml =
  bt_listen :: string
  bt_tls_cert :: path
  bt_tls_key :: path
  bt_data_root :: path
  bt_psk_tokens :: "string list option"
  bt_enrolled_certs :: "string list option"
  bt_allow_ntlm :: "bool option"
  bt_allow_any_client :: "bool option"
  bt_require_sealed_payloads :: "bool option"
  bt_heartbeat_interval_ms :: "u32 option"
  bt_max_clients :: "nat option"
  bt_encrypt_at_rest :: "bool option"
  bt_embedding_dim :: "nat option"

definition or_default :: "'a \<Rightarrow> 'a option \<Rightarrow> 'a" where
  "or_default d v = (case v of None \<Rightarrow> d | Some x \<Rightarrow> x)"

definition config_of_toml :: "broker_toml \<Rightarrow> broker_config" where
  "config_of_toml t =
     \<lparr>bc_listen = bt_listen t, bc_tls_cert = bt_tls_cert t, bc_tls_key = bt_tls_key t,
      bc_data_root = bt_data_root t,
      bc_psk_tokens = or_default [] (bt_psk_tokens t),
      bc_enrolled_certs = or_default [] (bt_enrolled_certs t),
      bc_allow_ntlm = or_default False (bt_allow_ntlm t),
      bc_allow_any_client = or_default default_true (bt_allow_any_client t),
      bc_require_sealed_payloads = or_default False (bt_require_sealed_payloads t),
      bc_heartbeat_interval_ms = or_default default_heartbeat (bt_heartbeat_interval_ms t),
      bc_max_clients = or_default default_max_clients (bt_max_clients t),
      bc_encrypt_at_rest = or_default default_true (bt_encrypt_at_rest t),
      bc_embedding_dim = or_default default_dim (bt_embedding_dim t)\<rparr>"

text \<open>\<open>read\<close> is the file's text or the message of the I/O error, \<open>parse\<close> the TOML parser.\<close>

definition config_load ::
  "(string \<Rightarrow> string + broker_toml) \<Rightarrow> (path \<Rightarrow> string + string) \<Rightarrow> path option \<Rightarrow> broker_error + broker_config" where
  "config_load parse read p =
     (case p of
        None \<Rightarrow> Inl (BrConfig ''no config file provided'')
      | Some p \<Rightarrow>
          (case read p of
             Inl e \<Rightarrow> Inl (BrConfig (concat (map (\<lambda>c. ''/'' @ c) p) @ '': '' @ e))
           | Inr text \<Rightarrow>
               (case parse text of
                  Inl e \<Rightarrow> Inl (BrConfig e)
                | Inr t \<Rightarrow> Inr (config_of_toml t))))"

definition store_dir :: "broker_config \<Rightarrow> uuid \<Rightarrow> path" where
  "store_dir cfg client_id = bc_data_root cfg @ [client_id]"

record serve_args =
  sa_listen :: string
  sa_tls_cert :: "path option"
  sa_tls_key :: "path option"
  sa_self_signed :: bool
  sa_data_root :: path
  sa_psk_tokens :: "string list"
  sa_enrolled_certs :: "string list"
  sa_allow_ntlm :: bool
  sa_strict_tenancy :: bool
  sa_no_encryption_at_rest :: bool
  sa_max_clients :: nat

definition config_of_args :: "serve_args \<Rightarrow> broker_config" where
  "config_of_args a =
     \<lparr>bc_listen = sa_listen a, bc_tls_cert = or_default [] (sa_tls_cert a),
      bc_tls_key = or_default [] (sa_tls_key a), bc_data_root = sa_data_root a,
      bc_psk_tokens = sa_psk_tokens a, bc_enrolled_certs = sa_enrolled_certs a,
      bc_allow_ntlm = sa_allow_ntlm a, bc_allow_any_client = (\<not> sa_strict_tenancy a),
      bc_require_sealed_payloads = False, bc_heartbeat_interval_ms = 30000,
      bc_max_clients = sa_max_clients a, bc_encrypt_at_rest = (\<not> sa_no_encryption_at_rest a),
      bc_embedding_dim = 384\<rparr>"

text \<open>\<open>serve\<close> up to the listener: a configuration file replaces the flags except the two lists
  of credentials, which flags override.\<close>

definition serve_config ::
  "(string \<Rightarrow> string + broker_toml) \<Rightarrow> (path \<Rightarrow> string + string) \<Rightarrow> path option \<Rightarrow> serve_args
     \<Rightarrow> broker_error + broker_config" where
  "serve_config parse read config_path a =
     rbind (case config_path of
              Some p \<Rightarrow> config_load parse read (Some p)
            | None \<Rightarrow> Inr (config_of_args a)) (\<lambda>cfg.
     let cfg1 = (if sa_psk_tokens a \<noteq> [] then cfg\<lparr>bc_psk_tokens := sa_psk_tokens a\<rparr> else cfg)
     in Inr (if sa_enrolled_certs a \<noteq> [] then cfg1\<lparr>bc_enrolled_certs := sa_enrolled_certs a\<rparr> else cfg1))"

definition serve_tls_paths :: "(path \<Rightarrow> bool) \<Rightarrow> serve_args \<Rightarrow> broker_config \<Rightarrow> path \<times> path" where
  "serve_tls_paths exists a cfg =
     (if sa_self_signed a \<and> \<not> exists (bc_tls_cert cfg)
      then (bc_data_root cfg @ [''dev-cert.pem''], bc_data_root cfg @ [''dev-key.pem''])
      else (bc_tls_cert cfg, bc_tls_key cfg))"

section \<open>Frame assembly\<close>

record pending_frame =
  pf_codec_id :: u16
  pf_data :: bytes

record frame_assembler =
  fa_current_id :: "u32 option"
  fa_timestamp :: u32
  fa_regions :: "(u16 \<times> rect \<times> bytes) list"

definition fa_new :: frame_assembler where
  "fa_new = \<lparr>fa_current_id = None, fa_timestamp = 0, fa_regions = []\<rparr>"

definition fa_begin :: "u32 \<Rightarrow> u32 \<Rightarrow> frame_assembler \<Rightarrow> frame_assembler" where
  "fa_begin frame_id timestamp fa =
     fa\<lparr>fa_current_id := Some frame_id, fa_timestamp := timestamp, fa_regions := []\<rparr>"

definition fa_region :: "u16 \<Rightarrow> rect \<Rightarrow> bytes \<Rightarrow> frame_assembler \<Rightarrow> frame_assembler" where
  "fa_region codec_id r data fa =
     (if fa_current_id fa \<noteq> None then fa\<lparr>fa_regions := fa_regions fa @ [(codec_id, r, data)]\<rparr> else fa)"

text \<open>One region of the blob of a frame with several: four edges, the length, the data.\<close>

definition region_blob :: "rect \<Rightarrow> bytes \<Rightarrow> bytes" where
  "region_blob r d =
     le_bytes 2 (rect_left r) @ le_bytes 2 (rect_top r) @ le_bytes 2 (rect_right r)
     @ le_bytes 2 (rect_bottom r) @ le_bytes 4 (word_of_nat (length d) :: u32) @ d"

definition fa_finish :: "u32 \<Rightarrow> frame_assembler \<Rightarrow> pending_frame option \<times> frame_assembler" where
  "fa_finish frame_id fa =
     (if fa_current_id fa \<noteq> Some frame_id then (None, fa)
      else
        (Some (case fa_regions fa of
                 [(c, r, d)] \<Rightarrow> \<lparr>pf_codec_id = c, pf_data = d\<rparr>
               | rs \<Rightarrow>
                   \<lparr>pf_codec_id = foldl (\<lambda>codec (c, r, d). c) RDPGFX_CODECID_UNCOMPRESSED rs,
                    pf_data = foldl (\<lambda>blob (c, r, d). blob @ region_blob r d) [] rs\<rparr>),
         fa\<lparr>fa_current_id := None, fa_regions := []\<rparr>))"

section \<open>The state of a session\<close>

record live_event =
  le_client_id :: uuid
  le_window_capture_id :: int
  le_image_token :: "string option"
  le_window_title :: "string option"
  le_timestamp_100ns :: int

record session_state =
  ss_fs :: file_system
  ss_ukg :: ukg
  ss_frames :: frame_assembler
  ss_pending :: "pending_frame list"
  ss_live :: "live_event list"
  ss_draws :: nat

text \<open>\<open>se_nonce n\<close> is the nonce of the \<open>n\<close>-th object the session stores, \<open>se_now n\<close> the clock at
  that moment.\<close>

record session_env =
  se_client :: uuid
  se_objects :: object_store
  se_nonce :: "nat \<Rightarrow> bytes"
  se_now :: "nat \<Rightarrow> u64"
  se_parse_batch :: "bytes \<Rightarrow> string + capture_batch"
  se_parse_audio :: "bytes \<Rightarrow> string + string \<times> int option"
  se_parse_ctrl :: "bytes \<Rightarrow> string + control_message"

type_synonym 'a ingest = "(session_state, broker_error, 'a) action"

definition ing_fail :: "broker_error \<Rightarrow> 'a ingest" where
  "ing_fail e s = (Inl e, s)"

text \<open>\<open>ObjectStore::put\<close> and \<open>Ukg::insert_capture\<close> on the session's state, errors converted.\<close>

definition ing_put :: "session_env \<Rightarrow> int \<times> int \<times> int \<Rightarrow> string \<Rightarrow> string \<Rightarrow> bytes \<Rightarrow> unit ingest" where
  "ing_put env date token ext data s =
     (case obj_put (se_objects env) (se_nonce env (ss_draws s)) (se_client env) date token ext data (ss_fs s) of
        (Inl e, fs) \<Rightarrow> (Inl (BrObjects e), s\<lparr>ss_fs := fs, ss_draws := ss_draws s + 1\<rparr>)
      | (Inr p, fs) \<Rightarrow> (Inr (), s\<lparr>ss_fs := fs, ss_draws := ss_draws s + 1\<rparr>))"

definition ing_insert_capture :: "window_capture_record \<Rightarrow> int ingest" where
  "ing_insert_capture rec s =
     (case insert_capture rec (ss_ukg s) of
        (Inl e, u) \<Rightarrow> (Inl (BrStore e), s\<lparr>ss_ukg := u\<rparr>)
      | (Inr i, u) \<Rightarrow> (Inr i, s\<lparr>ss_ukg := u\<rparr>))"

section \<open>Channel handlers\<close>

definition push_pending :: "pending_frame \<Rightarrow> pending_frame list \<Rightarrow> pending_frame list" where
  "push_pending f q = (if 64 \<le> length q then tl q else q) @ [f]"

fun gfx_event :: "gfx_pdu \<Rightarrow> session_state \<Rightarrow> session_state" where
  "gfx_event (StartFrame frame_id timestamp) s = s\<lparr>ss_frames := fa_begin frame_id timestamp (ss_frames s)\<rparr>"
| "gfx_event (WireToSurface1 surface codec pixfmt r data) s =
     s\<lparr>ss_frames := fa_region codec r data (ss_frames s)\<rparr>"
| "gfx_event (EndFrame frame_id) s =
     (case fa_finish frame_id (ss_frames s) of
        (None, fa) \<Rightarrow> s\<lparr>ss_frames := fa\<rparr>
      | (Some f, fa) \<Rightarrow> s\<lparr>ss_frames := fa, ss_pending := push_pending f (ss_pending s)\<rparr>)"
| "gfx_event (FrameAcknowledge queue_depth frame_id decoded) s = s"

definition handle_gfx :: "bytes \<Rightarrow> unit ingest" where
  "handle_gfx pl =
     act_for (\<lambda>item _. case item of
                         Inl e \<Rightarrow> ing_fail (BrProto e)
                       | Inr pdu \<Rightarrow> act_update (gfx_event pdu)) (gfx_iter pl) ()"

definition pop_pending :: "pending_frame option ingest" where
  "pop_pending s =
     (case ss_pending s of
        [] \<Rightarrow> (Inr None, s)
      | f # q \<Rightarrow> (Inr (Some f), s\<lparr>ss_pending := q\<rparr>))"

definition live_event_of :: "uuid \<Rightarrow> int \<Rightarrow> window_capture_record \<Rightarrow> live_event" where
  "live_event_of client wc_id rec =
     \<lparr>le_client_id = client, le_window_capture_id = wc_id,
      le_image_token = Some (wcr_image_token rec), le_window_title = Some (wcr_window_title rec),
      le_timestamp_100ns = timestamp_i64 rec\<rparr>"

definition frame_ext :: "pending_frame \<Rightarrow> string" where
  "frame_ext f = (if pf_codec_id f = RDPGFX_CODECID_JPEG then ''jpg'' else ''raw'')"

definition store_capture :: "session_env \<Rightarrow> window_capture_record \<Rightarrow> unit ingest" where
  "store_capture env rec =
     act_bind pop_pending (\<lambda>frame.
     act_bind
       (case frame of
          None \<Rightarrow> act_return ()
        | Some f \<Rightarrow>
            ing_put env (ymd_from_filetime (timestamp_i64 rec)) (wcr_image_token rec) (frame_ext f)
              (pf_data f)) (\<lambda>_.
     act_bind (ing_insert_capture rec) (\<lambda>wc_id.
     act_update (\<lambda>s. s\<lparr>ss_live := ss_live s @ [live_event_of (se_client env) wc_id rec]\<rparr>))))"

definition handle_meta :: "session_env \<Rightarrow> bytes \<Rightarrow> unit ingest" where
  "handle_meta env pl =
     (case se_parse_batch env pl of
        Inl e \<Rightarrow> ing_fail (BrJson e)
      | Inr batch \<Rightarrow>
          if cb_client_id batch \<noteq> se_client env then act_return ()
          else act_for (\<lambda>rec _. store_capture env rec) (cb_captures batch) ())"

definition handle_audio :: "session_env \<Rightarrow> bytes \<Rightarrow> unit ingest" where
  "handle_audio env pl =
     (if length pl < 2 then act_return ()
      else
        let hlen = unat (le_word (take 2 pl) :: u16)
        in if length pl < 2 + hlen then act_return ()
           else case se_parse_audio env (take hlen (drop 2 pl)) of
                  Inl e \<Rightarrow> ing_fail (BrJson e)
                | Inr (token, ts) \<Rightarrow>
                    let data = drop (2 + hlen) pl
                    in if data = [] then act_return ()
                       else act_bind (act_get (\<lambda>s. sint (se_now env (ss_draws s)))) (\<lambda>now.
                              ing_put env (ymd_from_filetime (or_default now ts)) token ''opus'' data))"

text \<open>Every branch only logs.\<close>

definition handle_ctrl :: "session_env \<Rightarrow> bytes \<Rightarrow> unit ingest" where
  "handle_ctrl env pl =
     (case se_parse_ctrl env pl of
        Inr (Heartbeat frames_sent skipped queue_depth) \<Rightarrow> act_return ()
      | Inr PanicWipe \<Rightarrow> act_return ()
      | Inr (Goodbye reason) \<Rightarrow> act_return ()
      | Inr _ \<Rightarrow> act_return ()
      | Inl e \<Rightarrow> act_return ())"

definition handle_frame :: "session_env \<Rightarrow> mux_frame \<Rightarrow> unit ingest" where
  "handle_frame env frame =
     (case channel frame of
        GfxRdp \<Rightarrow> handle_gfx (payload frame)
      | PcMeta \<Rightarrow> handle_meta env (payload frame)
      | PcAudio \<Rightarrow> handle_audio env (payload frame)
      | PcCtrl \<Rightarrow> handle_ctrl env (payload frame)
      | PcQuery \<Rightarrow> act_return ())"

text \<open>The session loop over the chunks the transport delivers: the frames are handled as they
  complete, and an error of the codec ends the session after the frames before it.\<close>

definition session_loop :: "session_env \<Rightarrow> bytes list \<Rightarrow> unit ingest" where
  "session_loop env chunks =
     (case feed_all mux_decode chunks of
        (frames, buf, err) \<Rightarrow>
          act_bind (act_for (\<lambda>f _. handle_frame env f) frames ()) (\<lambda>_.
            case err of None \<Rightarrow> act_return () | Some e \<Rightarrow> ing_fail (BrProto e)))"

section \<open>The hello\<close>

record client_dbs =
  db_ukg :: ukg
  db_text :: semantic_index
  db_image :: semantic_index

record broker_disk =
  bd_fs :: file_system
  bd_clients :: "(uuid \<times> client_dbs) list"
  bd_server_db :: ukg

record broker =
  br_config :: broker_config
  br_auth :: authenticator
  br_aead :: aead
  br_object_key :: bytes

fun io_error :: "object_error \<Rightarrow> broker_error" where
  "io_error (OIo e) = BrIo e"
| "io_error e = BrObjects e"

definition broker_new ::
  "(bytes \<Rightarrow> bytes) \<Rightarrow> aead \<Rightarrow> (bytes \<Rightarrow> string) \<Rightarrow> bytes \<Rightarrow> broker_config \<Rightarrow> file_system
     \<Rightarrow> (broker_error + broker) outcome \<times> file_system" where
  "broker_new sha256 a lossy fresh cfg fs =
     (case fs_create_dir_all (bc_data_root cfg) fs of
        Inl e \<Rightarrow> (Returned (Inl (io_error e)), fs)
      | Inr _ \<Rightarrow>
          (case load_or_create_key lossy fresh (bc_data_root cfg) fs of
             (Panicked, fs') \<Rightarrow> (Panicked, fs')
           | (Returned (Inl e), fs') \<Rightarrow> (Returned (Inl (BrObjects e)), fs')
           | (Returned (Inr k), fs') \<Rightarrow>
               (Returned (Inr
                  \<lparr>br_config = cfg,
                   br_auth = authenticator_new sha256 (bc_psk_tokens cfg) (bc_enrolled_certs cfg)
                               (bc_allow_ntlm cfg) (bc_allow_any_client cfg),
                   br_aead = a, br_object_key = k\<rparr>), fs')))"

text \<open>A database that does not exist yet is created empty.\<close>

definition client_dbs_of :: "uuid \<Rightarrow> broker_disk \<Rightarrow> client_dbs" where
  "client_dbs_of cid d =
     (case map_of (bd_clients d) cid of
        None \<Rightarrow> \<lparr>db_ukg = ukg_new, db_text = semantic_new, db_image = semantic_new\<rparr>
      | Some dbs \<Rightarrow> dbs)"

definition put_dbs :: "uuid \<Rightarrow> client_dbs \<Rightarrow> broker_disk \<Rightarrow> broker_disk" where
  "put_dbs cid dbs d = d\<lparr>bd_clients := AList.update cid dbs (bd_clients d)\<rparr>"

definition open_store :: "broker \<Rightarrow> uuid \<Rightarrow> broker_disk \<Rightarrow> (broker_error + object_store) \<times> broker_disk" where
  "open_store b cid d =
     (let dir = store_dir (br_config b) cid;
          w = bc_embedding_dim (br_config b);
          dbs = client_dbs_of cid d
      in case fs_create_dir_all dir (bd_fs d) of
           Inl e \<Rightarrow> (Inl (io_error e), d)
         | Inr _ \<Rightarrow>
             (case (if bc_encrypt_at_rest (br_config b)
                    then object_store_encrypted (br_aead b) (dir @ [''objects'']) (br_object_key b) (bd_fs d)
                    else object_store_plain (dir @ [''objects'']) (bd_fs d)) of
                Inl e \<Rightarrow> (Inl (io_error e), put_dbs cid dbs d)
              | Inr objects \<Rightarrow>
                  (Inr objects,
                   put_dbs cid
                     (dbs\<lparr>db_text := semantic_open w ''text'' (db_text dbs),
                          db_image := semantic_open w ''image'' (db_image dbs)\<rparr>) d)))"

text \<open>\<open>Inl\<close>: the reason written to the client and the error that ends the session.\<close>

definition check_hello ::
  "(bytes \<Rightarrow> bytes) \<Rightarrow> authenticator \<Rightarrow> client_hello \<Rightarrow> (string \<times> broker_error) + string" where
  "check_hello sha256 au hello =
     (if ch_protocol_version hello \<noteq> PROTOCOL_VERSION then
        Inl (''protocol version mismatch'',
             BrAuthRejected (''version '' @ dec_digits (unat (ch_protocol_version hello)) @ '' != ''
               @ dec_digits (unat PROTOCOL_VERSION)))
      else case authenticate sha256 au (ch_auth hello) (ch_client_id hello) of
             Allow who \<Rightarrow> Inr who
           | Reject reason \<Rightarrow> Inl (reason, BrAuthRejected reason))"

definition accepted_channels :: "client_hello \<Rightarrow> channel_id list" where
  "accepted_channels hello =
     [c\<leftarrow>cap_channels (ch_capabilities hello). c \<in> set [GfxRdp, PcMeta, PcCtrl, PcAudio]]"

text \<open>The fields of the JSON object \<open>write_reject\<close> sends.\<close>

definition write_reject :: "string \<Rightarrow> (string \<times> string) list" where
  "write_reject reason = [(''error'', reason)]"

datatype hello_reply =
    NoReply
  | Refusal "(string \<times> string) list"
  | Welcome server_hello

definition accept_hello ::
  "(bytes \<Rightarrow> bytes) \<Rightarrow> broker \<Rightarrow> uuid \<Rightarrow> u64 \<Rightarrow> client_hello \<Rightarrow> broker_disk
     \<Rightarrow> hello_reply \<times> (broker_error + object_store) \<times> broker_disk" where
  "accept_hello sha256 b session_id now hello d =
     (case check_hello sha256 (br_auth b) hello of
        Inl (reason, e) \<Rightarrow> (Refusal (write_reject reason), Inl e, d)
      | Inr who \<Rightarrow>
          (let cid = ch_client_id hello in
           case open_store b cid d of
             (Inl e, d1) \<Rightarrow> (NoReply, Inl e, d1)
           | (Inr objects, d1) \<Rightarrow>
               let dbs = client_dbs_of cid d1;
                   touch = touch_client cid (ch_hostname hello) (sint now);
                   d2 = put_dbs cid (dbs\<lparr>db_ukg := touch (db_ukg dbs)\<rparr>)
                          (d1\<lparr>bd_server_db := touch (bd_server_db d1)\<rparr>)
               in (Welcome
                     \<lparr>sh_session_id = session_id, sh_accepted_channels = accepted_channels hello,
                      sh_server_time_100ns = now,
                      sh_heartbeat_interval_ms = bc_heartbeat_interval_ms (br_config b),
                      sh_max_frame_bytes = word_of_nat MAX_MUX_PAYLOAD\<rparr>,
                   Inr objects, d2)))"

section \<open>A connection\<close>

record conn_env =
  ce_parse_hello :: "bytes \<Rightarrow> string + client_hello"
  ce_session_id :: uuid
  ce_now :: u64
  ce_session :: session_env

definition session_start :: "file_system \<Rightarrow> ukg \<Rightarrow> session_state" where
  "session_start fs u =
     \<lparr>ss_fs = fs, ss_ukg = u, ss_frames = fa_new, ss_pending = [], ss_live = [], ss_draws = 0\<rparr>"

text \<open>\<open>handle_conn\<close> behind the TLS accept: \<open>hello_bytes\<close> are the bytes up to the end of the
  hello, \<open>chunks\<close> what follows.\<close>

definition handle_conn ::
  "(bytes \<Rightarrow> bytes) \<Rightarrow> broker \<Rightarrow> conn_env \<Rightarrow> bytes \<Rightarrow> bytes list \<Rightarrow> broker_disk
     \<Rightarrow> hello_reply \<times> (broker_error + unit) \<times> broker_disk" where
  "handle_conn sha256 b ce hello_bytes chunks d =
     (case read_limited_json (ce_parse_hello ce) hello_bytes of
        Inl e \<Rightarrow> (NoReply, Inl (BrProto e), d)
      | Inr (hello, rest) \<Rightarrow>
          (case accept_hello sha256 b (ce_session_id ce) (ce_now ce) hello d of
             (reply, Inl e, d1) \<Rightarrow> (reply, Inl e, d1)
           | (reply, Inr objects, d1) \<Rightarrow>
               let cid = ch_client_id hello;
                   dbs = client_dbs_of cid d1;
                   env = (ce_session ce)\<lparr>se_client := cid, se_objects := objects\<rparr>
               in case session_loop env (rest # chunks) (session_start (bd_fs d1) (db_ukg dbs)) of
                    (r, s) \<Rightarrow>
                      (reply, r, put_dbs cid (dbs\<lparr>db_ukg := ss_ukg s\<rparr>) (d1\<lparr>bd_fs := ss_fs s\<rparr>))))"

section \<open>Admission of sessions\<close>

text \<open>The shared counter of sessions. A connection adds one and looks at the old value; a
  refused connection takes it back later, a session when its guard is dropped. \<open>ad_refusing\<close>
  and \<open>ad_active\<close> count the connections in these two states.\<close>

record admission =
  ad_sessions :: nat
  ad_refusing :: nat
  ad_active :: nat

definition fetch_add_session :: "nat \<Rightarrow> admission \<Rightarrow> admission" where
  "fetch_add_session max_clients a =
     (let a1 = a\<lparr>ad_sessions := ad_sessions a + 1\<rparr>
      in if max_clients \<le> ad_sessions a then a1\<lparr>ad_refusing := ad_refusing a + 1\<rparr>
         else a1\<lparr>ad_active := ad_active a + 1\<rparr>)"

definition refuse_session :: "admission \<Rightarrow> admission" where
  "refuse_session a = a\<lparr>ad_sessions := ad_sessions a - 1, ad_refusing := ad_refusing a - 1\<rparr>"

definition drop_session :: "admission \<Rightarrow> admission" where
  "drop_session a = a\<lparr>ad_sessions := ad_sessions a - 1, ad_active := ad_active a - 1\<rparr>"

inductive admission_step :: "nat \<Rightarrow> admission \<Rightarrow> admission \<Rightarrow> bool" for max_clients :: nat where
  arrive: "admission_step max_clients a (fetch_add_session max_clients a)"
| refuse: "0 < ad_refusing a \<Longrightarrow> admission_step max_clients a (refuse_session a)"
| leave: "0 < ad_active a \<Longrightarrow> admission_step max_clients a (drop_session a)"

definition no_sessions :: admission where
  "no_sessions = \<lparr>ad_sessions = 0, ad_refusing = 0, ad_active = 0\<rparr>"

end
