(* ===== verification/Ingest_Safety.thy ===== *)
theory Ingest_Safety
  imports Broker_Ingest
begin

text \<open>
  What the broker guarantees: a session keeps the database sound and stays inside its client's
  directory whatever it is sent, frames and metadata pair by position, and the number
  of sessions is bounded.
\<close>

section \<open>The invariant of a session\<close>

text \<open>Relative to the session's start: its files \<open>f0\<close> and database \<open>u0\<close>.\<close>

definition outside_client :: "session_env \<Rightarrow> path \<Rightarrow> bool" where
  "outside_client env p \<longleftrightarrow>
     \<not> path_starts_with p (os_root (se_objects env) @ path_components [se_client env])"

definition session_inv :: "session_env \<Rightarrow> file_system \<Rightarrow> ukg \<Rightarrow> session_state \<Rightarrow> bool" where
  "session_inv env f0 u0 s \<longleftrightarrow>
     later_captures u0 (ss_ukg s) \<and> length (ss_pending s) \<le> 64 \<and> no_faults (ss_fs s)
     \<and> (\<forall>p. outside_client env p \<longrightarrow> fs_files (ss_fs s) p = fs_files f0 p)"

definition peer_error :: "broker_error \<Rightarrow> bool" where
  "peer_error e \<longleftrightarrow> (\<exists>p. e = BrProto p) \<or> (\<exists>t. e = BrJson t)"

lemma keeps_fail: "E e \<Longrightarrow> act_keeps P E (ing_fail e)"
  by (simp add: act_keeps_def ing_fail_def)

lemma length_push_pending: "length q \<le> 64 \<Longrightarrow> length (push_pending f q) \<le> 64"
  by (simp add: push_pending_def)

lemma gfx_event_inv: "session_inv env f0 u0 s \<Longrightarrow> session_inv env f0 u0 (gfx_event p s)"
  by (cases p) (auto simp: session_inv_def length_push_pending split: prod.splits option.splits)

lemma keeps_gfx: "act_keeps (session_inv env f0 u0) peer_error (handle_gfx pl)"
  unfolding handle_gfx_def
  by (auto intro!: keeps_intros keeps_fail act_keeps_update gfx_event_inv
      simp: peer_error_def split: sum.splits)

lemma keeps_pop: "act_keeps (session_inv env f0 u0) E pop_pending"
  by (auto simp: act_keeps_def pop_pending_def session_inv_def split: list.splits)

lemma keeps_put:
  assumes "plain_component (se_client env)" "media_ext ext"
  shows "act_keeps (session_inv env f0 u0) E (ing_put env date token ext data)"
proof -
  let ?abs = "obj_abs (se_objects env) (key_path (se_client env) date token ext)"
  have "\<not> outside_client env ?abs"
    using key_path_under_client [OF assms] by (simp add: outside_client_def obj_abs_def)
  then have "outside_client env p \<Longrightarrow> p \<noteq> ?abs" for p by auto
  then show ?thesis
    by (auto simp: act_keeps_def ing_put_def session_inv_def obj_put_no_faults)
      (simp add: no_faults_def)
qed

lemma keeps_insert: "act_keeps (session_inv env f0 u0) E (ing_insert_capture rec)"
proof -
  have "later_captures u0 (snd (insert_capture rec u))" if "later_captures u0 u" for u
    using later_trans [OF that later_insert] that by (simp add: later_captures_def)
  moreover have "\<exists>i u'. insert_capture rec u = (Inr i, u')" if "later_captures u0 u" for u
  proof (cases "find_capture_by_token (wcr_image_token rec) u")
    case None
    have "ukg_ok u" using that by (simp add: later_captures_def)
    from insert_capture_fresh [OF this None] show ?thesis by metis
  next
    case (Some i)
    then show ?thesis by (simp add: insert_capture_known)
  qed
  ultimately show ?thesis
    by (fastforce simp: act_keeps_def ing_insert_capture_def session_inv_def split: prod.splits sum.splits)
qed

lemma frame_ext_media [simp]: "media_ext (frame_ext f)"
  by (simp add: frame_ext_def media_ext_def)

lemma keeps_store_capture:
  "plain_component (se_client env) \<Longrightarrow> act_keeps (session_inv env f0 u0) E (store_capture env rec)"
  unfolding store_capture_def
  by (auto intro!: keeps_intros keeps_pop keeps_put keeps_insert act_keeps_update
      simp: session_inv_def split: option.splits)

lemma keeps_handle_frame:
  assumes "plain_component (se_client env)"
  shows "act_keeps (session_inv env f0 u0) peer_error (handle_frame env f)"
proof -
  have "media_ext ''opus''" by (simp add: media_ext_def)
  then show ?thesis
    using assms
    by (auto simp: handle_frame_def handle_meta_def handle_audio_def handle_ctrl_def Let_def peer_error_def
        intro!: keeps_intros keeps_gfx keeps_store_capture keeps_put keeps_fail
        split: channel_id.splits sum.splits control_message.splits prod.splits)
qed

lemma keeps_session_loop:
  assumes "plain_component (se_client env)"
  shows "act_keeps (session_inv env f0 u0) peer_error (session_loop env chunks)"
  unfolding session_loop_def
  by (auto intro!: keeps_intros keeps_handle_frame assms keeps_fail simp: peer_error_def
      split: prod.splits option.splits)

section \<open>Pairing\<close>

text \<open>The key of a capture's object when a given frame is paired with it, and the writes of a
  batch: capture and pending frame of the same position.\<close>

definition capture_key :: "window_capture_record \<Rightarrow> pending_frame \<Rightarrow> object_key" where
  "capture_key rec f = (ymd_from_filetime (timestamp_i64 rec), wcr_image_token rec, frame_ext f)"

fun paired ::
  "session_env \<Rightarrow> nat \<Rightarrow> window_capture_record list \<Rightarrow> pending_frame list \<Rightarrow> (object_key \<times> bytes \<times> bytes) list" where
  "paired env n (rec # recs) (f # q) =
     (capture_key rec f, (se_nonce env n, pf_data f)) # paired env (n + 1) recs q"
| "paired env n recs q = []"

abbreviation put_all ::
  "session_env \<Rightarrow> (object_key \<times> bytes \<times> bytes) list \<Rightarrow> object_store \<times> file_system \<Rightarrow> object_store \<times> file_system" where
  "put_all env kvs st \<equiv> foldl (\<lambda>s (k, v). store_put (se_client env) k v s) st kvs"

lemma paired_nth:
  "i < length recs \<Longrightarrow> i < length q \<Longrightarrow>
     (capture_key (recs ! i) (q ! i), (se_nonce env (n + i), pf_data (q ! i))) \<in> set (paired env n recs q)"
proof (induction env n recs q arbitrary: i rule: paired.induct)
  case (1 env n rec recs f q)
  then show ?case by (cases i) auto
qed auto

lemma paired_key:
  "p \<in> set (paired env n recs q) \<Longrightarrow>
     \<exists>i. i < length recs \<and> i < length q \<and> fst p = capture_key (recs ! i) (q ! i)
       \<and> snd p = (se_nonce env (n + i), pf_data (q ! i))"
proof (induction env n recs q rule: paired.induct)
  case (1 env n rec recs f q)
  show ?case
  proof (cases "p \<in> set (paired env (n + 1) recs q)")
    case True
    then obtain i where "i < length recs" "i < length q" "fst p = capture_key (recs ! i) (q ! i)"
      "snd p = (se_nonce env (n + 1 + i), pf_data (q ! i))"
      using 1 by blast
    then show ?thesis by (intro exI [of _ "Suc i"]) simp
  next
    case False
    then show ?thesis using 1 by (intro exI [of _ 0]) auto
  qed
qed auto

lemma map_fst_paired:
  "map fst (paired env n recs q) = map (\<lambda>(rec, f). capture_key rec f) (zip recs q)"
  by (induction env n recs q rule: paired.induct) auto

text \<open>After the writes of a batch, every capture that found a frame reads back as that frame.\<close>

lemma paired_read:
  assumes ready: "store_ready (se_client env) (se_objects env, fs)" and nonces: "\<And>n. length (se_nonce env n) = 12"
    and dist: "distinct (map (\<lambda>(rec, f). store_path (se_client env) (capture_key rec f)) (zip recs q))"
    and i: "i < length recs" "i < length q"
    and files: "(se_objects env, fs') = put_all env (paired env n recs q) (se_objects env, fs)"
  shows "obj_get (se_objects env) (se_client env)
      (key_path (se_client env) (ymd_from_filetime (timestamp_i64 (recs ! i))) (wcr_image_token (recs ! i))
         (frame_ext (q ! i)))
      (wcr_image_token (recs ! i)) fs' = Inr (pf_data (q ! i))"
proof -
  let ?kvs = "paired env n recs q"
  have ok: "\<forall>p \<in> set ?kvs. store_key_ok (fst p) \<and> store_value_ok (snd p)"
    using paired_key nonces
    by (fastforce simp: store_key_ok_def store_value_ok_def capture_key_def)
  have "map (\<lambda>p. store_path (se_client env) (fst p)) ?kvs
      = map (store_path (se_client env)) (map fst ?kvs)" by simp
  also have "\<dots> = map (\<lambda>(rec, f). store_path (se_client env) (capture_key rec f)) (zip recs q)"
    by (simp only: map_fst_paired) (simp add: case_prod_beta)
  finally have "distinct (map (\<lambda>p. store_path (se_client env) (fst p)) ?kvs)" using dist by simp
  from objects.get_puts [OF ready ok this paired_nth [OF i]] files
  show ?thesis by (simp add: store_get_def capture_key_def split: prod.splits)
qed

lemma insert_capture_total:
  assumes "ukg_ok u"
  obtains i u' where "insert_capture rec u = (Inr i, u')" "ukg_ok u'"
proof -
  obtain r u' where e: "insert_capture rec u = (r, u')" by (cases "insert_capture rec u")
  have "is_ok r"
  proof (cases "find_capture_by_token (wcr_image_token rec) u")
    case None
    show ?thesis by (rule insert_capture_fresh [OF assms None]) (use e in simp)
  next
    case (Some i)
    then show ?thesis using e by (auto simp: insert_capture_known)
  qed
  then show thesis using that e insert_capture_ok [OF assms e] by (cases r) auto
qed

text \<open>What one capture does in a sound session.\<close>

lemma store_capture_run:
  assumes "no_faults (ss_fs s)" "ukg_ok (ss_ukg s)"
  obtains s' where "store_capture env rec s = (Inr (), s')"
    "(se_objects env, ss_fs s') =
       put_all env (paired env (ss_draws s) [rec] (ss_pending s)) (se_objects env, ss_fs s)"
    "ss_ukg s' = snd (insert_capture rec (ss_ukg s))"
    "ss_pending s' = drop 1 (ss_pending s)"
    "ss_draws s' = ss_draws s + min 1 (length (ss_pending s))"
    "ss_frames s' = ss_frames s" "length (ss_live s') = length (ss_live s) + 1"
proof (rule insert_capture_total [OF assms(2), of rec])
  fix i u' assume ins: "insert_capture rec (ss_ukg s) = (Inr i, u')" "ukg_ok u'"
  show thesis
  proof (cases "ss_pending s")
    case Nil
    show thesis
      by (rule that [of "s\<lparr>ss_ukg := u', ss_live := ss_live s @ [live_event_of (se_client env) i rec]\<rparr>"])
        (use Nil ins in \<open>simp_all add: store_capture_def act_bind_def pop_pending_def act_return_def
          ing_insert_capture_def act_update_def\<close>)
  next
    case (Cons f q)
    show thesis
      by (rule that [of "s\<lparr>ss_pending := q, ss_draws := ss_draws s + 1, ss_ukg := u',
            ss_fs := snd (obj_put (se_objects env) (se_nonce env (ss_draws s)) (se_client env)
              (ymd_from_filetime (timestamp_i64 rec)) (wcr_image_token rec) (frame_ext f) (pf_data f) (ss_fs s)),
            ss_live := ss_live s @ [live_event_of (se_client env) i rec]\<rparr>"])
        (use Cons ins assms in \<open>simp_all add: store_capture_def act_bind_def pop_pending_def act_return_def
          ing_insert_capture_def act_update_def ing_put_def obj_put_no_faults store_put_def capture_key_def\<close>)
  qed
qed

lemma no_faults_put_all:
  "no_faults fs \<Longrightarrow> no_faults (snd (put_all env kvs (st, fs)))"
proof (induction kvs arbitrary: fs)
  case (Cons p kvs)
  then show ?case by (cases p) (auto simp: store_put_def no_faults_put split: prod.splits)
qed simp

lemma store_captures_run:
  assumes "no_faults (ss_fs s)" "ukg_ok (ss_ukg s)"
  obtains s' where "act_for (\<lambda>rec _. store_capture env rec) recs () s = (Inr (), s')"
    "(se_objects env, ss_fs s') =
       put_all env (paired env (ss_draws s) recs (ss_pending s)) (se_objects env, ss_fs s)"
    "ss_ukg s' = insert_all recs (ss_ukg s)"
    "ss_pending s' = drop (length recs) (ss_pending s)" "ss_frames s' = ss_frames s"
    "ss_draws s' = ss_draws s + min (length recs) (length (ss_pending s))"
    "length (ss_live s') = length (ss_live s) + length recs"
  using assms
proof (induction recs arbitrary: s thesis)
  case Nil
  show ?case by (rule Nil(1) [of s]) (simp_all add: act_return_def insert_all_def)
next
  case (Cons rec recs)
  obtain s1 where s1: "store_capture env rec s = (Inr (), s1)"
    "(se_objects env, ss_fs s1) =
       put_all env (paired env (ss_draws s) [rec] (ss_pending s)) (se_objects env, ss_fs s)"
    "ss_ukg s1 = snd (insert_capture rec (ss_ukg s))"
    "ss_pending s1 = drop 1 (ss_pending s)"
    "ss_draws s1 = ss_draws s + min 1 (length (ss_pending s))"
    "ss_frames s1 = ss_frames s" "length (ss_live s1) = length (ss_live s) + 1"
    by (rule store_capture_run [OF Cons.prems(2,3)])
  have nf: "no_faults (ss_fs s1)"
    using no_faults_put_all [OF Cons.prems(2)] s1(2) by (metis snd_conv)
  have ok: "ukg_ok (ss_ukg s1)"
    using later_insert [OF Cons.prems(3)] by (simp add: s1(3) later_captures_def)
  obtain s2 where s2: "act_for (\<lambda>rec _. store_capture env rec) recs () s1 = (Inr (), s2)"
    "(se_objects env, ss_fs s2) =
       put_all env (paired env (ss_draws s1) recs (ss_pending s1)) (se_objects env, ss_fs s1)"
    "ss_ukg s2 = insert_all recs (ss_ukg s1)"
    "ss_pending s2 = drop (length recs) (ss_pending s1)" "ss_frames s2 = ss_frames s1"
    "ss_draws s2 = ss_draws s1 + min (length recs) (length (ss_pending s1))"
    "length (ss_live s2) = length (ss_live s1) + length recs"
    by (rule Cons.IH [OF _ nf ok])
  show ?case
  proof (rule Cons.prems(1) [of s2])
    show "act_for (\<lambda>rec _. store_capture env rec) (rec # recs) () s = (Inr (), s2)"
      using s1(1) s2(1) by (simp add: act_bind_def)
    show "(se_objects env, ss_fs s2) =
        put_all env (paired env (ss_draws s) (rec # recs) (ss_pending s)) (se_objects env, ss_fs s)"
      using s1(2,4,5) s2(2) by (cases "ss_pending s") auto
  qed (use s1 s2 in \<open>auto simp: insert_all_def\<close>)
qed

section \<open>Frames of the headless client\<close>

lemma handle_gfx_pdus:
  assumes "gfx_iter pl = map Inr ps"
  shows "handle_gfx pl s = (Inr (), fold gfx_event ps s)"
proof -
  have "act_for (\<lambda>item _. case item of Inl e \<Rightarrow> ing_fail (BrProto e) | Inr pdu \<Rightarrow> act_update (gfx_event pdu))
      (map Inr ps) () s = (Inr (), fold gfx_event ps s)" for s
    by (induction ps arbitrary: s) (simp_all add: act_return_def act_bind_def act_update_def)
  then show ?thesis by (simp add: handle_gfx_def assms)
qed

definition jpeg_frame :: "bytes \<Rightarrow> pending_frame" where
  "jpeg_frame jpeg = \<lparr>pf_codec_id = RDPGFX_CODECID_JPEG, pf_data = jpeg\<rparr>"

lemma mock_frame_events:
  "fold gfx_event (mock_frame_pdus fid ts jpeg) s =
     s\<lparr>ss_frames := \<lparr>fa_current_id = None, fa_timestamp = ucast (ts AND 0xFFFFFFFF), fa_regions = []\<rparr>,
       ss_pending := push_pending (jpeg_frame jpeg) (ss_pending s)\<rparr>"
  by (simp add: mock_frame_pdus_def fa_begin_def fa_region_def fa_finish_def jpeg_frame_def)

section \<open>A connection\<close>

lemma session_start_inv:
  "ukg_ok u \<Longrightarrow> no_faults fs \<Longrightarrow> session_inv env fs u (session_start fs u)"
  by (simp add: session_inv_def session_start_def later_refl)

lemma session_loop_safe:
  assumes "plain_component (se_client env)" "no_faults fs" "ukg_ok u"
    and "session_loop env chunks (session_start fs u) = (r, s)"
  shows "session_inv env fs u s" "r = Inl e \<Longrightarrow> peer_error e"
  using keeps_session_loop [OF assms(1), of fs u chunks] session_start_inv [OF assms(3,2)] assms(4)
  unfolding act_keeps_def by (metis snd_conv, metis fst_conv)

definition disk_ok :: "broker_disk \<Rightarrow> bool" where
  "disk_ok d \<longleftrightarrow> no_faults (bd_fs d) \<and> (\<forall>p \<in> set (bd_clients d). ukg_ok (db_ukg (snd p)))"

lemma disk_ok_dbs: "disk_ok d \<Longrightarrow> ukg_ok (db_ukg (client_dbs_of cid d))"
  by (auto simp: client_dbs_of_def disk_ok_def ukg_ok_new split: option.splits dest!: map_of_SomeD)

lemma update_members: "set (AList.update k v xs) \<subseteq> insert (k, v) (set xs)"
  by (induction xs) auto

lemma disk_ok_put: "disk_ok d \<Longrightarrow> ukg_ok (db_ukg dbs) \<Longrightarrow> disk_ok (put_dbs cid dbs d)"
  using update_members [of cid dbs "bd_clients d"] by (auto simp: disk_ok_def put_dbs_def)

lemma put_dbs_other: "cid' \<noteq> cid \<Longrightarrow> map_of (bd_clients (put_dbs cid dbs d)) cid' = map_of (bd_clients d) cid'"
  by (simp add: put_dbs_def update_conv')

lemma put_dbs_same [simp]: "client_dbs_of cid (put_dbs cid dbs d) = dbs"
  by (simp add: put_dbs_def client_dbs_of_def update_conv')

lemma put_dbs_fs [simp]: "bd_fs (put_dbs cid dbs d) = bd_fs d" "bd_server_db (put_dbs cid dbs d) = bd_server_db d"
  by (simp_all add: put_dbs_def)

text \<open>What the handling of a connection for client \<open>cid\<close> may change.\<close>

definition only_client :: "broker \<Rightarrow> uuid \<Rightarrow> broker_disk \<Rightarrow> broker_disk \<Rightarrow> bool" where
  "only_client b cid d d' \<longleftrightarrow>
     disk_ok d' \<and> (\<forall>other. other \<noteq> cid \<longrightarrow> map_of (bd_clients d') other = map_of (bd_clients d) other)
     \<and> (\<forall>p. \<not> path_starts_with p (store_dir (br_config b) cid) \<longrightarrow> fs_files (bd_fs d') p = fs_files (bd_fs d) p)"

lemma only_client_refl: "disk_ok d \<Longrightarrow> only_client b cid d d"
  by (simp add: only_client_def)

lemma only_client_put:
  "only_client b cid d d' \<Longrightarrow> ukg_ok (db_ukg dbs) \<Longrightarrow> only_client b cid d (put_dbs cid dbs d')"
  by (simp add: only_client_def disk_ok_put put_dbs_other)

lemma touch_client_ok: "ukg_ok u \<Longrightarrow> ukg_ok (touch_client cid host now u)"
  by (simp add: ukg_ok_def touch_client_def capture_ids_def)

lemma open_store_safe:
  assumes "disk_ok d" "open_store b cid d = (r, d')"
  shows "only_client b cid d d'" "bd_fs d' = bd_fs d" "bd_server_db d' = bd_server_db d"
    "r = Inr objects \<Longrightarrow> os_root objects = store_dir (br_config b) cid @ [''objects'']"
  using assms(2) disk_ok_dbs [OF assms(1)] only_client_refl [OF assms(1)]
  by (auto simp: open_store_def Let_def object_store_encrypted_def object_store_plain_def
      object_store_open_def rbind_Inr_iff intro!: only_client_put
      split: sum.splits if_splits)

lemma only_client_server_db:
  "only_client b cid d d' \<Longrightarrow> only_client b cid d (d'\<lparr>bd_server_db := u\<rparr>)"
  by (simp add: only_client_def disk_ok_def)

lemma accept_hello_safe:
  assumes "disk_ok d" "accept_hello sha256 b sid now hello d = (reply, r, d')"
  shows "only_client b (ch_client_id hello) d d'" "bd_fs d' = bd_fs d"
    "r = Inr objects \<Longrightarrow> os_root objects = store_dir (br_config b) (ch_client_id hello) @ [''objects'']"
proof -
  let ?cid = "ch_client_id hello"
  obtain ro d1 where o: "open_store b ?cid d = (ro, d1)" by (cases "open_store b ?cid d")
  note op = open_store_safe [OF assms(1) o]
  have ok1: "ukg_ok (db_ukg (client_dbs_of ?cid d1))"
    using op(1) disk_ok_dbs by (simp add: only_client_def)
  have touch: "only_client b ?cid d (put_dbs ?cid (client_dbs_of ?cid d1
      \<lparr>db_ukg := touch_client ?cid (ch_hostname hello) (sint now) (db_ukg (client_dbs_of ?cid d1))\<rparr>)
      (d1\<lparr>bd_server_db := touch_client ?cid (ch_hostname hello) (sint now) (bd_server_db d1)\<rparr>))"
    by (rule only_client_put [OF only_client_server_db [OF op(1)]])
      (simp add: touch_client_ok ok1)
  show "only_client b ?cid d d'" "bd_fs d' = bd_fs d"
    "r = Inr objects \<Longrightarrow> os_root objects = store_dir (br_config b) ?cid @ [''objects'']"
    using assms(2) o op touch only_client_refl [OF assms(1)]
    by (auto simp: accept_hello_def Let_def split: sum.splits prod.splits)
qed

lemma path_starts_with_trans: "path_starts_with p (a @ b) \<Longrightarrow> path_starts_with p a"
proof -
  assume "path_starts_with p (a @ b)"
  then have "take (length a) (take (length a + length b) p) = take (length a) (a @ b)"
    by (simp only: path_starts_with_def length_append)
  then show "path_starts_with p a" by (simp add: path_starts_with_def)
qed

lemma handle_conn_safe:
  assumes "disk_ok d" "read_limited_json (ce_parse_hello ce) hello_bytes = Inr (hello, rest)"
    and "plain_component (ch_client_id hello)"
    and conn: "handle_conn sha256 b ce hello_bytes chunks d = (reply, r, d')"
  shows "only_client b (ch_client_id hello) d d'"
proof -
  let ?cid = "ch_client_id hello"
  obtain rep ro d1 where a: "accept_hello sha256 b (ce_session_id ce) (ce_now ce) hello d = (rep, ro, d1)"
    by (metis prod.exhaust)
  note ah = accept_hello_safe [OF assms(1) a]
  show ?thesis
  proof (cases ro)
    case (Inl e)
    then show ?thesis using conn a ah(1) assms(2) by (simp add: handle_conn_def)
  next
    case (Inr objects)
    define env where "env = (ce_session ce)\<lparr>se_client := ?cid, se_objects := objects\<rparr>"
    define u where "u = db_ukg (client_dbs_of ?cid d1)"
    obtain sr s where s: "session_loop env (rest # chunks) (session_start (bd_fs d1) u) = (sr, s)"
      by (metis prod.exhaust)
    have d': "d' = put_dbs ?cid (client_dbs_of ?cid d1\<lparr>db_ukg := ss_ukg s\<rparr>) (d1\<lparr>bd_fs := ss_fs s\<rparr>)"
      using conn a Inr s assms(2) by (simp add: handle_conn_def Let_def env_def u_def)
    have env: "se_client env = ?cid" "os_root (se_objects env) = store_dir (br_config b) ?cid @ [''objects'']"
      using ah(3) [OF Inr] by (simp_all add: env_def)
    have ok1: "no_faults (bd_fs d1)" "ukg_ok u"
      using ah(1) disk_ok_dbs by (simp_all add: only_client_def disk_ok_def u_def)
    have inv: "session_inv env (bd_fs d1) u s"
      by (rule session_loop_safe(1) [OF _ ok1 s]) (simp add: env assms(3))
    then have ok2: "ukg_ok (ss_ukg s)" "no_faults (ss_fs s)"
      by (simp_all add: session_inv_def later_captures_def)
    have "outside_client env p" if "\<not> path_starts_with p (store_dir (br_config b) ?cid)" for p
      using that path_starts_with_trans [of p "store_dir (br_config b) ?cid" "[''objects''] @ path_components [?cid]"]
      by (auto simp: outside_client_def env)
    then have "only_client b ?cid d (d1\<lparr>bd_fs := ss_fs s\<rparr>)"
      using ah(1,2) inv ok2(2) by (auto simp: only_client_def disk_ok_def session_inv_def)
    then show ?thesis
      unfolding d' by (rule only_client_put) (simp add: ok2(1))
  qed
qed

section \<open>Admission\<close>

definition admission_inv :: "nat \<Rightarrow> admission \<Rightarrow> bool" where
  "admission_inv max_clients a \<longleftrightarrow>
     ad_sessions a = ad_refusing a + ad_active a \<and> ad_active a \<le> max_clients"

interpretation admission_machine: state_machine "\<lambda>a. a = no_sessions" "admission_step max_clients"
  "admission_inv max_clients" for max_clients
proof
  fix a a' assume "admission_inv max_clients a" "admission_step max_clients a a'"
  then show "admission_inv max_clients a'"
    by (auto simp: admission_inv_def fetch_add_session_def refuse_session_def drop_session_def Let_def
        elim!: admission_step.cases)
qed (simp add: admission_inv_def no_sessions_def)

section \<open>Properties\<close>

definition example_batch :: capture_batch where
  "example_batch = \<lparr>cb_client_id = ''c'', cb_seq = 1, cb_captures = [example_capture]\<rparr>"

definition example_print :: "capture_batch \<Rightarrow> string + bytes" where
  "example_print b = (if b = example_batch then Inr [1] else Inl ''no JSON'')"

definition example_session :: session_env where
  "example_session =
     \<lparr>se_client = ''c'',
      se_objects = \<lparr>os_root = [''d''], os_cipher = Some \<lparr>env_aead = example_aead, env_key = []\<rparr>\<rparr>,
      se_nonce = (\<lambda>_. replicate 12 0), se_now = (\<lambda>_. 0),
      se_parse_batch = (\<lambda>pl. if pl = [1] then Inr example_batch else Inl ''no JSON''),
      se_parse_audio = (\<lambda>_. Inl ''missing field token''), se_parse_ctrl = (\<lambda>_. Inl ''no JSON'')\<rparr>"

definition example_fs :: file_system where
  "example_fs = \<lparr>fs_files = Map.empty, fs_fault = (\<lambda>_. False)\<rparr>"

lemma example_session_ready:
  "store_ready (se_client example_session) (se_objects example_session, example_fs)"
  "length (se_nonce example_session n) = 12"
  by (simp_all add: example_session_def store_ready_def plain_component_def clean_def clean_char_def
      ascii_alnum_def sound_store_def example_aead_correct no_faults_def example_fs_def)

text \<open>C3. Frames and metadata pair by position: the \<open>i\<close>-th capture of a batch is stored with the
  \<open>i\<close>-th waiting frame, under the extension of that frame's codec, and exactly as many frames
  are taken as there are captures. A batch that names another client is dropped with its frames
  left waiting, so the captures of the next batch get the dropped batch's screenshots.\<close>

theorem frames_pair_by_position:
  assumes "store_ready (se_client env) (se_objects env, ss_fs s)" "\<And>n. length (se_nonce env n) = 12"
    and "ukg_ok (ss_ukg s)"
    and "se_parse_batch env pl = Inr batch" "cb_client_id batch = se_client env"
    and "distinct (map (\<lambda>(rec, f). store_path (se_client env) (capture_key rec f))
           (zip (cb_captures batch) (ss_pending s)))"
    and "se_parse_batch env dropped = Inr foreign" "cb_client_id foreign \<noteq> se_client env"
  shows "\<exists>s'. act_bind (handle_meta env dropped) (\<lambda>_. handle_meta env pl) s = (Inr (), s')
     \<and> ss_pending s' = drop (length (cb_captures batch)) (ss_pending s)
     \<and> ss_ukg s' = insert_all (cb_captures batch) (ss_ukg s)
     \<and> (\<forall>i < min (length (cb_captures batch)) (length (ss_pending s)).
          let rec = cb_captures batch ! i; f = ss_pending s ! i
          in obj_get (se_objects env) (se_client env)
               (key_path (se_client env) (ymd_from_filetime (timestamp_i64 rec)) (wcr_image_token rec) (frame_ext f))
               (wcr_image_token rec) (ss_fs s') = Inr (pf_data f))"
proof -
  let ?recs = "cb_captures batch"
  have nf: "no_faults (ss_fs s)" using assms(1) by (simp add: store_ready_def)
  obtain s' where s': "act_for (\<lambda>rec _. store_capture env rec) ?recs () s = (Inr (), s')"
    "(se_objects env, ss_fs s') = put_all env (paired env (ss_draws s) ?recs (ss_pending s)) (se_objects env, ss_fs s)"
    "ss_ukg s' = insert_all ?recs (ss_ukg s)" "ss_pending s' = drop (length ?recs) (ss_pending s)"
    "ss_frames s' = ss_frames s" "ss_draws s' = ss_draws s + min (length ?recs) (length (ss_pending s))"
    "length (ss_live s') = length (ss_live s) + length ?recs"
    by (rule store_captures_run [OF nf assms(3)])
  have "act_bind (handle_meta env dropped) (\<lambda>_. handle_meta env pl) s = (Inr (), s')"
    using s'(1) assms(4,5,7,8) by (simp add: act_bind_def handle_meta_def act_return_def)
  then show ?thesis
    using s'(3,4) paired_read [OF assms(1,2,6) _ _ s'(2)] by (auto simp: Let_def)
qed

theorem frames_pair_by_position_witness:
  "\<exists>s'. act_bind (handle_meta (example_session\<lparr>se_parse_batch :=
          (\<lambda>pl. Inr (if pl = [] then example_batch\<lparr>cb_client_id := ''x''\<rparr> else example_batch))\<rparr>) [])
        (\<lambda>_. handle_meta (example_session\<lparr>se_parse_batch :=
          (\<lambda>pl. Inr (if pl = [] then example_batch\<lparr>cb_client_id := ''x''\<rparr> else example_batch))\<rparr>) [1])
        (session_start example_fs ukg_new\<lparr>ss_pending := [jpeg_frame [7], jpeg_frame [8]]\<rparr>) = (Inr (), s')
     \<and> obj_get (se_objects example_session) ''c'' (key_path ''c'' (ymd_from_filetime 7) ''t'' ''jpg'') ''t''
          (ss_fs s') = Inr [7]"
proof -
  let ?env = "example_session\<lparr>se_parse_batch :=
    (\<lambda>pl. Inr (if pl = [] then example_batch\<lparr>cb_client_id := ''x''\<rparr> else example_batch))\<rparr>"
  let ?s = "session_start example_fs ukg_new\<lparr>ss_pending := [jpeg_frame [7], jpeg_frame [8]]\<rparr>"
  have "store_ready (se_client ?env) (se_objects ?env, ss_fs ?s)" "\<And>n. length (se_nonce ?env n) = 12"
    "ukg_ok (ss_ukg ?s)"
    using example_session_ready ukg_ok_new by (simp_all add: session_start_def)
  from frames_pair_by_position [OF this, of "[1]" example_batch "[]" "example_batch\<lparr>cb_client_id := ''x''\<rparr>"]
  show ?thesis
    by (auto simp: example_batch_def example_session_def session_start_def jpeg_frame_def frame_ext_def
        example_capture_def timestamp_i64_def)
qed

text \<open>Tenants are isolated: whatever bytes a connection sends after a hello for a client id (a
  UUID's text), the databases of every other client and every file outside that client's
  directory are as before, and every database on the disk is still sound.\<close>

lemma connections_are_isolated:
  assumes "disk_ok d" "read_limited_json (ce_parse_hello ce) hello_bytes = Inr (hello, rest)"
    and "plain_component (ch_client_id hello)"
    and "handle_conn sha256 b ce hello_bytes chunks d = (reply, r, d')"
  shows "(\<forall>other. other \<noteq> ch_client_id hello \<longrightarrow> client_dbs_of other d' = client_dbs_of other d)
     \<and> (\<forall>p. \<not> path_starts_with p (store_dir (br_config b) (ch_client_id hello)) \<longrightarrow>
          fs_files (bd_fs d') p = fs_files (bd_fs d) p)
     \<and> (\<forall>cid. ukg_ok (db_ukg (client_dbs_of cid d')))"
  using handle_conn_safe [OF assms] disk_ok_dbs
  by (simp add: only_client_def client_dbs_of_def)

definition example_hello :: client_hello where
  "example_hello = client_hello_of ''c'' ''host'' (Some ''key'') 5000 ''1''"

definition example_config :: broker_config where
  "example_config = config_of_args
     \<lparr>sa_listen = ''0.0.0.0:3390'', sa_tls_cert = None, sa_tls_key = None, sa_self_signed = True,
      sa_data_root = [''d''], sa_psk_tokens = [''key''], sa_enrolled_certs = [], sa_allow_ntlm = False,
      sa_strict_tenancy = False, sa_no_encryption_at_rest = False, sa_max_clients = 1\<rparr>"

definition example_broker :: broker where
  "example_broker =
     \<lparr>br_config = example_config, br_auth = authenticator_new example_digest [''key''] [] False True,
      br_aead = example_aead, br_object_key = replicate 32 0\<rparr>"

definition example_disk :: broker_disk where
  "example_disk = \<lparr>bd_fs = example_fs, bd_clients = [(''other'', \<lparr>db_ukg = example_ukg,
     db_text = semantic_new, db_image = semantic_new\<rparr>)], bd_server_db = ukg_new\<rparr>"

definition example_conn :: conn_env where
  "example_conn = \<lparr>ce_parse_hello = (\<lambda>pl. if pl = [7] then Inr example_hello else Inl ''no JSON''),
     ce_session_id = ''s'', ce_now = 9, ce_session = example_session\<rparr>"

text \<open>C36. Who gets a session: a hello is refused exactly for a wrong version or a credential the
  authenticator rejects, and then nothing on the disk changes; the refused client never learns
  the reason, because the broker sends it under \<open>error\<close> and the client reads \<open>reason\<close>. Any other
  hello, on a disk without faults, is welcomed with the offered channels except \<open>PCQUERY\<close>, and
  the client is registered in the global database with its host name and the time.\<close>

theorem hello_decides:
  assumes "accept_hello sha256 b sid now hello d = (reply, r, d')"
  shows "(\<forall>a. reply = Refusal a \<longrightarrow> d' = d \<and> \<not> is_ok r \<and> refusal_error a = ''rejected: unknown'')
     \<and> ((\<exists>a. reply = Refusal a) \<longleftrightarrow> ch_protocol_version hello \<noteq> PROTOCOL_VERSION
          \<or> \<not> is_allow (authenticate sha256 (br_auth b) (ch_auth hello) (ch_client_id hello)))
     \<and> (\<forall>w. reply = Welcome w \<longrightarrow>
          set (sh_accepted_channels w) = set (cap_channels (ch_capabilities hello)) - {PcQuery}
          \<and> (\<exists>row. map_of (uk_clients (bd_server_db d')) (ch_client_id hello) = Some row
               \<and> cl_hostname row = ch_hostname hello \<and> cl_last_seen row = sint now))
     \<and> (no_faults (bd_fs d) \<longrightarrow> reply \<noteq> NoReply)"
proof -
  have touched: "\<exists>row. map_of (uk_clients (touch_client cid host t u)) cid = Some row
      \<and> cl_hostname row = host \<and> cl_last_seen row = t" for cid host t u
    by (auto simp: touch_client_def update_conv' split: option.splits)
  have chans: "set (accepted_channels hello) = set (cap_channels (ch_capabilities hello)) - {PcQuery}"
    using channel_id.exhaust by (auto simp: accepted_channels_def)
  have opens: "\<exists>objects d1. open_store b cid d = (Inr objects, d1)" if "no_faults (bd_fs d)" for cid
    using that by (auto simp: open_store_def Let_def object_store_encrypted_def object_store_plain_def
        object_store_open_def fs_create_dir_all_def no_faults_def)
  show ?thesis
  proof (cases "check_hello sha256 (br_auth b) hello")
    case (Inl e)
    then show ?thesis
      using assms
      by (auto simp: accept_hello_def check_hello_def refusal_error_def refusal_of_def write_reject_def
          split: prod.splits if_splits auth_decision.splits)
  next
    case (Inr who)
    then have ok: "ch_protocol_version hello = PROTOCOL_VERSION"
      "is_allow (authenticate sha256 (br_auth b) (ch_auth hello) (ch_client_id hello))"
      by (auto simp: check_hello_def split: if_splits auth_decision.splits)
    show ?thesis
      using assms Inr ok opens [of "ch_client_id hello"] touched chans
      by (auto simp: accept_hello_def Let_def split: prod.splits sum.splits)
  qed
qed

theorem hello_decides_witness:
  "\<exists>w r d'. accept_hello example_digest example_broker ''s'' 9 example_hello example_disk = (Welcome w, r, d')
     \<and> set (sh_accepted_channels w) = {GfxRdp, PcMeta, PcCtrl, PcAudio}
     \<and> (\<exists>a d''. fst (accept_hello example_digest example_broker ''s'' 9
            (example_hello\<lparr>ch_auth := Psk ''wrong''\<rparr>) d'') = Refusal a
          \<and> refusal_error a = ''rejected: unknown'')"
proof -
  have fs: "no_faults (bd_fs example_disk)" by (simp add: example_disk_def example_fs_def no_faults_def)
  have v: "ch_protocol_version example_hello = PROTOCOL_VERSION"
    "cap_channels (ch_capabilities example_hello) = [GfxRdp, PcMeta, PcCtrl, PcAudio]"
    by (simp_all add: example_hello_def client_hello_of_def)
  have ok: "is_allow (authenticate example_digest (br_auth example_broker) (ch_auth example_hello)
      (ch_client_id example_hello))"
    by (simp add: example_hello_def client_hello_of_def example_broker_def authenticator_new_def ct_eq_iff Let_def)
  have bad: "\<not> is_allow (authenticate example_digest (br_auth example_broker) (Psk ''wrong'') (ch_client_id example_hello))"
    by code_simp
  obtain reply r d' where h: "accept_hello example_digest example_broker ''s'' 9 example_hello example_disk = (reply, r, d')"
    by (metis prod.exhaust)
  then obtain w where w: "reply = Welcome w"
    using hello_decides [OF h] fs v(1) ok by (cases reply) auto
  obtain reply2 r2 d2 where h2: "accept_hello example_digest example_broker ''s'' 9
      (example_hello\<lparr>ch_auth := Psk ''wrong''\<rparr>) example_disk = (reply2, r2, d2)"
    by (metis prod.exhaust)
  then obtain a where a: "reply2 = Refusal a"
    using hello_decides [OF h2] bad by auto
  have "refusal_error a = ''rejected: unknown''" using hello_decides [OF h2] a by blast
  moreover have "set (sh_accepted_channels w) = {GfxRdp, PcMeta, PcCtrl, PcAudio}"
    using hello_decides [OF h] w v(2) by auto
  ultimately show ?thesis using h w h2 a by (metis fst_conv)
qed

text \<open>C39. The number of sessions is bounded: however arrivals, refusals and departures interleave,
  no more than \<open>max_clients\<close> sessions are served at a time, and when the last connection is gone
  the counter is zero again.\<close>

theorem admission_bounded:
  assumes "reachable (\<lambda>a. a = no_sessions) (admission_step max_clients) a"
  shows "ad_active a \<le> max_clients
     \<and> (ad_active a = 0 \<and> ad_refusing a = 0 \<longrightarrow> ad_sessions a = 0)
     \<and> (ad_sessions a < max_clients \<longrightarrow> ad_active (fetch_add_session max_clients a) = ad_active a + 1)"
  using admission_machine.reachable_inv [OF assms]
  by (simp add: admission_inv_def fetch_add_session_def Let_def)

theorem admission_bounded_witness:
  "reachable (\<lambda>a. a = no_sessions) (admission_step 1)
       (fetch_add_session 1 (fetch_add_session 1 no_sessions))
     \<and> ad_active (fetch_add_session 1 (fetch_add_session 1 no_sessions)) \<le> 1"
proof -
  have "reachable (\<lambda>a. a = no_sessions) (admission_step 1) no_sessions"
    by (rule reachable.start) simp
  then have "reachable (\<lambda>a. a = no_sessions) (admission_step 1) (fetch_add_session 1 no_sessions)"
    by (rule reachable.next_step) (rule arrive)
  then have r: "reachable (\<lambda>a. a = no_sessions) (admission_step 1)
      (fetch_add_session 1 (fetch_add_session 1 no_sessions))"
    by (rule reachable.next_step) (rule arrive)
  then show ?thesis using admission_bounded [OF r] by simp
qed

text \<open>C40. The broker cannot read the Windows client's frames: the client writes the flags of the
  first and last PDUs with 32 bits where the header has 16, so every frame up to 786,340 bytes of
  JPEG ends the session with a truncation error, and nothing of it is kept.\<close>

theorem windows_frame_ends_session:
  assumes "send_frame jpeg w h ts c = (Inr (), c')" "conn_wire c = []"
    and "length jpeg < 786341" "concat chunks = conn_wire c'"
  shows "session_loop env chunks s = (Inl (BrProto (Truncated 786432 (91 + length jpeg))), s)"
proof -
  let ?pl = "client_frame_bytes (conn_surface_id c) (conn_frame_id c + 1) jpeg w h ts"
  from assms(1,2,4) have "mux_encode_all [\<lparr>channel = GfxRdp, payload = ?pl\<rparr>] [] = Inr (concat chunks)"
    by (auto simp: send_frame_def Let_def send_mux_encode)
  then have fed: "feed_all mux_decode chunks = ([\<lparr>channel = GfxRdp, payload = ?pl\<rparr>], [], None)"
    by (rule mux.feed_all_drained [OF mux_drain_encoded])
  have "0 < length ?pl" by (simp only: length_client_frame_bytes)
  then have "?pl \<noteq> []" by (simp only: length_greater_0_conv not_False_eq_True)
  then have "gfx_iter ?pl = [Inl (Truncated 786432 (91 + length jpeg))]"
    by (rule gfx_iter_error [OF _ client_frame_decode [OF assms(3)]])
  then show ?thesis
    by (simp add: session_loop_def fed handle_frame_def handle_gfx_def act_bind_def ing_fail_def)
qed

theorem windows_frame_ends_session_witness:
  "\<exists>c'. send_frame [255, 216] 4 3 9 (connection_new ''c'') = (Inr (), c')
     \<and> session_loop example_session [conn_wire c'] (session_start example_fs ukg_new)
         = (Inl (BrProto (Truncated 786432 93)), session_start example_fs ukg_new)"
proof -
  obtain c' where c': "send_frame [255, 216] 4 3 9 (connection_new ''c'') = (Inr (), c')"
    by (simp add: send_frame_def Let_def send_mux_Inr length_client_frame_bytes MAX_MUX_PAYLOAD_def)
  have "conn_wire (connection_new ''c'') = []" by (simp add: connection_new_def)
  from windows_frame_ends_session [OF c' this, of "[conn_wire c']" example_session]
  show ?thesis using c' by simp
qed

end
