(* ===== verification/Client_Capture.thy ===== *)
theory Client_Capture
  imports Client_Session Access_Control Object_Store Float32
begin

text \<open>
  The capture client: privacy filter (\<open>privacy.rs\<close>), window metadata (\<open>meta.rs\<close>), pixels and
  samples (\<open>jpeg.rs\<close>, \<open>dxgi.rs\<close>, \<open>audio.rs\<close>) and the capture loop (\<open>run.rs\<close>). What Windows
  answers is the record \<open>window_os\<close>; the JPEG encoder, the OCR engine and the JSON printer are
  arguments. The loop is a step function on the events its \<open>select!\<close> waits for.
\<close>

section \<open>Privacy\<close>

record window_bounds =
  wb_left :: int
  wb_top :: int
  wb_right :: int
  wb_bottom :: int

record window_meta =
  wm_hwnd :: int
  wm_title :: string
  wm_bounds :: window_bounds
  wm_is_foreground :: bool
  wm_process_name :: string
  wm_process_path :: string
  wm_pid :: u32
  wm_aumid :: "string option"
  wm_urls :: "web_record list"
  wm_files :: "file_record list"

record exclusions =
  ex_processes :: "string list"
  ex_domains :: "string list"

definition exclusions_new :: "string list \<Rightarrow> string list \<Rightarrow> exclusions" where
  "exclusions_new processes domains =
     \<lparr>ex_processes = map to_lowercase processes, ex_domains = map to_lowercase domains\<rparr>"

definition process_excluded :: "exclusions \<Rightarrow> string \<Rightarrow> bool" where
  "process_excluded ex name =
     (let n = to_lowercase name
      in list_ex (\<lambda>p. n = p \<or> ends_with (CHR 0x5C # p) n \<or> ends_with (CHR ''/'' # p) n) (ex_processes ex))"

definition domain_excluded :: "exclusions \<Rightarrow> string \<Rightarrow> bool" where
  "domain_excluded ex host =
     (let h = to_lowercase host
      in list_ex (\<lambda>d. h = d \<or> ends_with (CHR ''.'' # d) h) (ex_domains ex))"

datatype drop_reason =
    Paused
  | ProtectedWindow
  | ExcludedProcess
  | ExcludedDomain
  | NoWindow

definition check :: "bool \<Rightarrow> window_meta option \<Rightarrow> exclusions \<Rightarrow> bool \<Rightarrow> drop_reason option" where
  "check paused meta ex protected_hwnd =
     (if paused then Some Paused
      else case meta of
             None \<Rightarrow> Some NoWindow
           | Some m \<Rightarrow>
               if protected_hwnd then Some ProtectedWindow
               else if process_excluded ex (wm_process_name m) then Some ExcludedProcess
               else if list_ex (\<lambda>w. domain_excluded ex (web_domain w)) (wm_urls m) then Some ExcludedDomain
               else None)"

section \<open>Text of Windows\<close>

text \<open>Windows hands out UTF-16. A character of the model's strings is one unit; a unit that none of
  them has becomes a question mark. What the code takes from a buffer ends before the first zero.\<close>

definition encode_utf16 :: "string \<Rightarrow> u16 list" where
  "encode_utf16 s = map of_char s"

definition from_utf16_lossy :: "u16 list \<Rightarrow> string" where
  "from_utf16_lossy units = map (\<lambda>u. if u < 256 then char_of (unat u) else CHR ''?'') units"

definition until_nul :: "u16 list \<Rightarrow> u16 list" where
  "until_nul units = takeWhile (\<lambda>u. u \<noteq> 0) units"

lemma char_code: "(of_char c :: nat) mod 65536 = of_char c" "(of_char c :: nat) < 256"
proof -
  have "(of_char c :: nat) mod 256 < 256" by simp
  then show "(of_char c :: nat) < 256" by (simp only: of_char_mod_256)
  then show "(of_char c :: nat) mod 65536 = of_char c" by (intro mod_less) (erule less_trans, simp)
qed

lemma unat_char: "unat (of_char c :: u16) = of_char c"
proof -
  have "unat (word_of_nat (of_char c) :: u16) = of_char c" by (simp only: unat_of_nat) (simp add: char_code)
  then show ?thesis by (simp only: of_nat_of_char)
qed

lemma utf16_roundtrip [simp]: "from_utf16_lossy (encode_utf16 s) = s"
proof -
  have "(of_char c :: u16) < 256" for c
    by (simp add: word_less_nat_alt unat_char char_code)
  then show ?thesis by (induction s) (simp_all add: encode_utf16_def from_utf16_lossy_def unat_char)
qed

definition no_nul :: "string \<Rightarrow> bool" where "no_nul s \<longleftrightarrow> CHR 0x00 \<notin> set s"

lemma until_nul_utf16 [simp]:
  assumes "no_nul s"
  shows "until_nul (encode_utf16 s @ 0 # rest) = encode_utf16 s"
proof -
  have "(of_char c :: u16) \<noteq> 0" if "c \<noteq> CHR 0x00" for c
  proof
    assume "(of_char c :: u16) = 0"
    then have "of_char c = (0 :: nat)" using unat_char [of c] by simp
    then have "of_char c = (of_char (CHR 0x00) :: nat)" by simp
    then show False using that by (simp only: of_char_eq_iff)
  qed
  then have "u \<noteq> 0" if "u \<in> set (encode_utf16 s)" for u
    using assms that unfolding encode_utf16_def no_nul_def set_map by (metis imageE)
  then show ?thesis unfolding until_nul_def by (subst takeWhile_append2) simp_all
qed

section \<open>Window metadata\<close>

text \<open>The answers of the windowing system. \<open>wo_process\<close>: \<open>OpenProcess\<close> fails, or gives the path of
  the image (if it can be queried) and the two answers about the AUMID of the process (the length
  it asks for, and the buffer). \<open>wo_window_aumid\<close>: the text of the window's property, if every call
  on the way succeeds. \<open>wo_edits\<close>: the edit controls of the UI Automation tree, each unreadable or
  with its name and, if it can be read, its value. \<open>wo_shell\<close>: the location URLs of the shell
  windows, \<open>None\<close> where a call fails.\<close>

record window_os =
  wo_hwnd :: int
  wo_title :: "u16 list"
  wo_rect :: window_bounds
  wo_pid :: u32
  wo_process :: "(u16 list option \<times> u32 \<times> u16 list option) option"
  wo_window_aumid :: "string option"
  wo_affinity :: "u32 option"
  wo_edits :: "(string \<times> string option) option list"
  wo_shell :: "string option list"

text \<open>\<open>rsplit(seps).next()\<close> and \<open>split(seps).next()\<close>.\<close>

definition last_part :: "char list \<Rightarrow> string \<Rightarrow> string" where
  "last_part seps s = rev (takeWhile (\<lambda>c. c \<notin> set seps) (rev s))"

definition first_part :: "char list \<Rightarrow> string \<Rightarrow> string" where
  "first_part seps s = takeWhile (\<lambda>c. c \<notin> set seps) s"

definition replace_char :: "char \<Rightarrow> char \<Rightarrow> string \<Rightarrow> string" where
  "replace_char a b s = map (\<lambda>c. if c = a then b else c) s"

fun contains :: "string \<Rightarrow> string \<Rightarrow> bool" where
  "contains pat [] = (pat = [])"
| "contains pat (c # cs) = (starts_with pat (c # cs) \<or> contains pat cs)"

definition aumid_for :: "u32 \<Rightarrow> u16 list option \<Rightarrow> string option" where
  "aumid_for len answer =
     (if len = 0 \<or> 4096 < len then None
      else case answer of
             None \<Rightarrow> None
           | Some buf \<Rightarrow>
               let units = until_nul (take (unat len) buf)
               in if units = [] then None else Some (from_utf16_lossy units))"

definition aumid_for_window :: "string option \<Rightarrow> string option" where
  "aumid_for_window v = (case v of Some t \<Rightarrow> if t \<noteq> [] then Some t else None | None \<Rightarrow> None)"

text \<open>The title has at most 512 units.\<close>

definition foreground_meta :: "window_os \<Rightarrow> window_meta" where
  "foreground_meta os =
     (let (process_path, process_name, aumid) =
            (case wo_process os of
               None \<Rightarrow> ([], [], None)
             | Some (img, len, answer) \<Rightarrow>
                 (case img of
                    None \<Rightarrow> ([], [], aumid_for len answer)
                  | Some units \<Rightarrow>
                      let p = from_utf16_lossy units
                      in (p, to_lowercase (last_part [CHR 0x5C, CHR ''/''] p), aumid_for len answer)))
      in \<lparr>wm_hwnd = wo_hwnd os, wm_title = from_utf16_lossy (take 512 (wo_title os)), wm_bounds = wo_rect os,
          wm_is_foreground = True, wm_process_name = process_name, wm_process_path = process_path,
          wm_pid = wo_pid os,
          wm_aumid = (case aumid of None \<Rightarrow> aumid_for_window (wo_window_aumid os) | Some a \<Rightarrow> Some a),
          wm_urls = [], wm_files = []\<rparr>)"

definition capture_name :: "window_meta \<Rightarrow> string" where
  "capture_name m = wm_process_name m @ '' ('' @ dec_digits (unat (wm_pid m)) @ '')''"

definition activation_uri :: "window_meta \<Rightarrow> string option" where
  "activation_uri m = map_option (\<lambda>a. ''shell:AppsFolder'' @ [CHR 0x5C] @ a) (wm_aumid m)"

definition fallback_uri :: "window_meta \<Rightarrow> string option" where
  "fallback_uri m =
     (if wm_process_path m = [] then None
      else Some (''file:///'' @ replace_char (CHR 0x5C) (CHR ''/'') (wm_process_path m)))"

definition app_record_of :: "window_meta \<Rightarrow> app_record option" where
  "app_record_of m =
     (if wm_process_name m = [] then None
      else Some \<lparr>app_windows_app_id = wm_aumid m, app_icon_uri = None, app_name = wm_process_name m,
                 app_path = (if wm_process_path m = [] then None else Some (wm_process_path m)),
                 app_properties = None\<rparr>)"

definition url_host :: "string \<Rightarrow> string" where
  "url_host url =
     (let s = (case strip_prefix ''http://'' url of
                 Some r \<Rightarrow> r
               | None \<Rightarrow> (case strip_prefix ''https://'' url of Some r \<Rightarrow> r | None \<Rightarrow> url))
      in to_lowercase (first_part [CHR ''/'', CHR ''?'', CHR ''#'', CHR '':''] s))"

text \<open>The loop over the edit controls stops at the first address that is taken.\<close>

fun browser_url :: "(string \<times> string option) option list \<Rightarrow> web_record list" where
  "browser_url [] = []"
| "browser_url (None # es) = browser_url es"
| "browser_url (Some (name, value_text) # es) =
     (let lname = to_lowercase name
      in if \<not> (contains ''address'' lname \<or> contains ''url'' lname \<or> contains ''search'' lname)
         then browser_url es
         else case value_text of
                None \<Rightarrow> browser_url es
              | Some url \<Rightarrow>
                  if starts_with ''http://'' url \<or> starts_with ''https://'' url \<or> CHR ''.'' \<in> set url then
                    let host = url_host url
                    in if host \<noteq> []
                       then [\<lparr>web_domain = host, web_uri = url, web_icon_uri = None, web_properties = None\<rparr>]
                       else browser_url es
                  else browser_url es)"

definition explorer_path :: "string option \<Rightarrow> file_record option" where
  "explorer_path loc =
     (case loc of
        None \<Rightarrow> None
      | Some url \<Rightarrow>
          (case strip_prefix ''file:///'' url of
             None \<Rightarrow> None
           | Some rest \<Rightarrow>
               let p = replace_char (CHR ''/'') (CHR 0x5C) rest;
                   name = last_part [CHR 0x5C] p
               in Some \<lparr>file_path = rev (dropWhile (\<lambda>c. c = CHR 0x5C) (rev p)), file_name = name,
                        file_extension = (if CHR ''.'' \<in> set name then Some (last_part [CHR ''.''] name) else None),
                        file_kind = Some ''folder'', file_type = None, file_properties = None,
                        file_object_id = None, file_volume_id = None\<rparr>))"

definition explorer_paths :: "string option list \<Rightarrow> file_record list" where
  "explorer_paths items = List.map_filter explorer_path items"

definition is_protected_window :: "u32 option \<Rightarrow> bool" where
  "is_protected_window affinity = (case affinity of Some a \<Rightarrow> a \<noteq> 0 | None \<Rightarrow> False)"

section \<open>Pixels and samples\<close>

text \<open>The rows of the mapped texture without the padding of the pitch.\<close>

definition copy_rows :: "nat \<Rightarrow> nat \<Rightarrow> nat \<Rightarrow> bytes \<Rightarrow> bytes" where
  "copy_rows width height row_pitch pixels =
     concat (map (\<lambda>y. take (width * 4) (drop (y * row_pitch) pixels)) [0..<height])"

fun bgra_to_rgb :: "bytes \<Rightarrow> bytes" where
  "bgra_to_rgb (b # g # r # a # px) = r # g # b # bgra_to_rgb px"
| "bgra_to_rgb px = []"

type_synonym jpeg_encoder = "bytes \<Rightarrow> u32 \<Rightarrow> u32 \<Rightarrow> u8 \<Rightarrow> string + bytes"

definition encode_jpeg :: "jpeg_encoder \<Rightarrow> bytes \<Rightarrow> u32 \<Rightarrow> u32 \<Rightarrow> u8 \<Rightarrow> string + bytes" where
  "encode_jpeg enc bgra width height quality = enc (bgra_to_rgb bgra) width height quality"

text \<open>One packet of the loopback device as 16-bit samples. A float sample is clamped to one and scaled
  to 32767.\<close>

definition sample_i16 :: "f32 \<Rightarrow> u16" where
  "sample_i16 f = word_of_int (f32_to_int (- (2 ^ 15)) (2 ^ 15 - 1)
     (f32_mul (f32_clamp 0xBF800000 0x3F800000 f) 0x46FFFE00))"

definition pcm_packet :: "bool \<Rightarrow> nat \<Rightarrow> bytes \<Rightarrow> u16 list" where
  "pcm_packet float_samples bits src =
     (if float_samples \<and> bits = 32 then map (\<lambda>s. sample_i16 (le_word s)) (as_chunks 4 src)
      else if bits = 16 then map le_word (as_chunks 2 src)
      else if bits = 32 \<and> \<not> float_samples then
        map (\<lambda>s. ucast (signed_drop_bit 16 (le_word s :: u32))) (as_chunks 4 src)
      else [])"

text \<open>The hash over the first 16 bytes of every 4096.\<close>

definition cheap_hash :: "bytes \<Rightarrow> u64" where
  "cheap_hash bgra =
     foldl (\<lambda>h chunk. foldl (\<lambda>h b. (h XOR ucast b) * 0x100000001b3) h (take 16 chunk))
       0xcbf29ce484222325 (chunks_of 4096 bgra)"

section \<open>Text recognition\<close>

text \<open>\<open>ocr.rs\<close>: the answers of the OCR engine. A word has its rectangle (left, top, width, height) and
  its text, a line its words; every call may fail.\<close>

type_synonym ocr_word = "(string + f32 \<times> f32 \<times> f32 \<times> f32) \<times> (string + string)"
type_synonym ocr_line = "string + ocr_word list"

record winrt =
  wr_engine :: bool
  wr_bitmap :: "int \<Rightarrow> int \<Rightarrow> string + unit"
  wr_copy :: "bytes \<Rightarrow> string + unit"
  wr_recognize :: "bytes \<Rightarrow> string + ocr_line list"

definition ocr_available :: "winrt \<Rightarrow> bool" where "ocr_available wr \<longleftrightarrow> wr_engine wr"

definition ocr_region :: "ocr_word \<Rightarrow> string + screen_region_record" where
  "ocr_region word =
     rbind (fst word) (\<lambda>(x, y, w, h).
     rbind (snd word) (\<lambda>t.
     Inr \<lparr>sreg_region_kind = ''text'', sreg_ocr_text = Some t,
          sreg_bounds = fmt_int 0 (f32_to_i32 x) @ '','' @ fmt_int 0 (f32_to_i32 y) @ '',''
            @ fmt_int 0 (f32_to_i32 (f32_add x w)) @ '','' @ fmt_int 0 (f32_to_i32 (f32_add y h))\<rparr>))"

text \<open>The two loops push region after region; a failing call drops them all.\<close>

fun ocr_words :: "ocr_word list \<Rightarrow> screen_region_record list \<Rightarrow> string + screen_region_record list" where
  "ocr_words [] acc = Inr acc"
| "ocr_words (w # ws) acc = rbind (ocr_region w) (\<lambda>r. ocr_words ws (acc @ [r]))"

fun ocr_lines :: "ocr_line list \<Rightarrow> screen_region_record list \<Rightarrow> string + screen_region_record list" where
  "ocr_lines [] acc = Inr acc"
| "ocr_lines (l # ls) acc = rbind l (\<lambda>ws. rbind (ocr_words ws acc) (ocr_lines ls))"

definition ocr_bgra :: "winrt \<Rightarrow> bytes \<Rightarrow> u32 \<Rightarrow> u32 \<Rightarrow> string + screen_region_record list" where
  "ocr_bgra wr bgra width height =
     (if \<not> wr_engine wr then Inr []
      else
        rbind (wr_bitmap wr (sint width) (sint height)) (\<lambda>_.
        rbind (wr_copy wr bgra) (\<lambda>_.
        rbind (wr_recognize wr bgra) (\<lambda>lines. ocr_lines lines []))))"

text \<open>The regions are the words in reading order, one for each.\<close>

lemma ocr_words_regions:
  "ocr_words ws acc = Inr rs \<Longrightarrow> \<exists>xs. rs = acc @ xs \<and> map Inr xs = map ocr_region ws"
proof (induction ws arbitrary: acc)
  case (Cons w ws)
  then obtain r where r: "ocr_region w = Inr r" "ocr_words ws (acc @ [r]) = Inr rs"
    by (auto simp: rbind_Inr_iff)
  from Cons.IH [OF r(2)] show ?case using r(1) by (metis append.assoc append_Cons append_Nil list.simps(9))
qed simp

lemma ocr_lines_regions:
  "ocr_lines ls acc = Inr rs \<Longrightarrow>
     \<exists>wss xs. ls = map Inr wss \<and> rs = acc @ xs \<and> map Inr xs = map ocr_region (concat wss)"
proof (induction ls arbitrary: acc)
  case (Cons l ls)
  then obtain ws acc' where l: "l = Inr ws" "ocr_words ws acc = Inr acc'" "ocr_lines ls acc' = Inr rs"
    by (auto simp: rbind_Inr_iff)
  from ocr_words_regions [OF l(2)] Cons.IH [OF l(3)] show ?case
    using l(1) by (metis (no_types, lifting) append.assoc concat.simps(2) list.simps(9) map_append)
qed simp

end
