(* ===== verification/Client_Run.thy ===== *)
theory Client_Run
  imports Client_Capture
begin

text \<open>
  The capture client's configuration (\<open>config.rs\<close>, \<open>main.rs\<close>), the hand-over of the configuration
  to the Windows service (\<open>service.rs\<close>) and the capture loop with its reconnects (\<open>run.rs\<close>). An
  operation on the registry returns its result and the registry it leaves.
\<close>

section \<open>Configuration\<close>

record client_config =
  cc_server :: string
  cc_server_name :: string
  cc_fingerprint :: "string option"
  cc_psk :: "string option"
  cc_client_id :: "uuid option"
  cc_capture_interval_ms :: u64
  cc_enable_audio :: bool
  cc_enable_ocr :: bool
  cc_excluded_processes :: "string list"
  cc_excluded_domains :: "string list"

definition client_config_default :: client_config where
  "client_config_default =
     \<lparr>cc_server = ''127.0.0.1:8443'', cc_server_name = ''precall-server'', cc_fingerprint = None,
      cc_psk = None, cc_client_id = None, cc_capture_interval_ms = 5000, cc_enable_audio = False,
      cc_enable_ocr = True, cc_excluded_processes = [''credential manager'', ''lockapp.exe''],
      cc_excluded_domains = []\<rparr>"

text \<open>The values below \<open>HKCU\Software\Precall\<close>, each the UTF-16 units of its data (with the final
  zero), and the return codes of the two calls that write (zero for success). Without Windows there
  are no values and none can be set.\<close>

record registry =
  reg_windows :: bool
  reg_values :: "string \<Rightarrow> u16 list option"
  reg_create_rc :: nat
  reg_set_rc :: nat

definition reg_get :: "string \<Rightarrow> registry \<Rightarrow> string option" where
  "reg_get name reg =
     (if \<not> reg_windows reg then None
      else case reg_values reg name of
             None \<Rightarrow> None
           | Some units \<Rightarrow> if units = [] then None else Some (from_utf16_lossy (until_nul units)))"

definition win_error :: "string \<Rightarrow> nat \<Rightarrow> string" where
  "win_error call rc = call @ '': WIN32_ERROR('' @ dec_digits rc @ '')''"

definition reg_set :: "string \<Rightarrow> string \<Rightarrow> registry \<Rightarrow> (string + unit) \<times> registry" where
  "reg_set name v reg =
     (if \<not> reg_windows reg then (Inl ''registry is Windows-only'', reg)
      else if reg_create_rc reg \<noteq> 0 then (Inl (win_error ''RegCreateKeyExW'' (reg_create_rc reg)), reg)
      else if reg_set_rc reg \<noteq> 0 then (Inl (win_error ''RegSetValueExW'' (reg_set_rc reg)), reg)
      else (Inr (), reg\<lparr>reg_values := (reg_values reg)(name \<mapsto> encode_utf16 v @ [0])\<rparr>))"

definition or_else :: "'a option \<Rightarrow> 'a option \<Rightarrow> 'a option" where
  "or_else a b = (case a of None \<Rightarrow> b | Some _ \<Rightarrow> a)"

text \<open>\<open>parse_uuid\<close> is the UUID parser (its result is the canonical text), \<open>env_psk\<close> the variable
  \<open>PRECALL_PSK\<close>, \<open>fresh\<close> the identity \<open>Uuid::new_v4\<close> would draw.\<close>

definition resolve ::
  "(string \<Rightarrow> uuid option) \<Rightarrow> string option \<Rightarrow> uuid \<Rightarrow> client_config \<Rightarrow> registry
     \<Rightarrow> (string + client_config) \<times> registry" where
  "resolve parse_uuid env_psk fresh cfg reg =
     (let cfg1 =
            cfg\<lparr>cc_server :=
                  (if cc_server cfg = ''127.0.0.1:8443''
                   then case reg_get ''Server'' reg of Some v \<Rightarrow> v | None \<Rightarrow> cc_server cfg
                   else cc_server cfg),
                cc_server_name :=
                  (if cc_server_name cfg = ''precall-server''
                   then case reg_get ''ServerName'' reg of Some v \<Rightarrow> v | None \<Rightarrow> cc_server_name cfg
                   else cc_server_name cfg),
                cc_fingerprint := or_else (cc_fingerprint cfg) (reg_get ''Fingerprint'' reg),
                cc_psk := or_else (cc_psk cfg) (or_else (reg_get ''Psk'' reg) env_psk),
                cc_client_id := or_else (cc_client_id cfg) (Option.bind (reg_get ''ClientId'' reg) parse_uuid)\<rparr>
      in case cc_client_id cfg1 of
           Some _ \<Rightarrow> (Inr cfg1, reg)
         | None \<Rightarrow>
             (case reg_set ''ClientId'' fresh reg of
                (Inl e, reg') \<Rightarrow> (Inl e, reg')
              | (Inr _, reg') \<Rightarrow> (Inr (cfg1\<lparr>cc_client_id := Some fresh\<rparr>), reg')))"

definition set_opt :: "string \<Rightarrow> string option \<Rightarrow> registry \<Rightarrow> (string + unit) \<times> registry" where
  "set_opt name v reg = (case v of None \<Rightarrow> (Inr (), reg) | Some x \<Rightarrow> reg_set name x reg)"

definition persist :: "client_config \<Rightarrow> registry \<Rightarrow> (string + unit) \<times> registry" where
  "persist cfg =
     act_bind (reg_set ''Server'' (cc_server cfg)) (\<lambda>_.
     act_bind (reg_set ''ServerName'' (cc_server_name cfg)) (\<lambda>_.
     act_bind (set_opt ''Fingerprint'' (cc_fingerprint cfg)) (\<lambda>_.
     act_bind (set_opt ''Psk'' (cc_psk cfg)) (\<lambda>_.
     set_opt ''ClientId'' (cc_client_id cfg)))))"

record run_args =
  ra_server :: "string option"
  ra_server_name :: "string option"
  ra_fingerprint :: "string option"
  ra_psk :: "string option"
  ra_capture_interval_ms :: "u64 option"
  ra_audio :: bool
  ra_no_ocr :: bool
  ra_exclude_processes :: "string list"
  ra_exclude_domains :: "string list"
  ra_as_service :: bool

definition args_config :: "run_args \<Rightarrow> client_config" where
  "args_config a =
     (let c = client_config_default
      in c\<lparr>cc_server := (case ra_server a of Some s \<Rightarrow> s | None \<Rightarrow> cc_server c),
           cc_server_name := (case ra_server_name a of Some s \<Rightarrow> s | None \<Rightarrow> cc_server_name c),
           cc_fingerprint := ra_fingerprint a, cc_psk := ra_psk a,
           cc_capture_interval_ms :=
             (case ra_capture_interval_ms a of Some ms \<Rightarrow> ms | None \<Rightarrow> cc_capture_interval_ms c),
           cc_enable_audio := ra_audio a, cc_enable_ocr := (\<not> ra_no_ocr a),
           cc_excluded_processes :=
             (if ra_exclude_processes a \<noteq> [] then ra_exclude_processes a else cc_excluded_processes c),
           cc_excluded_domains :=
             (if ra_exclude_domains a \<noteq> [] then ra_exclude_domains a else cc_excluded_domains c)\<rparr>)"

definition run_config ::
  "(string \<Rightarrow> uuid option) \<Rightarrow> string option \<Rightarrow> uuid \<Rightarrow> run_args \<Rightarrow> registry
     \<Rightarrow> (string + client_config) \<times> registry" where
  "run_config parse_uuid env_psk fresh a reg = resolve parse_uuid env_psk fresh (args_config a) reg"

definition enroll ::
  "(string \<Rightarrow> uuid option) \<Rightarrow> string option \<Rightarrow> uuid \<Rightarrow> run_args \<Rightarrow> registry \<Rightarrow> (string + unit) \<times> registry" where
  "enroll parse_uuid env_psk fresh a = act_bind (run_config parse_uuid env_psk fresh a) persist"

text \<open>\<open>SERVICE_CONFIG\<close> is thread-local: one slot per thread. The dispatcher runs \<open>service_main\<close> on
  a thread of its choice.\<close>

definition stash_config :: "nat \<Rightarrow> client_config \<Rightarrow> (nat \<Rightarrow> client_config option) \<Rightarrow> nat \<Rightarrow> client_config option" where
  "stash_config thread cfg slots = slots(thread \<mapsto> cfg)"

definition service_config :: "nat \<Rightarrow> (nat \<Rightarrow> client_config option) \<Rightarrow> client_config" where
  "service_config thread slots =
     (case slots thread of Some cfg \<Rightarrow> cfg | None \<Rightarrow> client_config_default)"

section \<open>The capture loop\<close>

record capture_frame =
  cf_bgra :: bytes
  cf_width :: u32
  cf_height :: u32
  cf_dirty_regions :: u32

record counters =
  ct_frames_sent :: u64
  ct_frames_skipped_unchanged :: u64
  ct_frames_skipped_privacy :: u64

record client_state =
  cs_conn :: connection
  cs_paused :: bool
  cs_counters :: counters
  cs_last_hash :: u64
  cs_latest_frame :: "capture_frame option"
  cs_pending :: "u64 list"

text \<open>What one tick of the capture timer meets: the windowing system, the encoder, the answer of
  the OCR engine, a new image token, the time, and the JSON printer of batches.\<close>

record tick_env =
  te_os :: window_os
  te_jpeg :: jpeg_encoder
  te_ocr :: winrt
  te_token :: string
  te_now :: u64
  te_print_batch :: "capture_batch \<Rightarrow> string + bytes"

definition bounds_text :: "window_bounds \<Rightarrow> string" where
  "bounds_text b =
     fmt_int 0 (wb_left b) @ '','' @ fmt_int 0 (wb_top b) @ '','' @ fmt_int 0 (wb_right b) @ '','' @ fmt_int 0 (wb_bottom b)"

definition window_record :: "client_config \<Rightarrow> tick_env \<Rightarrow> capture_frame \<Rightarrow> window_capture_record" where
  "window_record cfg te frame =
     (let os = te_os te; meta = foreground_meta os
      in \<lparr>wcr_name = capture_name meta, wcr_image_token = te_token te, wcr_is_foreground = True,
          wcr_window_id = wm_hwnd meta, wcr_window_bounds = bounds_text (wm_bounds meta),
          wcr_window_title = wm_title meta, wcr_properties = None, wcr_timestamp_100ns = te_now te,
          wcr_activation_uri = activation_uri meta, wcr_activity_id = wm_aumid meta,
          wcr_fallback_uri = fallback_uri meta,
          wcr_apps = (case app_record_of meta of None \<Rightarrow> [] | Some a \<Rightarrow> [a]),
          wcr_files = explorer_paths (wo_shell os),
          wcr_webs = (if wm_pid meta \<noteq> 0 then browser_url (wo_edits os) else []),
          wcr_regions =
            (if cc_enable_ocr cfg
             then (case ocr_bgra (te_ocr te) (cf_bgra frame) (cf_width frame) (cf_height frame) of
                     Inr r \<Rightarrow> r | Inl _ \<Rightarrow> [])
             else [])\<rparr>)"

definition push_time :: "u64 \<Rightarrow> u64 list \<Rightarrow> u64 list" where
  "push_time now pending =
     (let p = pending @ [now] in if 64 < length p then tl p else p)"

definition count_unchanged :: "counters \<Rightarrow> counters" where
  "count_unchanged c = c\<lparr>ct_frames_skipped_unchanged := ct_frames_skipped_unchanged c + 1\<rparr>"

definition count_privacy :: "counters \<Rightarrow> counters" where
  "count_privacy c = c\<lparr>ct_frames_skipped_privacy := ct_frames_skipped_privacy c + 1\<rparr>"

definition count_sent :: "counters \<Rightarrow> counters" where
  "count_sent c = c\<lparr>ct_frames_sent := ct_frames_sent c + 1\<rparr>"

text \<open>The two sends of a capture; the result says whether the session goes on.\<close>

definition send_capture ::
  "client_config \<Rightarrow> tick_env \<Rightarrow> capture_frame \<Rightarrow> bytes \<Rightarrow> client_state \<Rightarrow> bool \<times> client_state" where
  "send_capture cfg te frame jpeg s =
     (let s1 = s\<lparr>cs_pending := push_time (te_now te) (cs_pending s)\<rparr>
      in case send_frame jpeg (cf_width frame) (cf_height frame) (te_now te) (cs_conn s1) of
           (Inl e, c) \<Rightarrow> (False, s1\<lparr>cs_conn := c\<rparr>)
         | (Inr _, c) \<Rightarrow>
             (case send_meta (te_print_batch te) (window_record cfg te frame) c of
                (Inl e, c') \<Rightarrow> (False, s1\<lparr>cs_conn := c'\<rparr>)
              | (Inr _, c') \<Rightarrow>
                  (True, s1\<lparr>cs_conn := c', cs_counters := count_sent (cs_counters s1)\<rparr>)))"

definition capture_tick ::
  "client_config \<Rightarrow> exclusions \<Rightarrow> tick_env \<Rightarrow> client_state \<Rightarrow> bool \<times> client_state" where
  "capture_tick cfg ex te s =
     (case cs_latest_frame s of
        None \<Rightarrow> (True, s)
      | Some frame \<Rightarrow>
          let s1 = s\<lparr>cs_latest_frame := None\<rparr>;
              hash = cheap_hash (cf_bgra frame)
          in if hash = cs_last_hash s1 \<and> cf_dirty_regions frame = 0
             then (True, s1\<lparr>cs_counters := count_unchanged (cs_counters s1)\<rparr>)
             else
               let s2 = s1\<lparr>cs_last_hash := hash\<rparr>
               in case check (cs_paused s2) (Some (foreground_meta (te_os te))) ex
                         (is_protected_window (wo_affinity (te_os te))) of
                    Some reason \<Rightarrow>
                      (True, if reason \<noteq> NoWindow
                             then s2\<lparr>cs_counters := count_privacy (cs_counters s2)\<rparr> else s2)
                  | None \<Rightarrow>
                      (case encode_jpeg (te_jpeg te) (cf_bgra frame) (cf_width frame) (cf_height frame) 80 of
                         Inl e \<Rightarrow> (True, s2)
                       | Inr jpeg \<Rightarrow> send_capture cfg te frame jpeg s2))"

text \<open>The period of the heartbeats, in milliseconds: what the broker asked for, at least five
  seconds.\<close>

definition heartbeat_period :: "server_hello \<Rightarrow> nat" where
  "heartbeat_period hello = max (unat (sh_heartbeat_interval_ms hello)) 5000"

text \<open>\<open>next_ctrl\<close>: what arrives within 50 ms.\<close>

datatype inbound =
    Silence
  | Arrived mux_frame
  | StreamError proto_error
  | Closed

definition next_ctrl :: "(bytes \<Rightarrow> string + control_message) \<Rightarrow> inbound \<Rightarrow> string + control_message option" where
  "next_ctrl parse_ctrl i =
     (case i of
        Silence \<Rightarrow> Inr None
      | Arrived f \<Rightarrow>
          if channel f = PcCtrl
          then (case parse_ctrl (payload f) of Inl e \<Rightarrow> Inl e | Inr m \<Rightarrow> Inr (Some m))
          else Inr None
      | StreamError e \<Rightarrow> Inl ''proto''
      | Closed \<Rightarrow> Inl ''server closed connection'')"

definition handle_control :: "string + control_message option \<Rightarrow> client_state \<Rightarrow> bool \<times> client_state" where
  "handle_control msg s =
     (case msg of
        Inr (Some Pause) \<Rightarrow> (True, s\<lparr>cs_paused := True\<rparr>)
      | Inr (Some (Resume until)) \<Rightarrow> (True, s\<lparr>cs_paused := False\<rparr>)
      | Inr (Some PanicWipe) \<Rightarrow> (True, s\<lparr>cs_pending := [], cs_paused := True\<rparr>)
      | Inr (Some (Goodbye reason)) \<Rightarrow> (False, s)
      | Inr _ \<Rightarrow> (True, s)
      | Inl _ \<Rightarrow> (False, s))"

datatype session_event =
    StopSignal
  | Frame "capture_frame option"
  | Audio "u16 list" u16 u32
  | Tick tick_env
  | HeartbeatTick
  | Inbound inbound

text \<open>The JSON functions of the loop: audio headers, control messages out, control messages in.\<close>

record client_json =
  cj_audio :: "u16 \<Rightarrow> u32 \<Rightarrow> string + bytes"
  cj_print_ctrl :: "control_message \<Rightarrow> string + bytes"
  cj_parse_ctrl :: "bytes \<Rightarrow> string + control_message"

definition after_send :: "(proto_error + unit) \<times> connection \<Rightarrow> client_state \<Rightarrow> bool \<times> client_state" where
  "after_send r s = (is_ok (fst r), s\<lparr>cs_conn := snd r\<rparr>)"

text \<open>One turn of the inner \<open>select!\<close>.\<close>

fun session_step ::
  "client_config \<Rightarrow> exclusions \<Rightarrow> client_json \<Rightarrow> session_event \<Rightarrow> client_state \<Rightarrow> bool \<times> client_state" where
  "session_step cfg ex js StopSignal s = (False, s)"
| "session_step cfg ex js (Frame (Some f)) s = (True, s\<lparr>cs_latest_frame := Some f\<rparr>)"
| "session_step cfg ex js (Frame None) s = (False, s)"
| "session_step cfg ex js (Audio pcm channels rate) s =
     (if cc_enable_audio cfg then after_send (send_audio (cj_audio js) pcm channels rate (cs_conn s)) s
      else (True, s))"
| "session_step cfg ex js (Tick te) s = capture_tick cfg ex te s"
| "session_step cfg ex js HeartbeatTick s =
     after_send (send_ctrl (cj_print_ctrl js)
       (Heartbeat (ct_frames_sent (cs_counters s)) (ct_frames_skipped_unchanged (cs_counters s))
          (word_of_nat (length (cs_pending s)))) (cs_conn s)) s"
| "session_step cfg ex js (Inbound i) s = handle_control (next_ctrl (cj_parse_ctrl js) i) s"

fun session_run ::
  "client_config \<Rightarrow> exclusions \<Rightarrow> client_json \<Rightarrow> session_event list \<Rightarrow> client_state \<Rightarrow> client_state" where
  "session_run cfg ex js [] s = s"
| "session_run cfg ex js (e # es) s =
     (case session_step cfg ex js e s of
        (True, s') \<Rightarrow> session_run cfg ex js es s'
      | (False, s') \<Rightarrow> s')"

section \<open>Reconnecting\<close>

text \<open>An attempt to connect fails, or there is a session with its events. The state of the outer
  loop is the backoff in milliseconds and what outlives a session; the result also lists the
  sleeps.\<close>

datatype attempt =
    ConnectFailed
  | ConnectedSession "session_event list"

definition next_backoff :: "nat \<Rightarrow> nat" where
  "next_backoff b = min (b * 2) 30000"

definition session_state_of :: "uuid \<Rightarrow> client_state \<Rightarrow> client_state" where
  "session_state_of client_id s =
     s\<lparr>cs_conn := connection_new client_id, cs_latest_frame := None, cs_pending := []\<rparr>"

fun run ::
  "client_config \<Rightarrow> exclusions \<Rightarrow> client_json \<Rightarrow> uuid \<Rightarrow> attempt list \<Rightarrow> nat \<Rightarrow> client_state
     \<Rightarrow> nat list \<times> nat \<times> client_state" where
  "run cfg ex js cid [] b s = ([], b, s)"
| "run cfg ex js cid (ConnectFailed # as) b s =
     (case run cfg ex js cid as (next_backoff b) s of (sleeps, r) \<Rightarrow> (b # sleeps, r))"
| "run cfg ex js cid (ConnectedSession es # as) b s =
     run cfg ex js cid as 500 (session_run cfg ex js es (session_state_of cid s))"

end
