(* ===== verification/Broker_Session.thy ===== *)
theory Broker_Session
  imports Ingest_Safety Client_Run
begin

text \<open>
  The session loop of the broker in time (\<open>handle_conn\<close> of \<open>ingest.rs\<close>, from the \<open>Framed\<close> stream to
  the end of the session): the \<open>select!\<close> over the next item of the stream and the heartbeat timer.
  An event carries its moment in milliseconds. \<open>session_loop\<close> of \<open>Broker_Ingest\<close> is what the session
  does with the bytes it is sent; here is when it stops to listen. The control channel of the
  \<open>select!\<close> has no sender but the session's own, so its branch is never taken.
\<close>

section \<open>Events\<close>

text \<open>An item of the stream (a frame, or the error that the codec or the transport reports), the
  end of the stream, or a tick of the timer.\<close>

datatype broker_event =
    StreamItem nat "proto_error + mux_frame"
  | StreamEnd nat
  | HeartbeatCheck nat

datatype session_end =
    PeerGone
  | TimedOut
  | SessionFailed broker_error

text \<open>What the \<open>Framed\<close> stream yields for what was read, and what it yields when the transport
  ends: a buffer that holds an unfinished frame is an error, an empty one the end.\<close>

definition stream_items :: "bytes list \<Rightarrow> (proto_error + mux_frame) list" where
  "stream_items reads =
     (case feed_all mux_decode reads of
        (frames, buf, err) \<Rightarrow> map Inr frames @ (case err of None \<Rightarrow> [] | Some e \<Rightarrow> [Inl e]))"

definition stream_closed :: "nat \<Rightarrow> bytes list \<Rightarrow> broker_event" where
  "stream_closed now reads =
     (case feed_all mux_decode reads of
        (frames, buf, err) \<Rightarrow>
          if buf = [] then StreamEnd now else StreamItem now (Inl (Io ''bytes remaining on stream'')))"

section \<open>The loop\<close>

text \<open>The state of the loop is \<open>last_seen\<close> and the session's state. One turn of the \<open>select!\<close>:\<close>

definition check_heartbeat :: "nat \<Rightarrow> nat \<Rightarrow> nat \<Rightarrow> bool" where
  "check_heartbeat interval now last_seen \<longleftrightarrow> interval * 4 < now - last_seen"

fun broker_turn ::
  "session_env \<Rightarrow> nat \<Rightarrow> broker_event \<Rightarrow> nat \<times> session_state \<Rightarrow> session_end option \<times> nat \<times> session_state" where
  "broker_turn env i (StreamItem now (Inl e)) (t, s) = (Some (SessionFailed (BrProto e)), t, s)"
| "broker_turn env i (StreamItem now (Inr f)) (t, s) =
     (case handle_frame env f s of
        (Inl e, s') \<Rightarrow> (Some (SessionFailed e), now, s')
      | (Inr _, s') \<Rightarrow> (None, now, s'))"
| "broker_turn env i (StreamEnd now) (t, s) = (Some PeerGone, t, s)"
| "broker_turn env i (HeartbeatCheck now) (t, s) =
     (if check_heartbeat i now t then (Some TimedOut, t, s) else (None, t, s))"

fun broker_session ::
  "session_env \<Rightarrow> nat \<Rightarrow> broker_event list \<Rightarrow> nat \<times> session_state \<Rightarrow> session_end option \<times> nat \<times> session_state" where
  "broker_session env i [] st = (None, st)"
| "broker_session env i (ev # evs) st =
     (case broker_turn env i ev st of
        (None, st') \<Rightarrow> broker_session env i evs st'
      | (Some r, st') \<Rightarrow> (Some r, st'))"

text \<open>The timer ticks at the start of the session and then every two intervals; a period of zero
  is refused by a panic of \<open>tokio::time::interval\<close>.\<close>

definition heartbeat_check :: "nat \<Rightarrow> nat \<Rightarrow> nat \<Rightarrow> broker_event" where
  "heartbeat_check interval start k = HeartbeatCheck (start + k * (interval * 2))"

definition hb_interval :: "broker_config \<Rightarrow> nat outcome" where
  "hb_interval cfg =
     (let i = unat (bc_heartbeat_interval_ms cfg) in if i * 2 = 0 then Panicked else Returned i)"

section \<open>What a session does, whatever the timer does\<close>

fun items_of :: "broker_event list \<Rightarrow> (proto_error + mux_frame) list" where
  "items_of [] = []"
| "items_of (StreamItem now x # evs) = x # items_of evs"
| "items_of (StreamEnd now # evs) = items_of evs"
| "items_of (HeartbeatCheck now # evs) = items_of evs"

text \<open>The items in their order, without time.\<close>

definition run_items :: "session_env \<Rightarrow> (proto_error + mux_frame) list \<Rightarrow> unit ingest" where
  "run_items env items =
     act_for (\<lambda>x _. case x of Inl e \<Rightarrow> ing_fail (BrProto e) | Inr f \<Rightarrow> handle_frame env f) items ()"

lemma run_items_Nil [simp]: "run_items env [] s = (Inr (), s)"
  by (simp add: run_items_def act_return_def)

lemma run_items_Cons [simp]:
  "run_items env (x # xs) s =
     (case (case x of Inl e \<Rightarrow> ing_fail (BrProto e) | Inr f \<Rightarrow> handle_frame env f) s of
        (Inl e, s') \<Rightarrow> (Inl e, s')
      | (Inr _, s') \<Rightarrow> run_items env xs s')"
  by (simp add: run_items_def act_bind_def del: One_nat_def split: prod.splits sum.splits)

lemma run_stream_items: "run_items env (stream_items reads) = session_loop env reads"
  unfolding run_items_def stream_items_def session_loop_def
  by (cases "feed_all mux_decode reads")
    (auto simp: act_for_append act_for_map act_bind_def act_return_def ing_fail_def fun_eq_iff
      split: option.splits prod.splits sum.splits)

lemma broker_session_item:
  "broker_session env i (StreamItem now x # evs) (t, s) =
     (case (case x of Inl e \<Rightarrow> ing_fail (BrProto e) | Inr f \<Rightarrow> handle_frame env f) s of
        (Inl e, s') \<Rightarrow> (Some (SessionFailed e), if is_ok x then now else t, s')
      | (Inr _, s') \<Rightarrow> broker_session env i evs (now, s'))"
  by (cases x) (auto simp: ing_fail_def split: prod.splits sum.splits)

lemma broker_session_end:
  "broker_session env i (StreamEnd now # evs) (t, s) = (Some PeerGone, t, s)"
  by simp

lemma broker_session_check:
  "broker_session env i (HeartbeatCheck now # evs) (t, s) =
     (if check_heartbeat i now t then (Some TimedOut, t, s) else broker_session env i evs (t, s))"
  by simp

declare broker_session.simps(2) [simp del]

lemmas broker_session_events [simp] = broker_session_item broker_session_end broker_session_check

text \<open>What the session's items did, given how it ended.\<close>

definition items_result :: "session_end option \<Rightarrow> broker_error + unit" where
  "items_result r = (case r of Some (SessionFailed e) \<Rightarrow> Inl e | _ \<Rightarrow> Inr ())"

lemma items_result_simps [simp]:
  "items_result None = Inr ()" "items_result (Some PeerGone) = Inr ()"
  "items_result (Some TimedOut) = Inr ()" "items_result (Some (SessionFailed e)) = Inl e"
  by (simp_all add: items_result_def)

text \<open>A session in time has done a prefix of its items: a timeout never cuts into the handling of
  a frame. Without a timeout and without an end before the last item it has done them all.\<close>

lemma broker_session_prefix:
  "broker_session env i evs (t, s) = (r, t', s')
     \<Longrightarrow> \<exists>n. run_items env (take n (items_of evs)) s = (items_result r, s')"
proof (induction evs arbitrary: t s)
  case Nil
  then show ?case by auto
next
  case (Cons ev evs)
  show ?case
  proof (cases ev)
    case (StreamItem now x)
    let ?h = "(case x of Inl e \<Rightarrow> ing_fail (BrProto e) | Inr f \<Rightarrow> handle_frame env f) s"
    obtain h s1 where h: "?h = (h, s1)" by fastforce
    show ?thesis
    proof (cases h)
      case (Inl e)
      then show ?thesis
        using Cons.prems h StreamItem by (auto intro!: exI [of _ "Suc 0"])
    next
      case (Inr u)
      then obtain n where "run_items env (take n (items_of evs)) s1 = (items_result r, s')"
        using Cons.prems Cons.IH [of now s1] h StreamItem by auto
      then show ?thesis
        using h Inr StreamItem by (intro exI [of _ "Suc n"]) simp
    qed
  next
    case (StreamEnd now)
    then show ?thesis using Cons.prems by (intro exI [of _ 0]) auto
  next
    case (HeartbeatCheck now)
    then show ?thesis
      using Cons.prems Cons.IH [of t s] by (cases "check_heartbeat i now t") (auto intro: exI [of _ 0])
  qed
qed

lemma broker_session_all:
  "broker_session env i evs (t, s) = (r, t', s') \<Longrightarrow> r = None \<or> r = Some (SessionFailed e)
     \<Longrightarrow> run_items env (items_of evs) s = (items_result r, s')"
proof (induction evs arbitrary: t s)
  case Nil
  then show ?case by auto
next
  case (Cons ev evs)
  show ?case
  proof (cases ev)
    case (StreamItem now x)
    let ?h = "(case x of Inl e \<Rightarrow> ing_fail (BrProto e) | Inr f \<Rightarrow> handle_frame env f) s"
    obtain h s1 where "?h = (h, s1)" by fastforce
    then show ?thesis
      using Cons.prems Cons.IH [of now s1] StreamItem by (cases h) auto
  next
    case (StreamEnd now)
    then show ?thesis using Cons.prems by auto
  next
    case (HeartbeatCheck now)
    then show ?thesis
      using Cons.prems Cons.IH [of t s] by (cases "check_heartbeat i now t") auto
  qed
qed

text \<open>So, when every item is read and no check fires, the session in time is \<open>session_loop\<close>.\<close>

lemma broker_session_refines:
  assumes "items_of evs = stream_items reads"
    and "broker_session env i evs (t, s) = (r, t', s')" "r = None \<or> r = Some (SessionFailed e)"
  shows "session_loop env reads s = (items_result r, s')"
  using broker_session_all [OF assms(2,3)] assms(1) by (simp add: run_stream_items)

section \<open>When a session times out\<close>

lemma broker_session_append:
  "broker_session env i (xs @ ys) st =
     (case broker_session env i xs st of
        (None, st') \<Rightarrow> broker_session env i ys st'
      | (Some r, st') \<Rightarrow> (Some r, st'))"
  by (induction xs arbitrary: st) (auto simp: broker_session.simps(2) split: prod.splits option.splits)

text \<open>The moment of the last item.\<close>

fun last_item :: "nat \<Rightarrow> broker_event list \<Rightarrow> nat" where
  "last_item t [] = t"
| "last_item t (StreamItem now x # evs) = last_item now evs"
| "last_item t (StreamEnd now # evs) = last_item t evs"
| "last_item t (HeartbeatCheck now # evs) = last_item t evs"

lemma broker_session_last_item:
  "broker_session env i evs (t, s) = (None, t', s') \<Longrightarrow> t' = last_item t evs"
proof (induction evs arbitrary: t s)
  case Nil
  then show ?case by simp
next
  case (Cons ev evs)
  then show ?case
    by (cases ev) (auto split: prod.splits sum.splits if_splits)
qed

lemma timed_out_at:
  "broker_session env i evs (t, s) = (Some TimedOut, t', s')
     \<Longrightarrow> \<exists>xs now ys. evs = xs @ HeartbeatCheck now # ys \<and> check_heartbeat i now (last_item t xs)"
proof (induction evs arbitrary: t s)
  case Nil
  then show ?case by simp
next
  case (Cons ev evs)
  show ?case
  proof (cases ev)
    case (StreamItem now x)
    then obtain s1 where "broker_session env i evs (now, s1) = (Some TimedOut, t', s')"
      using Cons.prems by (auto split: prod.splits sum.splits)
    then show ?thesis
      using Cons.IH [of now s1] StreamItem by (metis append_Cons last_item.simps(2))
  next
    case (StreamEnd now)
    then show ?thesis using Cons.prems by simp
  next
    case (HeartbeatCheck now)
    show ?thesis
    proof (cases "check_heartbeat i now t")
      case True
      then show ?thesis using HeartbeatCheck by (intro exI [of _ "[]"]) auto
    next
      case False
      then show ?thesis
        using Cons HeartbeatCheck by (metis append_Cons broker_session_check last_item.simps(4))
    qed
  qed
qed

fun event_time :: "broker_event \<Rightarrow> nat" where
  "event_time (StreamItem now x) = now"
| "event_time (StreamEnd now) = now"
| "event_time (HeartbeatCheck now) = now"

fun is_item :: "broker_event \<Rightarrow> bool" where
  "is_item (StreamItem now x) = True"
| "is_item _ = False"

lemma last_item_le: "sorted (t # map event_time evs) \<Longrightarrow> t \<le> last_item t evs"
  by (induction t evs rule: last_item.induct) (auto intro: order_trans)

lemma last_item_ge:
  "sorted (t # map event_time evs) \<Longrightarrow> ev \<in> set evs \<Longrightarrow> is_item ev \<Longrightarrow> event_time ev \<le> last_item t evs"
proof (induction t evs rule: last_item.induct)
  case (2 t now x evs)
  then show ?case using last_item_le [of now evs] by auto
qed auto

text \<open>Ticks of the timer up to the first that finds the client silent for too long.\<close>

lemma checks_time_out:
  assumes "\<And>k. m \<le> k \<Longrightarrow> k < n \<Longrightarrow> start + k * (i * 2) \<le> t + i * 4"
    and "t + i * 4 < start + n * (i * 2)" "m \<le> n"
  shows "broker_session env i (map (heartbeat_check i start) [m..<Suc n]) (t, s) = (Some TimedOut, t, s)"
  using assms
proof (induction "n - m" arbitrary: m)
  case 0
  then show ?case by (simp add: heartbeat_check_def check_heartbeat_def)
next
  case (Suc d)
  then have "[m..<Suc n] = m # [Suc m..<Suc n]" by (intro upt_conv_Cons) auto
  moreover have "\<not> check_heartbeat i (start + m * (i * 2)) t"
    using Suc.prems(1) [OF order_refl] Suc.hyps(2) unfolding check_heartbeat_def by linarith
  ultimately show ?case
    using Suc.hyps(1) [of "Suc m"] Suc.hyps(2) Suc.prems by (simp add: heartbeat_check_def)
qed



text \<open>The heartbeats of a client arrive: the \<open>k\<close>-th, sent \<open>k\<close> periods after the first, is read at
  most \<open>delay\<close> later.\<close>

definition heartbeats_arrive :: "nat \<Rightarrow> nat \<Rightarrow> nat \<Rightarrow> nat \<Rightarrow> broker_event list \<Rightarrow> bool" where
  "heartbeats_arrive first period delay n evs \<longleftrightarrow>
     (\<forall>k<n. \<exists>ev\<in>set evs. is_item ev \<and> first + k * period \<le> event_time ev
                        \<and> event_time ev \<le> first + k * period + delay)"

text \<open>C38. A client that sends its heartbeats is kept: when the client takes its period from the
  broker's hello and each heartbeat is read within a delay that leaves period and delay within
  four intervals, no tick of the timer ends the session, whatever else happens in it.\<close>

theorem heartbeats_keep_session:
  assumes "hb_interval cfg = Returned i" "sh_heartbeat_interval_ms hello = bc_heartbeat_interval_ms cfg"
    and "heartbeat_period hello + delay \<le> 4 * i" "first + delay \<le> t0 + 4 * i"
    and "sorted (t0 # map event_time evs)"
    and "heartbeats_arrive first (heartbeat_period hello) delay n evs"
    and "\<forall>ev\<in>set evs. event_time ev \<le> first + n * heartbeat_period hello + delay"
  shows "fst (broker_session env i evs (t0, s0)) \<noteq> Some TimedOut"
proof
  define p where "p = heartbeat_period hello"
  assume "fst (broker_session env i evs (t0, s0)) = Some TimedOut"
  then obtain t' s' where "broker_session env i evs (t0, s0) = (Some TimedOut, t', s')"
    by (cases "broker_session env i evs (t0, s0)") auto
  from timed_out_at [OF this] obtain xs now ys
    where evs: "evs = xs @ HeartbeatCheck now # ys" and late: "4 * i < now - last_item t0 xs"
    by (auto simp: check_heartbeat_def mult.commute)
  have xs: "sorted (t0 # map event_time xs)" using assms(5) by (auto simp: evs sorted_append)
  have p: "0 < p" by (simp add: p_def heartbeat_period_def)
  show False
  proof (cases "now \<le> first + delay")
    case True
    then show False using last_item_le [OF xs] late assms(4) by linarith
  next
    case False
    define k where "k = (now - 1 - first - delay) div p"
    have now: "now \<le> first + n * p + delay" using assms(7) by (simp add: evs p_def)
    have k: "first + k * p + delay < now" "now \<le> first + k * p + p + delay"
      using False p div_times_less_eq_dividend [of "now - 1 - first - delay" p]
        dividend_less_div_times [OF p, of "now - 1 - first - delay"]
      unfolding k_def by linarith+
    then have "k * p < n * p" using now by linarith
    then have "k < n" by simp
    then obtain ev where ev: "ev \<in> set evs" "is_item ev" "first + k * p \<le> event_time ev" "event_time ev < now"
      using assms(6) k(1) unfolding heartbeats_arrive_def p_def by fastforce
    then have "ev \<in> set xs" using assms(5) by (auto simp: evs sorted_append)
    then have "event_time ev \<le> last_item t0 xs" using last_item_ge [OF xs _ ev(2)] by blast
    then show False using ev(3) k(2) late assms(3) by (simp add: p_def)
  qed
qed

theorem heartbeats_keep_session_witness:
  "fst (broker_session example_session 30000
          [StreamItem 100 (Inr (mux_frame_new PcCtrl [])), StreamItem 30100 (Inr (mux_frame_new PcCtrl [])),
           HeartbeatCheck 60000] (0, session_start example_fs ukg_new)) \<noteq> Some TimedOut"
  by (rule heartbeats_keep_session [where cfg = example_config and first = 0 and delay = 200 and n = "Suc (Suc 0)"
        and hello = "\<lparr>sh_session_id = [], sh_accepted_channels = [], sh_server_time_100ns = 0,
                       sh_heartbeat_interval_ms = 30000, sh_max_frame_bytes = 0\<rparr>"])
    (simp_all add: hb_interval_def example_config_def config_of_args_def heartbeat_period_def
      heartbeats_arrive_def All_less_Suc)

end
