(* ===== verification/Broker_Concurrent.thy ===== *)
theory Broker_Concurrent
  imports Broker_Session
begin

text \<open>
  The broker serves its connections concurrently (\<open>run_on\<close> and \<open>handle_conn\<close> of \<open>ingest.rs\<close>): an
  accept loop that spawns a task for every connection. The tasks share the disk and the counter of
  sessions; the variables of the session loop are a task's own. A frame is handled without an
  \<open>await\<close>, so the steps that interleave are the turns of the tasks' \<open>select!\<close> loops. (Where two
  handlers run at the same moment on two threads, they are of different databases and directories,
  or SQLite orders their transactions.)
\<close>

section \<open>The broker at work\<close>

text \<open>What a task keeps for itself between two turns of its loop.\<close>

record session_vars =
  sv_last_seen :: nat
  sv_frames :: frame_assembler
  sv_pending :: "pending_frame list"
  sv_live :: "live_event list"
  sv_draws :: nat

definition session_on :: "broker_disk \<Rightarrow> uuid \<Rightarrow> session_vars \<Rightarrow> session_state" where
  "session_on d cid v =
     \<lparr>ss_fs = bd_fs d, ss_ukg = db_ukg (client_dbs_of cid d), ss_frames = sv_frames v,
      ss_pending = sv_pending v, ss_live = sv_live v, ss_draws = sv_draws v\<rparr>"

definition vars_of :: "nat \<Rightarrow> session_state \<Rightarrow> session_vars" where
  "vars_of t s =
     \<lparr>sv_last_seen = t, sv_frames = ss_frames s, sv_pending = ss_pending s, sv_live = ss_live s,
      sv_draws = ss_draws s\<rparr>"

definition disk_after :: "uuid \<Rightarrow> session_state \<Rightarrow> broker_disk \<Rightarrow> broker_disk" where
  "disk_after cid s d =
     put_dbs cid (client_dbs_of cid d\<lparr>db_ukg := ss_ukg s\<rparr>) (d\<lparr>bd_fs := ss_fs s\<rparr>)"

text \<open>The life of a task: it is counted and refused, or it reads the hello and serves.\<close>

datatype conn_end =
    NotAdmitted
  | ConnFailed broker_error
  | TimerPanicked
  | SessionOver session_end

datatype task =
    NoTask
  | Refusing
  | Admitted
  | Serving hello_reply session_env nat session_vars
  | Finished hello_reply conn_end

record broker_world =
  bw_disk :: broker_disk
  bw_admission :: admission
  bw_tasks :: "nat \<Rightarrow> task"

definition set_task :: "nat \<Rightarrow> task \<Rightarrow> broker_world \<Rightarrow> broker_world" where
  "set_task k t w = w\<lparr>bw_tasks := (bw_tasks w)(k := t)\<rparr>"

definition finish_task :: "nat \<Rightarrow> hello_reply \<Rightarrow> conn_end \<Rightarrow> broker_world \<Rightarrow> broker_world" where
  "finish_task k reply e w = set_task k (Finished reply e) (w\<lparr>bw_admission := drop_session (bw_admission w)\<rparr>)"

text \<open>\<open>handle_conn\<close> in its steps. The hello is what the TLS stream delivers, or the error of the
  handshake.\<close>

definition task_accepted :: "nat \<Rightarrow> nat \<Rightarrow> broker_world \<Rightarrow> broker_world" where
  "task_accepted max_clients k w =
     (let full = max_clients \<le> ad_sessions (bw_admission w)
      in set_task k (if full then Refusing else Admitted)
           (w\<lparr>bw_admission := fetch_add_session max_clients (bw_admission w)\<rparr>))"

definition task_refused :: "nat \<Rightarrow> broker_world \<Rightarrow> broker_world" where
  "task_refused k w =
     set_task k (Finished NoReply NotAdmitted) (w\<lparr>bw_admission := refuse_session (bw_admission w)\<rparr>)"

definition task_hello ::
  "(bytes \<Rightarrow> bytes) \<Rightarrow> broker \<Rightarrow> nat \<Rightarrow> nat \<Rightarrow> conn_env \<Rightarrow> broker_error + bytes \<Rightarrow> broker_world \<Rightarrow> broker_world" where
  "task_hello sha256 b k now ce stream w =
     (case stream of
        Inl e \<Rightarrow> finish_task k NoReply (ConnFailed e) w
      | Inr bs \<Rightarrow>
          (case read_limited_json (ce_parse_hello ce) bs of
             Inl e \<Rightarrow> finish_task k NoReply (ConnFailed (BrProto e)) w
           | Inr (hello, rest) \<Rightarrow>
               (case accept_hello sha256 b (ce_session_id ce) (ce_now ce) hello (bw_disk w) of
                  (reply, Inl e, d) \<Rightarrow> finish_task k reply (ConnFailed e) (w\<lparr>bw_disk := d\<rparr>)
                | (reply, Inr objects, d) \<Rightarrow>
                    (case hb_interval (br_config b) of
                       Panicked \<Rightarrow> finish_task k reply TimerPanicked (w\<lparr>bw_disk := d\<rparr>)
                     | Returned i \<Rightarrow>
                         set_task k
                           (Serving reply ((ce_session ce)\<lparr>se_client := ch_client_id hello, se_objects := objects\<rparr>)
                              i (vars_of now (session_start (bd_fs d) (db_ukg (client_dbs_of (ch_client_id hello) d)))))
                           (w\<lparr>bw_disk := d\<rparr>)))))"

definition task_turn :: "nat \<Rightarrow> broker_event \<Rightarrow> broker_world \<Rightarrow> broker_world" where
  "task_turn k ev w =
     (case bw_tasks w k of
        Serving reply env i v \<Rightarrow>
          (case broker_turn env i ev (sv_last_seen v, session_on (bw_disk w) (se_client env) v) of
             (r, t, s) \<Rightarrow>
               let w1 = w\<lparr>bw_disk := disk_after (se_client env) s (bw_disk w)\<rparr>
               in (case r of
                     None \<Rightarrow> set_task k (Serving reply env i (vars_of t s)) w1
                   | Some e \<Rightarrow> finish_task k reply (SessionOver e) w1))
      | _ \<Rightarrow> w)"

text \<open>What happens: the listener yields stream number \<open>k\<close> or fails, a task takes its next step.
  A step that the task is not waiting for does not happen.\<close>

datatype broker_move =
    StreamAccepted nat
  | AcceptFailed string
  | CountReturned nat
  | HelloArrives nat nat conn_env "broker_error + bytes"
  | TaskEvent nat broker_event

fun broker_step :: "(bytes \<Rightarrow> bytes) \<Rightarrow> broker \<Rightarrow> broker_move \<Rightarrow> broker_world \<Rightarrow> broker_world" where
  "broker_step sha256 b (StreamAccepted k) w =
     (if bw_tasks w k = NoTask then task_accepted (bc_max_clients (br_config b)) k w else w)"
| "broker_step sha256 b (AcceptFailed e) w = w"
| "broker_step sha256 b (CountReturned k) w = (if bw_tasks w k = Refusing then task_refused k w else w)"
| "broker_step sha256 b (HelloArrives k now ce stream) w =
     (if bw_tasks w k = Admitted then task_hello sha256 b k now ce stream w else w)"
| "broker_step sha256 b (TaskEvent k ev) w = task_turn k ev w"

text \<open>\<open>run_on\<close>: the first failure of \<open>accept\<close> ends it with that error, and with it the process and
  its tasks.\<close>

fun run_on :: "(bytes \<Rightarrow> bytes) \<Rightarrow> broker \<Rightarrow> broker_move list \<Rightarrow> broker_world \<Rightarrow> broker_error option \<times> broker_world" where
  "run_on sha256 b [] w = (None, w)"
| "run_on sha256 b (e # es) w =
     (case e of
        AcceptFailed msg \<Rightarrow> (Some (BrIo msg), w)
      | _ \<Rightarrow> run_on sha256 b es (broker_step sha256 b e w))"

definition broker_idle :: "broker_disk \<Rightarrow> broker_world" where
  "broker_idle d = \<lparr>bw_disk = d, bw_admission = no_sessions, bw_tasks = (\<lambda>_. NoTask)\<rparr>"

end
