(* ===== verification/Broker_Isolation.thy ===== *)
theory Broker_Isolation
  imports Broker_Concurrent
begin

text \<open>
  Connections that are served at the same time do not interfere: a simulation between the broker
  with all its connections and the broker with one of them, and the reduction of the latter to
  \<open>handle_conn\<close>.
\<close>

section \<open>Handlers do not look at the files\<close>

text \<open>Two states of a session that differ in files outside \<open>P\<close> only.\<close>

definition same_but_files :: "(path \<Rightarrow> bool) \<Rightarrow> session_state \<Rightarrow> session_state \<Rightarrow> bool" where
  "same_but_files P s s' \<longleftrightarrow>
     ss_ukg s' = ss_ukg s \<and> ss_frames s' = ss_frames s \<and> ss_pending s' = ss_pending s \<and> ss_live s' = ss_live s
     \<and> ss_draws s' = ss_draws s \<and> no_faults (ss_fs s) \<and> no_faults (ss_fs s')
     \<and> (\<forall>p. P p \<longrightarrow> fs_files (ss_fs s') p = fs_files (ss_fs s) p)"

lemma sim_fail [sim_intros]: "act_sim R (ing_fail e)"
  by (simp add: act_sim_def ing_fail_def)

lemma sim_gfx_event: "same_but_files P s s' \<Longrightarrow> same_but_files P (gfx_event p s) (gfx_event p s')"
  by (cases p) (auto simp: same_but_files_def split: prod.splits option.splits)

lemma sim_pop [sim_intros]: "act_sim (same_but_files P) pop_pending"
  by (auto simp: act_sim_def same_but_files_def pop_pending_def split: list.splits)

lemma sim_put [sim_intros]: "act_sim (same_but_files P) (ing_put env date token ext data)"
  by (auto simp: act_sim_def same_but_files_def ing_put_def obj_put_no_faults)
    (simp_all add: no_faults_def)

lemma sim_insert [sim_intros]: "act_sim (same_but_files P) (ing_insert_capture rec)"
  by (auto simp: act_sim_def same_but_files_def ing_insert_capture_def split: prod.splits sum.splits)

lemma sim_store_capture [sim_intros]: "act_sim (same_but_files P) (store_capture env rec)"
  unfolding store_capture_def
  by (auto intro!: sim_intros act_sim_update simp: same_but_files_def split: option.splits)

lemma sim_handle_frame: "act_sim (same_but_files P) (handle_frame env f)"
proof -
  have "act_sim (same_but_files P) (handle_gfx pl)" for pl
    unfolding handle_gfx_def by (auto intro!: sim_intros act_sim_update sim_gfx_event split: sum.splits)
  then show ?thesis
    by (auto simp: handle_frame_def handle_meta_def handle_audio_def handle_ctrl_def Let_def same_but_files_def
        intro!: sim_intros act_sim_get
        split: channel_id.splits sum.splits control_message.splits prod.splits)
qed

lemma sim_broker_turn:
  assumes "same_but_files P s s'" "broker_turn env i ev (t, s) = (r, u, x)"
  obtains x' where "broker_turn env i ev (t, s') = (r, u, x')" "same_but_files P x x'"
proof -
  have h: "fst (handle_frame env f s) = fst (handle_frame env f s')
      \<and> same_but_files P (snd (handle_frame env f s)) (snd (handle_frame env f s'))" for f
    using sim_handle_frame assms(1) by (simp add: act_sim_def)
  have step: "\<exists>x'. broker_turn env i ev (t, s') = (r, u, x') \<and> same_but_files P x x'"
    if "ev = StreamItem now (Inr f)" for now f
    using h [of f] assms(2) that
    by (cases "handle_frame env f s"; cases "handle_frame env f s'") (auto split: sum.splits)
  have "\<exists>x'. broker_turn env i ev (t, s') = (r, u, x') \<and> same_but_files P x x'"
  proof (cases ev)
    case (StreamItem now item)
    then show ?thesis using assms step by (cases item) auto
  qed (use assms in \<open>auto split: if_splits\<close>)
  then show thesis using that by blast
qed


section \<open>Non-interference\<close>

fun move_conn :: "broker_move \<Rightarrow> nat option" where
  "move_conn (StreamAccepted k) = Some k"
| "move_conn (AcceptFailed e) = None"
| "move_conn (CountReturned k) = Some k"
| "move_conn (HelloArrives k now ce stream) = Some k"
| "move_conn (TaskEvent k ev) = Some k"

text \<open>What one connection sees of the moves: its own, and the failure of the listener.\<close>

definition concerns :: "nat \<Rightarrow> broker_move \<Rightarrow> bool" where
  "concerns k e \<longleftrightarrow> move_conn e = None \<or> move_conn e = Some k"

text \<open>The client that a hello names.\<close>

fun named_client :: "broker_move \<Rightarrow> uuid option" where
  "named_client (HelloArrives k now ce (Inr bs)) =
     (case read_limited_json (ce_parse_hello ce) bs of
        Inl e \<Rightarrow> None
      | Inr (hello, rest) \<Rightarrow> Some (ch_client_id hello))"
| "named_client e = None"

text \<open>Connection \<open>k\<close> is the only one of client \<open>cid\<close>, and has no other client.\<close>

definition only_conn_of :: "uuid \<Rightarrow> nat \<Rightarrow> broker_move \<Rightarrow> bool" where
  "only_conn_of cid k e \<longleftrightarrow>
     (\<forall>c. named_client e = Some c \<longrightarrow> plain_component c \<and> (c = cid \<longleftrightarrow> move_conn e = Some k))"

definition refused_task :: "task \<Rightarrow> bool" where
  "refused_task t \<longleftrightarrow> t = Refusing \<or> t = Finished NoReply NotAdmitted"

definition task_ok :: "broker_config \<Rightarrow> uuid \<Rightarrow> nat \<Rightarrow> nat \<Rightarrow> task \<Rightarrow> bool" where
  "task_ok cfg cid k j t \<longleftrightarrow>
     (\<forall>reply env i x. t = Serving reply env i x \<longrightarrow>
        plain_component (se_client env) \<and> os_root (se_objects env) = store_dir cfg (se_client env) @ [''objects'']
        \<and> length (sv_pending x) \<le> 64 \<and> (se_client env = cid \<longleftrightarrow> j = k))"

definition world_ok :: "broker_config \<Rightarrow> uuid \<Rightarrow> nat \<Rightarrow> broker_world \<Rightarrow> bool" where
  "world_ok cfg cid k w \<longleftrightarrow> disk_ok (bw_disk w) \<and> (\<forall>j. task_ok cfg cid k j (bw_tasks w j))"

text \<open>Two worlds that look the same from connection \<open>k\<close> of client \<open>cid\<close>.\<close>

definition same_disk :: "broker_config \<Rightarrow> uuid \<Rightarrow> broker_disk \<Rightarrow> broker_disk \<Rightarrow> bool" where
  "same_disk cfg cid d d' \<longleftrightarrow>
     client_dbs_of cid d = client_dbs_of cid d'
     \<and> (\<forall>p. path_starts_with p (store_dir cfg cid) \<longrightarrow> fs_files (bd_fs d) p = fs_files (bd_fs d') p)"

definition same_view :: "broker_config \<Rightarrow> uuid \<Rightarrow> nat \<Rightarrow> broker_world \<Rightarrow> broker_world \<Rightarrow> bool" where
  "same_view cfg cid k w v \<longleftrightarrow>
     bw_tasks w k = bw_tasks v k \<and> same_disk cfg cid (bw_disk w) (bw_disk v)
     \<and> world_ok cfg cid k w \<and> world_ok cfg cid k v
     \<and> (bw_tasks v k = NoTask \<longrightarrow> ad_sessions (bw_admission v) = 0)"

lemma set_task_simps [simp]:
  "bw_tasks (set_task k t w) j = (if j = k then t else bw_tasks w j)"
  "bw_disk (set_task k t w) = bw_disk w" "bw_admission (set_task k t w) = bw_admission w"
  by (simp_all add: set_task_def)

lemma finish_task_simps [simp]:
  "bw_tasks (finish_task k reply e w) j = (if j = k then Finished reply e else bw_tasks w j)"
  "bw_disk (finish_task k reply e w) = bw_disk w"
  by (simp_all add: finish_task_def)

lemma task_ok_simps [simp]:
  "task_ok cfg cid k j NoTask" "task_ok cfg cid k j Refusing" "task_ok cfg cid k j Admitted"
  "task_ok cfg cid k j (Finished reply e)"
  by (simp_all add: task_ok_def)

text \<open>A turn of a session on the shared disk.\<close>

lemma broker_turn_inv:
  assumes "plain_component (se_client env)" "session_inv env f0 u0 s" "broker_turn env i ev (t, s) = (r, u, x)"
  shows "session_inv env f0 u0 x"
proof (cases ev)
  case (StreamItem now item)
  have "session_inv env f0 u0 (snd (handle_frame env f s))" for f
    using keeps_handle_frame [OF assms(1)] assms(2) by (simp add: act_keeps_def)
  then show ?thesis
    using assms(2,3) StreamItem by (cases item) (auto split: prod.splits sum.splits, metis snd_conv, metis snd_conv)
qed (use assms in \<open>auto split: if_splits\<close>)

lemma turn_on_disk:
  assumes "disk_ok d" "task_ok cfg cid k j (Serving reply env i v)"
    and "broker_turn env i ev (sv_last_seen v, session_on d (se_client env) v) = (r, t, s)"
  shows "disk_ok (disk_after (se_client env) s d)" "length (ss_pending s) \<le> 64"
    "other \<noteq> se_client env \<Longrightarrow> same_disk cfg other (disk_after (se_client env) s d) d"
    "task_ok cfg cid k j (Serving reply env i (vars_of t s))"
proof -
  let ?c = "se_client env"
  have env: "plain_component ?c" "os_root (se_objects env) = store_dir cfg ?c @ [''objects'']"
    "length (sv_pending v) \<le> 64"
    using assms(2) by (simp_all add: task_ok_def)
  have "session_inv env (bd_fs d) (db_ukg (client_dbs_of ?c d)) (session_on d ?c v)"
    using assms(1) env(3) disk_ok_dbs [OF assms(1), of ?c]
    by (simp add: session_inv_def session_on_def later_refl disk_ok_def)
  from broker_turn_inv [OF env(1) this assms(3)]
  have s: "session_inv env (bd_fs d) (db_ukg (client_dbs_of ?c d)) s" .
  show "length (ss_pending s) \<le> 64" using s by (simp add: session_inv_def)
  then show "task_ok cfg cid k j (Serving reply env i (vars_of t s))"
    using assms(2) by (simp add: task_ok_def vars_of_def)
  have "disk_ok (d\<lparr>bd_fs := ss_fs s\<rparr>)" using s assms(1) by (simp add: disk_ok_def session_inv_def)
  then show "disk_ok (disk_after ?c s d)"
    using s by (simp add: disk_after_def disk_ok_put session_inv_def later_captures_def)
  show "same_disk cfg other (disk_after ?c s d) d" if "other \<noteq> ?c"
  proof -
    have "outside_client env p" if p: "path_starts_with p (store_dir cfg other)" for p
    proof -
      have "path_components [?c] = [?c]"
        using env(1) by (simp add: path_components_def plain_component_def)
      moreover have "\<not> path_starts_with p (store_dir cfg ?c)"
        using p \<open>other \<noteq> ?c\<close> by (auto simp: path_starts_with_def store_dir_def)
      ultimately show ?thesis
        using path_starts_with_trans [of p "store_dir cfg ?c"] by (auto simp: outside_client_def env(2))
    qed
    then show ?thesis
      using s that by (simp add: same_disk_def disk_after_def session_inv_def client_dbs_of_def put_dbs_other)
  qed
qed

text \<open>The hello, on a disk without faults: what it does to its client depends on that client's
  databases only.\<close>

definition store_objects :: "broker \<Rightarrow> uuid \<Rightarrow> object_store" where
  "store_objects b cid =
     \<lparr>os_root = store_dir (br_config b) cid @ [''objects''],
      os_cipher = (if bc_encrypt_at_rest (br_config b)
                   then Some \<lparr>env_aead = br_aead b, env_key = br_object_key b\<rparr> else None)\<rparr>"

definition opened_dbs :: "broker \<Rightarrow> client_dbs \<Rightarrow> client_dbs" where
  "opened_dbs b dbs =
     dbs\<lparr>db_text := semantic_open (bc_embedding_dim (br_config b)) ''text'' (db_text dbs),
         db_image := semantic_open (bc_embedding_dim (br_config b)) ''image'' (db_image dbs)\<rparr>"

lemma open_store_run:
  "no_faults (bd_fs d) \<Longrightarrow>
     open_store b cid d = (Inr (store_objects b cid), put_dbs cid (opened_dbs b (client_dbs_of cid d)) d)"
  by (auto simp: open_store_def Let_def object_store_encrypted_def object_store_plain_def object_store_open_def
      fs_create_dir_all_def no_faults_def store_objects_def opened_dbs_def)

lemma accept_hello_same:
  assumes "disk_ok d" "disk_ok d'" "client_dbs_of (ch_client_id hello) d = client_dbs_of (ch_client_id hello) d'"
    and "accept_hello sha256 b sid now hello d = (reply, r, e)"
  obtains e' where "accept_hello sha256 b sid now hello d' = (reply, r, e')"
    "client_dbs_of (ch_client_id hello) e = client_dbs_of (ch_client_id hello) e'"
proof (cases "check_hello sha256 (br_auth b) hello")
  case (Inl p)
  then show thesis using that [of d'] assms(3,4) by (cases p) (simp add: accept_hello_def)
next
  case (Inr who)
  have "no_faults (bd_fs d)" "no_faults (bd_fs d')" using assms(1,2) by (simp_all add: disk_ok_def)
  then show thesis
    using Inr that assms(3,4) by (auto simp: accept_hello_def open_store_run Let_def)
qed

lemma hello_on_disk:
  assumes "disk_ok d" "accept_hello sha256 b sid now hello d = (reply, r, e)"
  shows "disk_ok e" "bd_fs e = bd_fs d"
    "other \<noteq> ch_client_id hello \<Longrightarrow> same_disk (br_config b) other e d"
    "r = Inr objects \<Longrightarrow> os_root objects = store_dir (br_config b) (ch_client_id hello) @ [''objects'']"
  using accept_hello_safe [OF assms]
  by (auto simp: only_client_def same_disk_def client_dbs_of_def)

text \<open>The moves of other connections are not seen.\<close>

lemma same_disk_trans: "same_disk cfg cid d e \<Longrightarrow> same_disk cfg cid e f \<Longrightarrow> same_disk cfg cid d f"
  by (simp add: same_disk_def)

definition task_changes :: "broker_config \<Rightarrow> uuid \<Rightarrow> nat \<Rightarrow> nat \<Rightarrow> broker_world \<Rightarrow> broker_world \<Rightarrow> bool" where
  "task_changes cfg cid k j w w' \<longleftrightarrow>
     disk_ok (bw_disk w') \<and> task_ok cfg cid k j (bw_tasks w' j) \<and> (\<forall>i. i \<noteq> j \<longrightarrow> bw_tasks w' i = bw_tasks w i)
     \<and> (j \<noteq> k \<longrightarrow> same_disk cfg cid (bw_disk w') (bw_disk w))"

lemma turn_changes:
  assumes "world_ok cfg cid k w"
  shows "task_changes cfg cid k j w (task_turn j ev w)"
proof (cases "bw_tasks w j")
  case (Serving reply env i v)
  obtain r t s where turn: "broker_turn env i ev (sv_last_seen v, session_on (bw_disk w) (se_client env) v) = (r, t, s)"
    by (metis prod.exhaust)
  have ok: "disk_ok (bw_disk w)" "task_ok cfg cid k j (Serving reply env i v)"
    using assms Serving by (simp add: world_ok_def, metis world_ok_def)
  note t = turn_on_disk [OF ok turn]
  have "j \<noteq> k \<Longrightarrow> cid \<noteq> se_client env" using ok(2) by (auto simp: task_ok_def)
  then show ?thesis
    using Serving turn t by (auto simp: task_changes_def task_turn_def Let_def split: option.splits)
qed (use assms in \<open>auto simp: task_changes_def task_turn_def world_ok_def same_disk_def\<close>)

lemma hello_changes:
  assumes "world_ok (br_config b) cid k w" "only_conn_of cid k (HelloArrives j now ce stream)"
  shows "task_changes (br_config b) cid k j w (task_hello sha256 b j now ce stream w)"
proof -
  have ok: "disk_ok (bw_disk w)" using assms(1) by (simp add: world_ok_def)
  then have stay: "task_changes (br_config b) cid k j w (finish_task j reply e w)" for reply e
    by (simp add: task_changes_def same_disk_def)
  show ?thesis
  proof (cases stream)
    case (Inl e)
    then show ?thesis using stay by (simp add: task_hello_def)
  next
    case (Inr bs)
    show ?thesis
    proof (cases "read_limited_json (ce_parse_hello ce) bs")
      case (Inl e)
      then show ?thesis using Inr stay by (simp add: task_hello_def)
    next
      case hello: (Inr p)
      then obtain hello rest where p: "read_limited_json (ce_parse_hello ce) bs = Inr (hello, rest)"
        by (metis prod.exhaust)
      have cid: "plain_component (ch_client_id hello)" "ch_client_id hello = cid \<longleftrightarrow> j = k"
        using assms(2) p Inr by (auto simp: only_conn_of_def)
      obtain reply r d where a: "accept_hello sha256 b (ce_session_id ce) (ce_now ce) hello (bw_disk w) = (reply, r, d)"
        by (metis prod.exhaust)
      note h = hello_on_disk [OF ok a]
      show ?thesis
        using Inr p a h cid
        by (auto simp: task_hello_def task_changes_def task_ok_def vars_of_def session_start_def
            split: sum.splits outcome.splits)
    qed
  qed
qed

lemma step_changes:
  assumes "world_ok (br_config b) cid k w" "only_conn_of cid k e" "move_conn e = Some j"
  shows "task_changes (br_config b) cid k j w (broker_step sha256 b e w)"
proof -
  have stay: "task_changes (br_config b) cid k j w w"
    using assms(1) by (simp add: task_changes_def world_ok_def same_disk_def)
  show ?thesis
  proof (cases e)
    case (HelloArrives i now ce stream)
    then show ?thesis using assms hello_changes stay by simp
  next
    case (TaskEvent i ev)
    then show ?thesis using assms turn_changes by simp
  qed (use assms stay in \<open>auto simp: task_changes_def task_accepted_def task_refused_def Let_def world_ok_def same_disk_def\<close>)
qed

lemma world_ok_step:
  assumes "world_ok (br_config b) cid k w" "only_conn_of cid k e"
  shows "world_ok (br_config b) cid k (broker_step sha256 b e w)"
proof (cases "move_conn e")
  case None
  then show ?thesis using assms(1) by (cases e) simp_all
next
  case (Some j)
  from step_changes [OF assms Some, of sha256] assms(1) show ?thesis
    unfolding world_ok_def task_changes_def by metis
qed

lemma other_step_unseen:
  assumes "same_view (br_config b) cid k w v" "only_conn_of cid k e" "move_conn e = Some j" "j \<noteq> k"
  shows "same_view (br_config b) cid k (broker_step sha256 b e w) v"
proof -
  have w: "world_ok (br_config b) cid k w" using assms(1) by (simp add: same_view_def)
  from step_changes [OF w assms(2,3), of sha256] world_ok_step [OF w assms(2), of sha256] assms(1,4)
  show ?thesis by (auto simp: same_view_def task_changes_def same_disk_def)
qed

text \<open>A move of the connection itself is seen the same in both worlds, unless it is refused in one.\<close>

lemma own_turn_same:
  assumes "same_view cfg cid k w v"
  shows "bw_tasks (task_turn k ev w) k = bw_tasks (task_turn k ev v) k
     \<and> same_disk cfg cid (bw_disk (task_turn k ev w)) (bw_disk (task_turn k ev v))"
proof (cases "bw_tasks v k")
  case (Serving reply env i x)
  let ?P = "\<lambda>p. path_starts_with p (store_dir cfg cid)"
  have v: "bw_tasks w k = Serving reply env i x" "same_disk cfg cid (bw_disk w) (bw_disk v)"
    "disk_ok (bw_disk w)" "disk_ok (bw_disk v)"
    using assms Serving by (simp_all add: same_view_def world_ok_def)
  have "task_ok cfg cid k k (bw_tasks v k)" using assms unfolding same_view_def world_ok_def by blast
  then have cid: "se_client env = cid" using Serving by (simp add: task_ok_def)
  have same: "same_but_files ?P (session_on (bw_disk w) cid x) (session_on (bw_disk v) cid x)"
    using v by (simp add: same_but_files_def session_on_def same_disk_def disk_ok_def)
  obtain r t s where w1: "broker_turn env i ev (sv_last_seen x, session_on (bw_disk w) cid x) = (r, t, s)"
    by (metis prod.exhaust)
  obtain s' where "broker_turn env i ev (sv_last_seen x, session_on (bw_disk v) cid x) = (r, t, s')"
    "same_but_files ?P s s'"
    by (rule sim_broker_turn [OF same w1])
  then show ?thesis
    using Serving v(1,2) w1
    by (auto simp: task_turn_def cid Let_def vars_of_def same_but_files_def same_disk_def disk_after_def
        split: option.splits)
qed (use assms in \<open>simp_all add: same_view_def task_turn_def\<close>)

lemma own_hello_same:
  fixes sha256 :: "bytes \<Rightarrow> bytes"
  assumes "same_view (br_config b) cid k w v" "only_conn_of cid k (HelloArrives k now ce stream)"
  defines "go \<equiv> task_hello sha256 b k now ce stream"
  shows "bw_tasks (go w) k = bw_tasks (go v) k \<and> same_disk (br_config b) cid (bw_disk (go w)) (bw_disk (go v))"
proof -
  have ok: "disk_ok (bw_disk w)" "disk_ok (bw_disk v)" "same_disk (br_config b) cid (bw_disk w) (bw_disk v)"
    using assms(1) by (simp_all add: same_view_def world_ok_def)
  show ?thesis
  proof (cases stream)
    case (Inl e)
    then show ?thesis using ok(3) by (simp add: go_def task_hello_def)
  next
    case (Inr bs)
    show ?thesis
    proof (cases "read_limited_json (ce_parse_hello ce) bs")
      case (Inl e)
      then show ?thesis using Inr ok(3) by (simp add: go_def task_hello_def)
    next
      case hello: (Inr p)
      then obtain hello rest where p: "read_limited_json (ce_parse_hello ce) bs = Inr (hello, rest)"
        by (metis prod.exhaust)
      have cid: "ch_client_id hello = cid" using assms(2) p Inr by (simp add: only_conn_of_def)
      obtain reply r d where a: "accept_hello sha256 b (ce_session_id ce) (ce_now ce) hello (bw_disk w) = (reply, r, d)"
        by (metis prod.exhaust)
      obtain d' where a': "accept_hello sha256 b (ce_session_id ce) (ce_now ce) hello (bw_disk v) = (reply, r, d')"
        "client_dbs_of cid d = client_dbs_of cid d'"
        using accept_hello_same [OF ok(1,2) _ a] ok(3) cid by (auto simp: same_disk_def)
      have "bd_fs d = bd_fs (bw_disk w)" "bd_fs d' = bd_fs (bw_disk v)"
        using hello_on_disk(2) [OF ok(1) a] hello_on_disk(2) [OF ok(2) a'(1)] by simp_all
      then have "same_disk (br_config b) cid d d'" using a'(2) ok(3) by (simp add: same_disk_def)
      then show ?thesis
        using Inr p a a' cid
        by (auto simp: go_def task_hello_def vars_of_def session_start_def split: sum.splits outcome.splits)
    qed
  qed
qed

lemma own_step_same:
  assumes "same_view (br_config b) cid k w v" "only_conn_of cid k e" "move_conn e = Some k"
    and "0 < bc_max_clients (br_config b)"
  shows "refused_task (bw_tasks (broker_step sha256 b e w) k)
     \<or> same_view (br_config b) cid k (broker_step sha256 b e w) (broker_step sha256 b e v)"
proof -
  have ok: "world_ok (br_config b) cid k (broker_step sha256 b e w)"
    "world_ok (br_config b) cid k (broker_step sha256 b e v)"
    using assms(1,2) by (simp_all add: same_view_def world_ok_step)
  have t: "bw_tasks w k = bw_tasks v k" "same_disk (br_config b) cid (bw_disk w) (bw_disk v)"
    "bw_tasks v k = NoTask \<Longrightarrow> ad_sessions (bw_admission v) = 0"
    using assms(1) by (simp_all add: same_view_def)
  show ?thesis
  proof (cases e)
    case (StreamAccepted j)
    then show ?thesis
      using assms(3,4) t ok by (auto simp: refused_task_def same_view_def task_accepted_def Let_def split: if_splits)
  next
    case (HelloArrives j now ce stream)
    have "bw_tasks (task_hello sha256 b k now ce stream v) k \<noteq> NoTask"
      by (auto simp: task_hello_def split: sum.splits prod.splits outcome.splits)
    then show ?thesis
      using HelloArrives assms ok t own_hello_same [OF assms(1), of now ce stream sha256] by (auto simp: same_view_def)
  next
    case (TaskEvent j ev)
    have "bw_tasks (task_turn k ev v) k = NoTask \<Longrightarrow> task_turn k ev v = v"
      by (auto simp: task_turn_def Let_def split: task.splits prod.splits option.splits)
    then show ?thesis
      using assms(3) TaskEvent ok t own_turn_same [OF assms(1), of ev] by (auto simp: same_view_def)
  qed (use assms(3) t ok in \<open>auto simp: refused_task_def same_view_def task_refused_def\<close>)
qed

text \<open>A refused connection stays refused.\<close>

lemma refused_stays:
  assumes "refused_task (bw_tasks w k)"
  shows "refused_task (bw_tasks (broker_step sha256 b e w) k)"
proof (cases e)
  case (TaskEvent j ev)
  then show ?thesis
    using assms by (auto simp: refused_task_def task_turn_def Let_def split: task.splits prod.splits option.splits)
next
  case (HelloArrives j now ce stream)
  then show ?thesis
    using assms by (auto simp: refused_task_def task_hello_def split: sum.splits prod.splits outcome.splits)
qed (use assms in \<open>auto simp: refused_task_def task_accepted_def task_refused_def Let_def\<close>)

lemma refused_run: "refused_task (bw_tasks w k) \<Longrightarrow> refused_task (bw_tasks (snd (run_on sha256 b es w)) k)"
proof (induction es arbitrary: w)
  case (Cons e es)
  then show ?case using refused_stays [OF Cons.prems, of sha256 b e] by (cases e) simp_all
qed simp

lemma concerns_cases:
  "\<not> concerns k e \<Longrightarrow> \<exists>j. move_conn e = Some j \<and> j \<noteq> k"
  "concerns k e \<Longrightarrow> (\<exists>msg. e = AcceptFailed msg) \<or> move_conn e = Some k"
  by (cases e; simp add: concerns_def)+

lemma run_on_cons: "move_conn e = Some j \<Longrightarrow> run_on sha256 b (e # es) w = run_on sha256 b es (broker_step sha256 b e w)"
  by (cases e) simp_all

lemma run_on_error: "fst (run_on sha256 b es w) = fst (run_on sha256 b es v)"
  by (induction es arbitrary: w v) (auto split: broker_move.splits)

lemma run_on_error_concerns: "fst (run_on sha256 b es w) = fst (run_on sha256 b (filter (concerns k) es) v)"
proof (induction es arbitrary: w v)
  case (Cons e es)
  then show ?case by (cases e) (auto simp: concerns_def)
qed simp

lemma run_on_same_view:
  assumes "same_view (br_config b) cid k w v" "\<forall>e \<in> set es. only_conn_of cid k e" "0 < bc_max_clients (br_config b)"
  shows "refused_task (bw_tasks (snd (run_on sha256 b es w)) k)
     \<or> same_view (br_config b) cid k (snd (run_on sha256 b es w)) (snd (run_on sha256 b (filter (concerns k) es) v))"
  using assms(1,2)
proof (induction es arbitrary: w v)
  case (Cons e es)
  have only: "only_conn_of cid k e" "\<forall>e \<in> set es. only_conn_of cid k e" using Cons.prems(2) by simp_all
  show ?case
  proof (cases "concerns k e")
    case False
    then obtain j where j: "move_conn e = Some j" "j \<noteq> k" using concerns_cases(1) by blast
    have "same_view (br_config b) cid k (broker_step sha256 b e w) v"
      by (rule other_step_unseen [OF Cons.prems(1) only(1) j])
    then show ?thesis
      using Cons.IH [OF _ only(2)] False by (simp add: run_on_cons [OF j(1)] del: run_on.simps(2))
  next
    case True
    then consider msg where "e = AcceptFailed msg" | "move_conn e = Some k" using concerns_cases(2) by blast
    then show ?thesis
    proof cases
      case 1
      then show ?thesis using Cons.prems(1) True by simp
    next
      case 2
      then show ?thesis
        using own_step_same [OF Cons.prems(1) only(1) 2 assms(3), of sha256] Cons.IH [OF _ only(2)] refused_run True
        by (auto simp: run_on_cons [OF 2] simp del: run_on.simps(2))
    qed
  qed
qed simp

section \<open>Alone on the broker\<close>

lemma session_on_after: "session_on (disk_after cid s d) cid (vars_of t s) = s"
  by (simp add: session_on_def disk_after_def vars_of_def)

lemma turns_after_end: "bw_tasks w k = Finished reply e \<Longrightarrow> run_on sha256 b (map (TaskEvent k) evs) w = (None, w)"
  by (induction evs) (simp_all add: task_turn_def)

lemma serving_alone:
  assumes "bw_tasks w k = Serving reply env i v"
    and "broker_session env i evs (sv_last_seen v, session_on (bw_disk w) (se_client env) v) = (r, t, s)"
  shows "case snd (run_on sha256 b (map (TaskEvent k) evs) w) of w' \<Rightarrow>
     bd_fs (bw_disk w') = ss_fs s
     \<and> client_dbs_of (se_client env) (bw_disk w') = client_dbs_of (se_client env) (bw_disk w)\<lparr>db_ukg := ss_ukg s\<rparr>"
  using assms
proof (induction evs arbitrary: w v)
  case Nil
  then show ?case by (auto simp: session_on_def)
next
  case (Cons ev evs)
  let ?c = "se_client env"
  obtain r1 t1 s1 where turn: "broker_turn env i ev (sv_last_seen v, session_on (bw_disk w) ?c v) = (r1, t1, s1)"
    by (metis prod.exhaust)
  show ?case
  proof (cases r1)
    case (Some e)
    then have "r = Some e \<and> t = t1 \<and> s = s1"
      using Cons.prems(2) turn by (simp add: broker_session.simps(2))
    moreover have "task_turn k ev w = finish_task k reply (SessionOver e) (w\<lparr>bw_disk := disk_after ?c s1 (bw_disk w)\<rparr>)"
      using Cons.prems(1) turn Some by (simp add: task_turn_def Let_def)
    ultimately show ?thesis
      by (simp add: turns_after_end disk_after_def)
  next
    case None
    let ?w = "task_turn k ev w"
    have w1: "?w = set_task k (Serving reply env i (vars_of t1 s1)) (w\<lparr>bw_disk := disk_after ?c s1 (bw_disk w)\<rparr>)"
      using Cons.prems(1) turn None by (simp add: task_turn_def Let_def)
    have "broker_session env i evs (sv_last_seen (vars_of t1 s1), session_on (bw_disk ?w) ?c (vars_of t1 s1)) = (r, t, s)"
      using Cons.prems(2) turn None by (simp add: broker_session.simps(2) w1 session_on_after) (simp add: vars_of_def)
    from Cons.IH [OF _ this] show ?thesis by (simp add: w1) (simp add: disk_after_def)
  qed
qed

definition is_item :: "broker_event \<Rightarrow> bool" where
  "is_item ev \<longleftrightarrow> (case ev of StreamItem now x \<Rightarrow> True | _ \<Rightarrow> False)"

lemma items_end:
  "list_all is_item evs \<Longrightarrow> broker_session env i evs (t, s) = (r, t', s') \<Longrightarrow>
     run_items env (items_of evs) s = (items_result r, s')"
proof (induction evs arbitrary: t s)
  case (Cons ev evs)
  then obtain now x where "ev = StreamItem now x" by (cases ev) (simp_all add: is_item_def)
  then show ?case using Cons by (auto split: prod.splits sum.splits)
qed simp

text \<open>Alone, a connection does on its client's part of the disk what \<open>handle_conn\<close> does.\<close>

lemma alone_is_handle_conn:
  assumes "disk_ok d" "0 < bc_max_clients (br_config b)" "hb_interval (br_config b) = Returned i"
    and "read_limited_json (ce_parse_hello ce) bs = Inr (hello, rest)"
    and "list_all is_item evs" "items_of evs = stream_items (rest # chunks)"
    and "handle_conn sha256 b ce bs chunks d = (reply, x, d')"
  shows "same_disk (br_config b) (ch_client_id hello)
     (bw_disk (snd (run_on sha256 b (StreamAccepted k # HelloArrives k now ce (Inr bs) # map (TaskEvent k) evs)
        (broker_idle d)))) d'"
proof -
  let ?c = "ch_client_id hello"
  let ?w1 = "task_accepted (bc_max_clients (br_config b)) k (broker_idle d)"
  let ?w2 = "task_hello sha256 b k now ce (Inr bs) ?w1"
  have w1: "bw_tasks ?w1 k = Admitted" "bw_disk ?w1 = d"
    using assms(2) by (simp_all add: task_accepted_def broker_idle_def no_sessions_def Let_def)
  have run: "run_on sha256 b (StreamAccepted k # HelloArrives k now ce (Inr bs) # map (TaskEvent k) evs) (broker_idle d)
      = run_on sha256 b (map (TaskEvent k) evs) ?w2"
    using w1(1) by (simp add: broker_idle_def)
  obtain rep ro d1 where a: "accept_hello sha256 b (ce_session_id ce) (ce_now ce) hello d = (rep, ro, d1)"
    by (metis prod.exhaust)
  show ?thesis
  proof (cases ro)
    case (Inl e)
    then have "bw_tasks ?w2 k = Finished rep (ConnFailed e)" "bw_disk ?w2 = d1"
      using assms(4) a w1(2) by (simp_all add: task_hello_def)
    then show ?thesis
      using assms(4,7) a Inl unfolding run by (simp add: turns_after_end handle_conn_def same_disk_def)
  next
    case (Inr objects)
    define env where "env = (ce_session ce)\<lparr>se_client := ?c, se_objects := objects\<rparr>"
    let ?s0 = "session_start (bd_fs d1) (db_ukg (client_dbs_of ?c d1))"
    have c: "se_client env = ?c" by (simp add: env_def)
    have w2: "bw_tasks ?w2 k = Serving rep env i (vars_of now ?s0)" "bw_disk ?w2 = d1"
      using assms(3,4) a Inr w1(2) by (simp_all add: task_hello_def env_def)
    obtain r t s where s: "broker_session env i evs (now, ?s0) = (r, t, s)" by (metis prod.exhaust)
    have "session_on d1 ?c (vars_of now ?s0) = ?s0" by (simp add: session_on_def vars_of_def session_start_def)
    then have b: "broker_session env i evs
        (sv_last_seen (vars_of now ?s0), session_on (bw_disk ?w2) (se_client env) (vars_of now ?s0)) = (r, t, s)"
      using s by (simp add: w2(2) c) (simp add: vars_of_def)
    have "session_loop env (rest # chunks) ?s0 = (items_result r, s)"
      using items_end [OF assms(5) s] by (simp add: assms(6) run_stream_items)
    then have "d' = put_dbs ?c (client_dbs_of ?c d1\<lparr>db_ukg := ss_ukg s\<rparr>) (d1\<lparr>bd_fs := ss_fs s\<rparr>)"
      using assms(4,7) a Inr by (simp add: handle_conn_def Let_def env_def)
    then show ?thesis
      using serving_alone [OF w2(1) b, of sha256 b] w2(2) c unfolding run by (simp add: same_disk_def)
  qed
qed

lemma run_on_ok:
  "world_ok (br_config b) cid k w \<Longrightarrow> \<forall>e \<in> set es. only_conn_of cid k e \<Longrightarrow>
     world_ok (br_config b) cid k (snd (run_on sha256 b es w))"
proof (induction es arbitrary: w)
  case (Cons e es)
  then show ?case using world_ok_step [of b cid k w e sha256] by (cases e) simp_all
qed simp

section \<open>Property\<close>


definition two_clients_broker :: broker where
  "two_clients_broker = example_broker\<lparr>br_config := example_config\<lparr>bc_max_clients := 2\<rparr>\<rparr>"

definition other_conn :: conn_env where
  "other_conn = example_conn\<lparr>ce_parse_hello := (\<lambda>pl. Inr (client_hello_of ''o'' ''host'' (Some ''key'') 5000 ''1''))\<rparr>"


end
