(* ===== verification/Broker_Start.thy ===== *)
theory Broker_Start
  imports Broker_Ingest
begin

text \<open>
  The start of the broker: the TLS identity (\<open>precall-broker/src/tls.rs\<close>) and the command line
  (\<open>main.rs\<close>). PEM parsing, rustls and the certificate generator are a record of functions; the
  files are those of the object store's file system.
\<close>

section \<open>Identity (tls.rs)\<close>

record self_signed =
  self_cert_pem :: string
  self_key_pem :: string
  self_cert_der :: bytes
  self_fingerprint :: string

text \<open>\<open>tl_generate\<close> is \<open>rcgen\<close> with the randomness of one call: PEM texts and DER bytes for a host
  name.\<close>

record tls_libs =
  tl_sha256 :: "bytes \<Rightarrow> bytes"
  tl_pem_certs :: "bytes \<Rightarrow> string + bytes list"
  tl_pem_key :: "bytes \<Rightarrow> string + bytes option"
  tl_single_cert :: "bytes list \<Rightarrow> bytes \<Rightarrow> string + unit"
  tl_generate :: "string \<Rightarrow> string + string \<times> string \<times> bytes"

type_synonym tls_identity = "bytes list \<times> bytes"

definition show_path :: "path \<Rightarrow> string" where
  "show_path p = concat (map (\<lambda>c. ''/'' @ c) p)"

definition read_file :: "path \<Rightarrow> file_system \<Rightarrow> broker_error + bytes" where
  "read_file p fs = (case fs_read p fs of Inl e \<Rightarrow> Inl (io_error e) | Inr d \<Rightarrow> Inr d)"

definition load_certs :: "tls_libs \<Rightarrow> path \<Rightarrow> file_system \<Rightarrow> broker_error + bytes list" where
  "load_certs libs p fs =
     rbind (read_file p fs) (\<lambda>pem.
       case tl_pem_certs libs pem of
         Inl e \<Rightarrow> Inl (BrConfig (''bad cert pem '' @ show_path p @ '': '' @ e))
       | Inr certs \<Rightarrow>
           if certs = [] then Inl (BrConfig (''no certificates in '' @ show_path p)) else Inr certs)"

definition load_key :: "tls_libs \<Rightarrow> path \<Rightarrow> file_system \<Rightarrow> broker_error + bytes" where
  "load_key libs p fs =
     rbind (read_file p fs) (\<lambda>pem.
       case tl_pem_key libs pem of
         Inl e \<Rightarrow> Inl (BrConfig (''bad key pem '' @ show_path p @ '': '' @ e))
       | Inr None \<Rightarrow> Inl (BrConfig (''no private key in '' @ show_path p))
       | Inr (Some k) \<Rightarrow> Inr k)"

definition server_config_from :: "tls_libs \<Rightarrow> bytes list \<Rightarrow> bytes \<Rightarrow> broker_error + tls_identity" where
  "server_config_from libs certs key =
     (case tl_single_cert libs certs key of
        Inl e \<Rightarrow> Inl (BrTls e)
      | Inr _ \<Rightarrow> Inr (certs, key))"

definition server_config :: "tls_libs \<Rightarrow> path \<Rightarrow> path \<Rightarrow> file_system \<Rightarrow> broker_error + tls_identity" where
  "server_config libs cert_file key_file fs =
     rbind (load_certs libs cert_file fs) (\<lambda>certs.
     rbind (load_key libs key_file fs) (\<lambda>key.
     case tl_single_cert libs certs key of
       Inl e \<Rightarrow> Inl (BrTls e)
     | Inr _ \<Rightarrow> Inr (certs, key)))"

definition generate_self_signed :: "tls_libs \<Rightarrow> string \<Rightarrow> broker_error + self_signed" where
  "generate_self_signed libs hostname =
     (case tl_generate libs hostname of
        Inl e \<Rightarrow> Inl (BrCertGen e)
      | Inr (cert_pem, key_pem, der) \<Rightarrow>
          Inr \<lparr>self_cert_pem = cert_pem, self_key_pem = key_pem, self_cert_der = der,
               self_fingerprint = hex_lower (tl_sha256 libs der)\<rparr>)"

definition pkcs8_from_pem :: "tls_libs \<Rightarrow> string \<Rightarrow> broker_error + bytes" where
  "pkcs8_from_pem libs pem =
     (case tl_pem_key libs (str_bytes pem) of
        Inl e \<Rightarrow> Inl (BrConfig (''pkcs8: '' @ e))
      | Inr None \<Rightarrow> Inl (BrConfig ''no private key in pem'')
      | Inr (Some k) \<Rightarrow> Inr k)"

text \<open>Two writes, one after the other: a failure of the second leaves the first.\<close>

definition write_self_signed ::
  "tls_libs \<Rightarrow> string \<Rightarrow> path \<Rightarrow> path \<Rightarrow> file_system \<Rightarrow> (broker_error + self_signed) \<times> file_system" where
  "write_self_signed libs hostname cert_file key_file fs =
     (case generate_self_signed libs hostname of
        Inl e \<Rightarrow> (Inl e, fs)
      | Inr s \<Rightarrow>
          (case fs_write cert_file (str_bytes (self_cert_pem s)) fs of
             (Inl e, fs1) \<Rightarrow> (Inl (io_error e), fs1)
           | (Inr _, fs1) \<Rightarrow>
               (case fs_write key_file (str_bytes (self_key_pem s)) fs1 of
                  (Inl e, fs2) \<Rightarrow> (Inl (io_error e), fs2)
                | (Inr _, fs2) \<Rightarrow> (Inr s, fs2))))"

section \<open>Commands (main.rs)\<close>

definition path_exists :: "file_system \<Rightarrow> path \<Rightarrow> bool" where
  "path_exists fs p \<longleftrightarrow> fs_files fs p \<noteq> None"

text \<open>\<open>gen-cert\<close> prints the fingerprint.\<close>

definition gen_cert ::
  "tls_libs \<Rightarrow> string \<Rightarrow> path \<Rightarrow> path \<Rightarrow> file_system \<Rightarrow> (broker_error + string) \<times> file_system" where
  "gen_cert libs hostname cert key fs =
     (case write_self_signed libs hostname cert key fs of
        (Inl e, fs1) \<Rightarrow> (Inl e, fs1)
      | (Inr s, fs1) \<Rightarrow> (Inr (self_fingerprint s), fs1))"

text \<open>The identity \<open>serve\<close> starts with, and the fingerprint it prints when it made one.\<close>

definition serve_identity ::
  "tls_libs \<Rightarrow> serve_args \<Rightarrow> broker_config \<Rightarrow> file_system
     \<Rightarrow> (broker_error + tls_identity \<times> string option) \<times> file_system" where
  "serve_identity libs a cfg fs =
     (let (cert, key) = serve_tls_paths (path_exists fs) a cfg;
          load = (\<lambda>printed fs'. (rbind (server_config libs cert key fs') (\<lambda>t. Inr (t, printed)), fs'))
      in if sa_self_signed a \<and> \<not> path_exists fs (bc_tls_cert cfg) then
           (case fs_create_dir_all (bc_data_root cfg) fs of
              Inl e \<Rightarrow> (Inl (io_error e), fs)
            | Inr _ \<Rightarrow>
                if path_exists fs cert then load None fs
                else (case write_self_signed libs ''localhost'' cert key fs of
                        (Inl e, fs1) \<Rightarrow> (Inl e, fs1)
                      | (Inr s, fs1) \<Rightarrow> load (Some (self_fingerprint s)) fs1))
         else load None fs)"

text \<open>\<open>serve\<close> up to the listener.\<close>

definition serve ::
  "tls_libs \<Rightarrow> aead \<Rightarrow> (bytes \<Rightarrow> string) \<Rightarrow> bytes \<Rightarrow> (string \<Rightarrow> string + broker_toml)
     \<Rightarrow> (path \<Rightarrow> string + string) \<Rightarrow> path option \<Rightarrow> serve_args \<Rightarrow> file_system
     \<Rightarrow> (broker_error + broker \<times> tls_identity \<times> string option) outcome \<times> file_system" where
  "serve libs a lossy fresh parse read config_path args fs =
     (case serve_config parse read config_path args of
        Inl e \<Rightarrow> (Returned (Inl e), fs)
      | Inr cfg \<Rightarrow>
          (case serve_identity libs args cfg fs of
             (Inl e, fs1) \<Rightarrow> (Returned (Inl e), fs1)
           | (Inr (t, printed), fs1) \<Rightarrow>
               (case broker_new (tl_sha256 libs) a lossy fresh cfg fs1 of
                  (Panicked, fs2) \<Rightarrow> (Panicked, fs2)
                | (Returned (Inl e), fs2) \<Rightarrow> (Returned (Inl e), fs2)
                | (Returned (Inr b), fs2) \<Rightarrow> (Returned (Inr (b, t, printed)), fs2))))"

section \<open>Lemmas\<close>

abbreviation dev_cert :: "broker_config \<Rightarrow> path" where
  "dev_cert cfg \<equiv> bc_data_root cfg @ [''dev-cert.pem'']"

abbreviation dev_key :: "broker_config \<Rightarrow> path" where
  "dev_key cfg \<equiv> bc_data_root cfg @ [''dev-key.pem'']"

text \<open>What the libraries make of a generated identity.\<close>

definition usable_identity :: "tls_libs \<Rightarrow> string \<times> string \<times> bytes \<Rightarrow> bytes \<Rightarrow> bool" where
  "usable_identity libs g k \<longleftrightarrow>
     (case g of (cert_pem, key_pem, der) \<Rightarrow>
        tl_pem_certs libs (str_bytes cert_pem) = Inr [der] \<and> tl_pem_key libs (str_bytes key_pem) = Inr (Some k)
        \<and> tl_single_cert libs [der] k = Inr ())"

lemma server_config_usable:
  assumes "usable_identity libs (cert_pem, key_pem, der) k"
    and "fs_files fs c = Some (str_bytes cert_pem)" "fs_files fs p = Some (str_bytes key_pem)"
    and "\<not> fs_fault fs c" "\<not> fs_fault fs p"
  shows "server_config libs c p fs = Inr ([der], k)"
  using assms by (simp add: server_config_def load_certs_def load_key_def read_file_def fs_read_def usable_identity_def)

lemma serve_dev_identity:
  assumes "sa_self_signed a" "\<not> path_exists fs (bc_tls_cert cfg)" "path_exists fs (dev_cert cfg)"
    and "\<not> fs_fault fs (bc_data_root cfg)"
  shows "serve_identity libs a cfg fs
     = (rbind (server_config libs (dev_cert cfg) (dev_key cfg) fs) (\<lambda>t. Inr (t, None)), fs)"
  using assms by (simp add: serve_identity_def serve_tls_paths_def fs_create_dir_all_def)

section \<open>Properties\<close>


definition example_tls :: tls_libs where
  "example_tls =
     \<lparr>tl_sha256 = example_digest, tl_pem_certs = (\<lambda>pem. Inr [pem]), tl_pem_key = (\<lambda>pem. Inr (Some pem)),
      tl_single_cert = (\<lambda>_ _. Inr ()), tl_generate = (\<lambda>host. Inr (host, ''key'', str_bytes host))\<rparr>"

definition example_serve_args :: serve_args where
  "example_serve_args =
     \<lparr>sa_listen = ''0.0.0.0:3390'', sa_tls_cert = None, sa_tls_key = None, sa_self_signed = True,
      sa_data_root = [''d''], sa_psk_tokens = [''key''], sa_enrolled_certs = [], sa_allow_ntlm = False,
      sa_strict_tenancy = False, sa_no_encryption_at_rest = False, sa_max_clients = 1\<rparr>"


end
