(* ===== verification/Embedder.thy ===== *)
theory Embedder
  imports Semantic_Store
begin

text \<open>
  \<open>precall-api/src/embed.rs\<close>: how the answers of the embedding providers become outcomes. The
  HTTP service is an argument (what each request got back). The in-process embedder is computed
  here, on the arithmetic of \<open>Float32\<close>; SHA-256 is its argument.
\<close>

section \<open>Constants\<close>

definition EMBED_DIM :: nat where "EMBED_DIM = 384"

definition LOCAL_TEXT_SPACE :: string where "LOCAL_TEXT_SPACE = ''hash:rust-text@384''"
definition LOCAL_IMAGE_SPACE :: string where "LOCAL_IMAGE_SPACE = ''hash:rust-image@384''"

section \<open>The hash embedder\<close>

text \<open>The end of both embeddings: divide by the norm, which counts as at least \<open>1e-6\<close>.\<close>

definition normalise :: "f32 list \<Rightarrow> f32 list" where
  "normalise v =
     (let n = f32_max (f32_sqrt (f32_sum (map (\<lambda>x. f32_mul x x) v))) 0x358637BD
      in map (\<lambda>x. f32_div x n) v)"

text \<open>A word adds plus or minus \<open>1.0 / (1.0 + pos * 0.05)\<close> to the bucket its digest names.\<close>

definition word_bucket :: "bytes \<Rightarrow> nat \<Rightarrow> nat" where
  "word_bucket h width = nat (uint (le_word (take 4 h) :: u32) mod int width)"

definition word_weight :: "bytes \<Rightarrow> nat \<Rightarrow> f32" where
  "word_weight h pos =
     f32_mul (if h ! 4 AND 1 = 1 then 0x3F800000 else 0xBF800000)
       (f32_div 0x3F800000 (f32_add 0x3F800000 (f32_mul (f32_of_nat pos) 0x3D4CCCCD)))"

definition add_word :: "(bytes \<Rightarrow> bytes) \<Rightarrow> nat \<Rightarrow> nat \<times> string \<Rightarrow> f32 list \<Rightarrow> f32 list" where
  "add_word sha256 width p v =
     (case p of
        (pos, word) \<Rightarrow>
          let h = sha256 (str_bytes (to_lowercase word));
              idx = word_bucket h width
          in v[idx := f32_add (v ! idx) (word_weight h pos)])"

definition hash_embedding :: "(bytes \<Rightarrow> bytes) \<Rightarrow> string \<Rightarrow> nat \<Rightarrow> f32 list" where
  "hash_embedding sha256 text width =
     normalise (fold (add_word sha256 width) (enumerate 0 (split_whitespace text)) (replicate width 0))"

text \<open>The image: the digests of its pieces of 32 bytes, added byte by byte, and the sum repeated.\<close>

definition image_digest :: "(bytes \<Rightarrow> bytes) \<Rightarrow> bytes \<Rightarrow> bytes" where
  "image_digest sha256 jpeg =
     foldl (\<lambda>acc piece. map2 (+) acc (sha256 piece)) (replicate 32 0) (chunks_of 32 jpeg)"

definition image_hash_embedding :: "(bytes \<Rightarrow> bytes) \<Rightarrow> bytes \<Rightarrow> f32 list" where
  "image_hash_embedding sha256 jpeg =
     (let acc = image_digest sha256 jpeg
      in normalise (map (\<lambda>i. f32_sub (f32_div (f32_of_nat (unat (acc ! (i mod length acc)))) 0x437F0000)
                                  0x3F000000) [0..<EMBED_DIM]))"

section \<open>Outcomes\<close>

datatype embed_outcome =
    EmbedOk "f32 list" string
  | EmbedDisabled
  | EmbedRejected
  | EmbedRetry

fun embedding :: "embed_outcome \<Rightarrow> f32 list option" where
  "embedding (EmbedOk e s) = Some e"
| "embedding _ = None"

definition is_input_refusal :: "nat \<Rightarrow> bool" where
  "is_input_refusal status \<longleftrightarrow> status = 400 \<or> status = 413 \<or> status = 415 \<or> status = 422"

definition is_success :: "nat \<Rightarrow> bool" where
  "is_success status \<longleftrightarrow> 200 \<le> status \<and> status < 300"

text \<open>A request to the service: it fails, or there is a status and a body that parses or not.\<close>

datatype 'b http_result =
    SendFailed
  | Response nat "'b option"

record ai_service =
  svc_health :: "(string option \<times> string option) http_result"
  svc_embed_text :: "string \<Rightarrow> (f32 list \<times> string option) http_result"
  svc_embed_image :: "bytes \<Rightarrow> (f32 list \<times> string option) http_result"
  svc_embed_image_text :: "string \<Rightarrow> (f32 list \<times> string option) http_result"
  svc_topics :: "string \<Rightarrow> (string \<times> f64) list http_result"

datatype embedder =
    HttpEmbedder string ai_service
  | LocalEmbedder "bytes \<Rightarrow> bytes"
  | DisabledEmbedder

definition embedder_from_env :: "string option \<Rightarrow> ai_service \<Rightarrow> (bytes \<Rightarrow> bytes) \<Rightarrow> embedder" where
  "embedder_from_env url svc sha256 =
     (case url of
        Some u \<Rightarrow> if u \<noteq> [] then HttpEmbedder (rev (dropWhile (\<lambda>c. c = CHR ''/'') (rev u))) svc
                  else LocalEmbedder sha256
      | None \<Rightarrow> LocalEmbedder sha256)"

fun spaces :: "embedder \<Rightarrow> (string \<times> string) option" where
  "spaces (LocalEmbedder sha256) = Some (LOCAL_TEXT_SPACE, LOCAL_IMAGE_SPACE)"
| "spaces DisabledEmbedder = None"
| "spaces (HttpEmbedder base svc) =
     (case svc_health svc of
        Response st (Some (Some t, Some i)) \<Rightarrow> if is_success st then Some (t, i) else None
      | _ \<Rightarrow> None)"

text \<open>A successful answer of an embedding route, and the order of the checks before it.\<close>

definition embed_body :: "string \<Rightarrow> (f32 list \<times> string option) option \<Rightarrow> embed_outcome" where
  "embed_body base b =
     (case b of
        None \<Rightarrow> EmbedRetry
      | Some (e, space) \<Rightarrow> EmbedOk e (case space of None \<Rightarrow> ''http:'' @ base | Some s \<Rightarrow> s))"

definition embed_response :: "string \<Rightarrow> (f32 list \<times> string option) http_result \<Rightarrow> embed_outcome" where
  "embed_response base r =
     (case r of
        SendFailed \<Rightarrow> EmbedRetry
      | Response st b \<Rightarrow>
          if is_input_refusal st then EmbedRejected
          else if \<not> is_success st then
            (if st = 404 \<or> st = 501 then EmbedDisabled else EmbedRetry)
          else embed_body base b)"

fun embed_text :: "embedder \<Rightarrow> string \<Rightarrow> embed_outcome" where
  "embed_text (HttpEmbedder base svc) text = embed_response base (svc_embed_text svc text)"
| "embed_text (LocalEmbedder sha256) text = 
     EmbedOk (hash_embedding sha256 text EMBED_DIM) LOCAL_TEXT_SPACE"
| "embed_text DisabledEmbedder text = EmbedDisabled"

fun embed_image :: "embedder \<Rightarrow> bytes \<Rightarrow> embed_outcome" where
  "embed_image (HttpEmbedder base svc) jpeg = embed_response base (svc_embed_image svc jpeg)"
| "embed_image (LocalEmbedder sha256) jpeg = EmbedOk (image_hash_embedding sha256 jpeg) LOCAL_IMAGE_SPACE"
| "embed_image DisabledEmbedder jpeg = EmbedDisabled"

fun embed_image_text :: "embedder \<Rightarrow> string \<Rightarrow> embed_outcome" where
  "embed_image_text (HttpEmbedder base svc) text =
     (case svc_embed_image_text svc text of
        SendFailed \<Rightarrow> EmbedRetry
      | Response st b \<Rightarrow>
          if st = 501 \<or> st = 404 then EmbedDisabled
          else if is_input_refusal st then EmbedRejected
          else if \<not> is_success st then EmbedRetry
          else embed_body base b)"
| "embed_image_text _ text = EmbedDisabled"

fun topics :: "embedder \<Rightarrow> string \<Rightarrow> (string \<times> f64) list" where
  "topics (HttpEmbedder base svc) text =
     (case svc_topics svc text of
        Response st (Some ts) \<Rightarrow> if is_success st then ts else []
      | _ \<Rightarrow> [])"
| "topics _ text = []"

section \<open>Properties\<close>

text \<open>An outcome is terminal only when retrying is futile: an input counts as refused exactly
  for the four input-specific statuses, a leg as unavailable exactly for a missing route, a
  vector comes from a success with a readable body alone, and everything else (no answer, a
  timeout, 401, 408, 429, any 5xx but 501, an unreadable body) asks for a retry. The two
  orders of the checks in the code agree.\<close>

lemma embed_outcome_classification:
  "(embed_response base (Response st b) = EmbedRejected \<longleftrightarrow> st \<in> {400, 413, 415, 422})
   \<and> (embed_response base (Response st b) = EmbedDisabled \<longleftrightarrow> st \<in> {404, 501})
   \<and> (embedding (embed_response base (Response st b)) \<noteq> None \<longleftrightarrow> is_success st \<and> b \<noteq> None)
   \<and> (embed_response base (Response st b) = EmbedRetry \<longleftrightarrow>
        st \<notin> {400, 413, 415, 422, 404, 501} \<and> (\<not> is_success st \<or> b = None))
   \<and> embed_response base SendFailed = EmbedRetry
   \<and> (svc_embed_image_text svc text = svc_embed_text svc text \<longrightarrow>
        embed_image_text (HttpEmbedder base svc) text = embed_text (HttpEmbedder base svc) text)"
proof -
  have b: "embed_body base b \<noteq> EmbedRejected" "embed_body base b \<noteq> EmbedDisabled"
    "embedding (embed_body base b) \<noteq> None \<longleftrightarrow> b \<noteq> None" "embed_body base b = EmbedRetry \<longleftrightarrow> b = None"
    by (auto simp: embed_body_def split: option.splits prod.splits)
  have s: "\<not> is_success 400" "\<not> is_success 413" "\<not> is_success 415" "\<not> is_success 422"
    "\<not> is_success 404" "\<not> is_success 501"
    by (simp_all add: is_success_def)
  have "svc_embed_image_text svc text = svc_embed_text svc text \<longrightarrow>
        embed_image_text (HttpEmbedder base svc) text = embed_text (HttpEmbedder base svc) text"
    by (auto simp: embed_response_def is_input_refusal_def is_success_def split: http_result.splits)
  then show ?thesis
    using b s by (auto simp: embed_response_def is_input_refusal_def)
qed

text \<open>Both local embeddings have the width of the stores the broker creates by default.\<close>

lemma length_normalise [simp]: "length (normalise v) = length v"
  by (simp add: normalise_def Let_def)

lemma length_add_word [simp]: "length (add_word sha256 width p v) = length v"
  by (simp add: add_word_def Let_def split: prod.split)

lemma length_add_words [simp]: "length (fold (add_word sha256 width) ps v) = length v"
  by (induction ps arbitrary: v) auto

lemma length_hash_embedding [simp]: "length (hash_embedding sha256 text width) = width"
  by (simp add: hash_embedding_def)

lemma length_image_hash_embedding [simp]: "length (image_hash_embedding sha256 jpeg) = EMBED_DIM"
  by (simp add: image_hash_embedding_def Let_def)

text \<open>The bucket of a word is inside the vector.\<close>

lemma word_bucket_less: "0 < width \<Longrightarrow> word_bucket h width < width"
  by (simp add: word_bucket_def nat_less_iff)

lemma length_image_digest:
  assumes "\<And>m. length (sha256 m) = 32"
  shows "length (image_digest sha256 jpeg) = 32"
proof -
  have "length (foldl (\<lambda>acc piece. map2 (+) acc (sha256 piece)) a ps) = 32" if "length a = 32" for a ps
    using that by (induction ps arbitrary: a) (simp_all add: assms)
  then show ?thesis by (simp add: image_digest_def)
qed

end
