(* ===== verification/Enricher.thy ===== *)
theory Enricher
  imports Embedder Object_Store
begin

text \<open>
  \<open>precall-api/src/enrich.rs\<close>: one enrichment pass over a client's stores. The state of a pass
  is the metadata database, the two vector stores and the statistics; the files, the embedder
  and the clock are its environment. The embedder may answer differently at every call, so its
  functions take the capture id as well. A function that uses \<open>?\<close> is an action: its errors
  end the pass and leave what was written before.
\<close>

section \<open>State\<close>

record enrich_stats =
  st_text_embeddings :: nat
  st_image_embeddings :: nat
  st_backfilled :: nat
  st_images_skipped :: nat
  st_images_pending :: nat
  st_texts_pending :: nat

definition stats_zero :: enrich_stats where
  "stats_zero = \<lparr>st_text_embeddings = 0, st_image_embeddings = 0, st_backfilled = 0,
     st_images_skipped = 0, st_images_pending = 0, st_texts_pending = 0\<rparr>"

definition absorb :: "enrich_stats \<Rightarrow> enrich_stats \<Rightarrow> enrich_stats" where
  "absorb s t =
     \<lparr>st_text_embeddings = st_text_embeddings s + st_text_embeddings t,
      st_image_embeddings = st_image_embeddings s + st_image_embeddings t,
      st_backfilled = st_backfilled s + st_backfilled t,
      st_images_skipped = st_images_skipped s + st_images_skipped t,
      st_images_pending = st_images_pending s + st_images_pending t,
      st_texts_pending = st_texts_pending s + st_texts_pending t\<rparr>"

datatype image_leg = LegDone | LegTerminal | LegRetry | LegUnavailable

datatype image_step = Embed bytes int | Settled image_leg

datatype enrich_error =
    EnrichUkg ukg_error
  | EnrichSemantic semantic_error
  | EnrichObjects object_error

record enrich_env =
  ee_client :: string
  ee_base :: path
  ee_aead :: aead
  ee_object_key :: bytes
  ee_fs :: file_system
  ee_dim :: nat
  ee_now :: int
  ee_clock :: "int \<Rightarrow> int"
  ee_record_clock :: "int \<Rightarrow> int"
  ee_embed_text :: "int \<Rightarrow> string \<Rightarrow> embed_outcome"
  ee_embed_image :: "int \<Rightarrow> bytes \<Rightarrow> embed_outcome"
  ee_topics :: "int \<Rightarrow> string \<Rightarrow> (string \<times> f64) list"

record enrich_state =
  es_ukg :: ukg
  es_text :: semantic_index
  es_image :: semantic_index
  es_stats :: enrich_stats

type_synonym 'a enrich = "(enrich_state, enrich_error, 'a) action"

section \<open>Access to the stores\<close>

definition upd_ukg :: "(ukg \<Rightarrow> ukg) \<Rightarrow> unit enrich" where
  "upd_ukg f = act_update (\<lambda>s. s\<lparr>es_ukg := f (es_ukg s)\<rparr>)"

definition try_ukg :: "(ukg \<Rightarrow> (ukg_error + unit) \<times> ukg) \<Rightarrow> unit enrich" where
  "try_ukg f s =
     (case f (es_ukg s) of
        (Inl e, u) \<Rightarrow> (Inl (EnrichUkg e), s\<lparr>es_ukg := u\<rparr>)
      | (Inr r, u) \<Rightarrow> (Inr r, s\<lparr>es_ukg := u\<rparr>))"

definition upd_text :: "(semantic_index \<Rightarrow> semantic_index) \<Rightarrow> unit enrich" where
  "upd_text f = act_update (\<lambda>s. s\<lparr>es_text := f (es_text s)\<rparr>)"

definition upd_image :: "(semantic_index \<Rightarrow> semantic_index) \<Rightarrow> unit enrich" where
  "upd_image f = act_update (\<lambda>s. s\<lparr>es_image := f (es_image s)\<rparr>)"

definition bump :: "(enrich_stats \<Rightarrow> enrich_stats) \<Rightarrow> unit enrich" where
  "bump f = act_update (\<lambda>s. s\<lparr>es_stats := f (es_stats s)\<rparr>)"

definition sem_has :: "(enrich_state \<Rightarrow> semantic_index) \<Rightarrow> int \<Rightarrow> bool enrich" where
  "sem_has idx wc_id s =
     (case has_item (item_id_for_capture wc_id) (idx s) of
        Inl e \<Rightarrow> (Inl (EnrichSemantic e), s)
      | Inr b \<Rightarrow> (Inr b, s))"

definition text_insert :: "int \<Rightarrow> f32 list \<Rightarrow> unit enrich" where
  "text_insert wc_id e s =
     (case semantic_insert (item_id_for_capture wc_id) None None e (es_text s) of
        (Inl err, i) \<Rightarrow> (Inl (EnrichSemantic err), s\<lparr>es_text := i\<rparr>)
      | (Inr g, i) \<Rightarrow> (Inr (), s\<lparr>es_text := i\<rparr>))"

definition image_insert :: "int \<Rightarrow> f32 list \<Rightarrow> unit enrich" where
  "image_insert wc_id e s =
     (case semantic_insert (item_id_for_capture wc_id) None None e (es_image s) of
        (Inl err, i) \<Rightarrow> (Inl (EnrichSemantic err), s\<lparr>es_image := i\<rparr>)
      | (Inr g, i) \<Rightarrow> (Inr (), s\<lparr>es_image := i\<rparr>))"

definition set_state :: "int \<Rightarrow> string \<Rightarrow> int \<Rightarrow> string option \<Rightarrow> int \<Rightarrow> unit enrich" where
  "set_state wc_id state attempts err now =
     try_ukg (set_image_embedding_state wc_id state attempts err now)"

section \<open>Constants and predicates\<close>

definition BATCH :: int where "BATCH = 64"
definition RETRY_BACKOFF_TICKS :: int where "RETRY_BACKOFF_TICKS = 60 * 10000000"
definition TEXT_UNAVAILABLE :: string where "TEXT_UNAVAILABLE = ''enrich.text_unavailable''"
definition IMAGE_UNAVAILABLE :: string where "IMAGE_UNAVAILABLE = ''enrich.image_unavailable''"

definition flag_set :: "ukg \<Rightarrow> string \<Rightarrow> bool" where
  "flag_set u key \<longleftrightarrow> get_config key u = Some ''1''"

definition usable :: "f32 list \<Rightarrow> nat \<Rightarrow> bool" where
  "usable vec d \<longleftrightarrow> length vec = d"

definition space_mismatch :: "semantic_index \<Rightarrow> string \<Rightarrow> bool" where
  "space_mismatch idx space =
     (case space_id idx of
        None \<Rightarrow> False
      | Some s \<Rightarrow> s \<noteq> space \<and> s \<noteq> SPACE_UNKNOWN)"

fun object_error_text :: "object_error \<Rightarrow> string" where
  "object_error_text (OIo e) = ''I/O: '' @ e"
| "object_error_text (OCrypto CTruncated) = ''crypto: ciphertext too short''"
| "object_error_text (OCrypto CDecrypt) = ''crypto: decryption failed''"
| "object_error_text (ONotFound p) = ''not found: '' @ concat (map (\<lambda>c. c @ ''/'') p)"

definition prior_attempts :: "(string \<times> int \<times> string option) option \<Rightarrow> int" where
  "prior_attempts prior = (case prior of None \<Rightarrow> 0 | Some (st, a, e) \<Rightarrow> a)"

definition prior_state :: "(string \<times> int \<times> string option) option \<Rightarrow> string option" where
  "prior_state prior = map_option fst prior"

section \<open>The image leg\<close>

definition settle_skipped :: "int \<Rightarrow> int \<Rightarrow> string \<Rightarrow> int \<Rightarrow> image_step enrich" where
  "settle_skipped wc_id attempts note now =
     act_bind (set_state wc_id ''skipped'' attempts (Some note) now) (\<lambda>_.
     act_bind (bump (\<lambda>t. t\<lparr>st_images_skipped := st_images_skipped t + 1\<rparr>)) (\<lambda>_.
     act_return (Settled LegTerminal)))"

definition settle_pending :: "int \<Rightarrow> int \<Rightarrow> string \<Rightarrow> int \<Rightarrow> image_step enrich" where
  "settle_pending wc_id attempts note now =
     act_bind (set_state wc_id ''pending'' attempts (Some note) now) (\<lambda>_.
     act_bind (bump (\<lambda>t. t\<lparr>st_images_pending := st_images_pending t + 1\<rparr>)) (\<lambda>_.
     act_return (Settled LegRetry)))"

text \<open>The embedding is there: make the state row say so.\<close>

definition confirm_done :: "int \<Rightarrow> (string \<times> int \<times> string option) option \<Rightarrow> int \<Rightarrow> image_step enrich" where
  "confirm_done wc_id prior now =
     act_bind
       (if prior_state prior \<noteq> Some ''done''
        then set_state wc_id ''done'' (prior_attempts prior) None now else act_return ()) (\<lambda>_.
     act_return (Settled LegDone))"

text \<open>Read the screenshot, or settle the capture.\<close>

definition image_source ::
  "enrich_env \<Rightarrow> object_store \<Rightarrow> int \<Rightarrow> int option \<Rightarrow> string \<Rightarrow> int \<Rightarrow> int \<Rightarrow> image_step enrich" where
  "image_source env objects wc_id ts token attempts now =
     (case ts of
        None \<Rightarrow> settle_skipped wc_id (attempts + 1) ''no timestamp'' now
      | Some t \<Rightarrow>
          let rel = key_path (ee_client env) (ymd_from_filetime t) token ''jpg'' in
          if \<not> obj_exists objects rel (ee_fs env) then
            (if obj_exists objects (key_path (ee_client env) (ymd_from_filetime t) token ''raw'') (ee_fs env)
             then settle_skipped wc_id (attempts + 1) ''non-JPEG frame'' now
             else settle_pending wc_id (attempts + 1) ''object missing'' now)
          else
            case obj_get objects (ee_client env) rel token (ee_fs env) of
              Inr jpeg \<Rightarrow> act_return (Embed jpeg attempts)
            | Inl e \<Rightarrow>
                (case e of
                   OCrypto c \<Rightarrow> settle_skipped wc_id (attempts + 1) (object_error_text e) now
                 | _ \<Rightarrow> settle_pending wc_id (attempts + 1) (object_error_text e) now))"

definition image_step ::
  "enrich_env \<Rightarrow> object_store \<Rightarrow> int \<Rightarrow> int option \<Rightarrow> string \<Rightarrow> image_step enrich" where
  "image_step env objects wc_id ts token =
     act_bind (sem_has es_image wc_id) (\<lambda>present.
     act_bind (act_get (\<lambda>s. image_embedding_state wc_id (es_ukg s))) (\<lambda>prior.
       if present then confirm_done wc_id prior (ee_clock env wc_id)
       else if prior_state prior = Some ''skipped'' then
         act_bind (bump (\<lambda>t. t\<lparr>st_images_skipped := st_images_skipped t + 1\<rparr>)) (\<lambda>_.
         act_return (Settled LegTerminal))
       else image_source env objects wc_id ts token (prior_attempts prior) (ee_clock env wc_id)))"

text \<open>A vector of the right width: rebuild a store of another space, label it, store the
  vector, record it.\<close>

definition store_image :: "enrich_env \<Rightarrow> int \<Rightarrow> int \<Rightarrow> f32 list \<Rightarrow> string \<Rightarrow> image_leg enrich" where
  "store_image env wc_id attempts e space =
     act_bind (act_get (\<lambda>s. space_mismatch (es_image s) space)) (\<lambda>mismatch.
     act_bind
       (if mismatch then
          act_bind (upd_image semantic_clear) (\<lambda>_. upd_ukg reset_image_embedding_states)
        else act_return ()) (\<lambda>_.
     act_bind (upd_image (set_space_id space)) (\<lambda>_.
     act_bind (image_insert wc_id e) (\<lambda>_.
     act_bind (set_state wc_id ''done'' (attempts + 1) None (ee_record_clock env wc_id)) (\<lambda>_.
     act_bind (bump (\<lambda>t. t\<lparr>st_image_embeddings := st_image_embeddings t + 1\<rparr>)) (\<lambda>_.
     act_return LegDone))))))"

definition image_record :: "enrich_env \<Rightarrow> int \<Rightarrow> int \<Rightarrow> embed_outcome \<Rightarrow> image_leg enrich" where
  "image_record env wc_id attempts outcome =
     (let now = ee_record_clock env wc_id in
      case outcome of
        EmbedOk e space \<Rightarrow>
          if \<not> usable e (ee_dim env) then
            act_bind (set_state wc_id ''skipped'' (attempts + 1)
                        (Some ''embedder returned a wrong-width vector'') now) (\<lambda>_.
            act_bind (bump (\<lambda>t. t\<lparr>st_images_skipped := st_images_skipped t + 1\<rparr>)) (\<lambda>_.
            act_return LegTerminal))
          else
            store_image env wc_id attempts e space
      | EmbedDisabled \<Rightarrow>
          act_bind (upd_ukg (set_config IMAGE_UNAVAILABLE ''1'')) (\<lambda>_.
          act_bind (bump (\<lambda>t. t\<lparr>st_images_skipped := st_images_skipped t + 1\<rparr>)) (\<lambda>_.
          act_return LegUnavailable))
      | EmbedRejected \<Rightarrow>
          act_bind (set_state wc_id ''skipped'' (attempts + 1) (Some ''embedder refused input'') now) (\<lambda>_.
          act_bind (bump (\<lambda>t. t\<lparr>st_images_skipped := st_images_skipped t + 1\<rparr>)) (\<lambda>_.
          act_return LegTerminal))
      | EmbedRetry \<Rightarrow>
          act_bind (set_state wc_id ''pending'' (attempts + 1) (Some ''embedder unavailable'') now) (\<lambda>_.
          act_bind (bump (\<lambda>t. t\<lparr>st_images_pending := st_images_pending t + 1\<rparr>)) (\<lambda>_.
          act_return LegRetry)))"

text \<open>The two halves with the embedder's call between them.\<close>

definition image_attempt ::
  "enrich_env \<Rightarrow> object_store \<Rightarrow> int \<Rightarrow> int option \<Rightarrow> string \<Rightarrow> image_leg enrich" where
  "image_attempt env objects wc_id ts token =
     act_bind (image_step env objects wc_id ts token) (\<lambda>step.
       case step of
         Embed jpeg attempts \<Rightarrow> image_record env wc_id attempts (ee_embed_image env wc_id jpeg)
       | Settled leg \<Rightarrow> act_return leg)"

section \<open>The text leg\<close>

definition attach_topics :: "int \<Rightarrow> (string \<times> f64) list \<Rightarrow> unit enrich" where
  "attach_topics wc_id labels =
     act_for (\<lambda>(label, score) _. try_ukg (attach_topic wc_id label score)) labels ()"

definition ocr_text :: "int \<Rightarrow> ukg \<Rightarrow> string" where
  "ocr_text wc_id u =
     join_space [t. (i, k, ocr, b) \<leftarrow> regions wc_id u, t \<leftarrow> (case ocr of None \<Rightarrow> [] | Some t \<Rightarrow> [t])]"

text \<open>The answer tells whether the leg must be retried.\<close>

definition store_text :: "int \<Rightarrow> f32 list \<Rightarrow> string \<Rightarrow> bool enrich" where
  "store_text wc_id e space =
     act_bind (act_get (\<lambda>s. space_mismatch (es_text s) space)) (\<lambda>mismatch.
     act_bind
       (if mismatch then act_bind (upd_text semantic_clear) (\<lambda>_. upd_ukg mark_all_unprocessed)
        else act_return ()) (\<lambda>_.
     act_bind (upd_text (set_space_id space)) (\<lambda>_.
     act_bind (text_insert wc_id e) (\<lambda>_.
     act_bind (bump (\<lambda>t. t\<lparr>st_text_embeddings := st_text_embeddings t + 1\<rparr>)) (\<lambda>_.
     act_return False)))))"

definition text_record :: "enrich_env \<Rightarrow> int \<Rightarrow> embed_outcome \<Rightarrow> bool enrich" where
  "text_record env wc_id outcome =
     (case outcome of
        EmbedOk e space \<Rightarrow>
          if \<not> usable e (ee_dim env) then act_return False
          else store_text wc_id e space
      | EmbedDisabled \<Rightarrow> act_bind (upd_ukg (set_config TEXT_UNAVAILABLE ''1'')) (\<lambda>_. act_return False)
      | EmbedRejected \<Rightarrow> act_return False
      | EmbedRetry \<Rightarrow>
          act_bind (bump (\<lambda>t. t\<lparr>st_texts_pending := st_texts_pending t + 1\<rparr>)) (\<lambda>_. act_return True))"

definition text_leg :: "enrich_env \<Rightarrow> int \<Rightarrow> bool enrich" where
  "text_leg env wc_id =
     act_bind (act_get (\<lambda>s. ocr_text wc_id (es_ukg s))) (\<lambda>text.
       if text = [] then act_return False
       else
         act_bind (sem_has es_text wc_id) (\<lambda>present.
           if present then act_return False
           else
             act_bind (text_record env wc_id (ee_embed_text env wc_id text)) (\<lambda>retry.
               if retry then act_return True
               else act_bind (attach_topics wc_id (ee_topics env wc_id text)) (\<lambda>_. act_return False))))"

section \<open>One pass\<close>

definition touch :: "enrich_env \<Rightarrow> int \<Rightarrow> unit enrich" where
  "touch env wc_id = try_ukg (touch_enrich_attempt wc_id (ee_now env))"

text \<open>Queue 1. The result tells that images must stop.\<close>

fun backfill_loop :: "enrich_env \<Rightarrow> object_store \<Rightarrow> queued_capture list \<Rightarrow> bool enrich" where
  "backfill_loop env objects [] = act_return False"
| "backfill_loop env objects ((wc_id, ts, token) # rest) =
     act_bind (touch env wc_id) (\<lambda>_.
     act_bind (image_attempt env objects wc_id ts token) (\<lambda>leg.
       if leg = LegUnavailable then act_return True
       else
         act_bind
           (if leg = LegDone then bump (\<lambda>t. t\<lparr>st_backfilled := st_backfilled t + 1\<rparr>) else act_return ())
           (\<lambda>_. backfill_loop env objects rest)))"

definition no_token_leg :: "enrich_env \<Rightarrow> int \<Rightarrow> image_leg enrich" where
  "no_token_leg env wc_id =
     act_bind (set_state wc_id ''skipped'' 1 (Some ''no image token'') (ee_now env)) (\<lambda>_.
     act_bind (bump (\<lambda>t. t\<lparr>st_images_skipped := st_images_skipped t + 1\<rparr>)) (\<lambda>_.
     act_return LegTerminal))"

text \<open>Queue 2: both legs of one fresh capture.\<close>

definition fresh_one ::
  "enrich_env \<Rightarrow> object_store \<Rightarrow> pending_capture \<Rightarrow> bool \<Rightarrow> bool enrich" where
  "fresh_one env objects cap stop_images =
     (case cap of (wc_id, ts, token_opt) \<Rightarrow>
        act_bind (touch env wc_id) (\<lambda>_.
        act_bind (text_leg env wc_id) (\<lambda>text_retry.
        act_bind
          (if stop_images then act_return LegUnavailable
           else case token_opt of
                  Some token \<Rightarrow> image_attempt env objects wc_id ts token
                | None \<Rightarrow> no_token_leg env wc_id) (\<lambda>leg.
        act_bind
          (if \<not> text_retry \<and> leg \<noteq> LegRetry then upd_ukg (mark_processed wc_id) else act_return ()) (\<lambda>_.
        act_return (stop_images \<or> leg = LegUnavailable))))))"

text \<open>The comparison with the embedder's present spaces, before any work.\<close>

definition sync_text_space :: "string \<Rightarrow> enrich_state \<Rightarrow> enrich_state" where
  "sync_text_space space s =
     (let s1 = (if space_mismatch (es_text s) space
                then s\<lparr>es_text := semantic_clear (es_text s), es_ukg := mark_all_unprocessed (es_ukg s)\<rparr>
                else s)
      in s1\<lparr>es_text := set_space_id space (es_text s1)\<rparr>)"

definition sync_image_space :: "string \<Rightarrow> enrich_state \<Rightarrow> enrich_state" where
  "sync_image_space space s =
     (let s1 = (if space_mismatch (es_image s) space
                then s\<lparr>es_image := semantic_clear (es_image s),
                       es_ukg := reset_image_embedding_states (es_ukg s)\<rparr>
                else s)
      in s1\<lparr>es_image := set_space_id space (es_image s1)\<rparr>)"

definition requeue_text :: "ukg \<Rightarrow> ukg" where
  "requeue_text u =
     (if flag_set u TEXT_UNAVAILABLE then mark_all_unprocessed (set_config TEXT_UNAVAILABLE ''0'' u) else u)"

definition requeue_image :: "ukg \<Rightarrow> ukg" where
  "requeue_image u =
     (if flag_set u IMAGE_UNAVAILABLE
      then reset_image_embedding_states (set_config IMAGE_UNAVAILABLE ''0'' u) else u)"

definition sync_spaces :: "(string \<times> string) option \<Rightarrow> enrich_state \<Rightarrow> enrich_state" where
  "sync_spaces active s =
     (case active of
        None \<Rightarrow> s
      | Some (text_space, image_space) \<Rightarrow>
          let s1 = sync_image_space image_space (sync_text_space text_space s)
          in s1\<lparr>es_ukg := requeue_image (requeue_text (es_ukg s1))\<rparr>)"

definition open_stores :: "enrich_env \<Rightarrow> enrich_state \<Rightarrow> enrich_state" where
  "open_stores env s =
     s\<lparr>es_text := semantic_open (ee_dim env) SPACE_UNKNOWN (es_text s),
       es_image := semantic_open (ee_dim env) SPACE_UNKNOWN (es_image s),
       es_stats := stats_zero\<rparr>"

definition enrich_client :: "enrich_env \<Rightarrow> (string \<times> string) option \<Rightarrow> unit enrich" where
  "enrich_client env active s =
     (case object_store_encrypted (ee_aead env) (ee_base env @ [''objects'']) (ee_object_key env) (ee_fs env) of
        Inl e \<Rightarrow> (Inl (EnrichObjects e), open_stores env s)
      | Inr objects \<Rightarrow>
          let s1 = sync_spaces active (open_stores env s);
              backfill = captures_needing_image_embedding BATCH (ee_now env) RETRY_BACKOFF_TICKS (es_ukg s1);
              fresh = captures_pending_enrichment BATCH (ee_now env) RETRY_BACKOFF_TICKS (es_ukg s1)
          in if backfill = [] \<and> fresh = [] then (Inr (), s1)
             else act_bind (backfill_loop env objects backfill) (\<lambda>stop.
                  act_bind (act_for (fresh_one env objects) fresh stop) (\<lambda>_.
                  act_return ())) s1)"

text \<open>\<open>enrich_once\<close>: every client in turn; an error ends that client's pass only.\<close>

fun enrich_once ::
  "(string \<times> string) option \<Rightarrow> (enrich_env \<times> enrich_state) list \<Rightarrow> enrich_stats \<times> enrich_state list" where
  "enrich_once active [] = (stats_zero, [])"
| "enrich_once active ((env, s) # rest) =
     (let (r, s') = enrich_client env active s;
          (stats, ss) = enrich_once active rest
      in (case r of Inr _ \<Rightarrow> absorb (es_stats s') stats | Inl _ \<Rightarrow> stats, s' # ss))"

end
