(* ===== verification/Enricher_Safety.thy ===== *)
theory Enricher_Safety
  imports Enricher
begin

text \<open>
  What an enrichment pass keeps and promises. The invariant is carried through the actions of
  \<open>Enricher\<close> by the rules of \<open>act_ok\<close>; since \<open>act_ok\<close> includes success, the same lemmas show
  that a pass over a sound store never ends with an error.
\<close>

section \<open>The invariant\<close>

definition image_states_ok :: "(int \<times> image_state_row) list \<Rightarrow> bytes list \<Rightarrow> bool" where
  "image_states_ok rows items \<longleftrightarrow>
     (\<forall>(wc, r) \<in> set rows. is_state r \<in> {''pending'', ''done'', ''skipped''}
        \<and> (is_state r = ''done'' \<longrightarrow> item_id_for_capture wc \<in> set items))"

definition unprocessed :: "int \<Rightarrow> ukg \<Rightarrow> bool" where
  "unprocessed w u \<longleftrightarrow> (\<forall>(i, r) \<in> set (tbl_rows (uk_captures u)). i = w \<longrightarrow> wc_is_processed r = 0)"

definition enrich_inv :: "enrich_state \<Rightarrow> bool" where
  "enrich_inv s \<longleftrightarrow>
     ukg_ok (es_ukg s) \<and> si_ok (es_text s) \<and> si_ok (es_image s)
     \<and> image_states_ok (uk_image_state (es_ukg s)) (si_items (es_image s))"

text \<open>The invariant with the parts of the state a proof follows: the dimension, the captures,
  the attempts, and a capture that stays unprocessed.\<close>

definition enrich_at :: "nat \<Rightarrow> int list \<Rightarrow> (int \<times> int) list \<Rightarrow> int \<Rightarrow> enrich_state \<Rightarrow> bool" where
  "enrich_at d ids att w s \<longleftrightarrow>
     enrich_inv s \<and> si_dim (es_text s) = d \<and> si_dim (es_image s) = d
     \<and> capture_ids (es_ukg s) = ids \<and> uk_attempts (es_ukg s) = att \<and> unprocessed w (es_ukg s)"

definition harmless :: "int \<Rightarrow> (ukg \<Rightarrow> ukg) \<Rightarrow> bool" where
  "harmless w f \<longleftrightarrow>
     (\<forall>u. ukg_ok u \<longrightarrow> ukg_ok (f u) \<and> capture_ids (f u) = capture_ids u \<and> uk_attempts (f u) = uk_attempts u
        \<and> set (uk_image_state (f u)) \<subseteq> set (uk_image_state u) \<and> (unprocessed w u \<longrightarrow> unprocessed w (f u)))"

lemma image_states_mono:
  "image_states_ok rows items \<Longrightarrow> set rows' \<subseteq> set rows \<Longrightarrow> set items \<subseteq> set items' \<Longrightarrow> image_states_ok rows' items'"
  by (fastforce simp: image_states_ok_def)

lemma harmless_config: "harmless w (set_config k v)"
  using ukg_step_ok ukg_step.config
  by (auto simp: harmless_def set_config_def capture_ids_def unprocessed_def)

lemma capture_ids_map [simp]: "capture_ids (u\<lparr>uk_captures := tbl_map f (uk_captures u)\<rparr>) = capture_ids u"
  by (simp add: capture_ids_def)

lemma unprocessed_map:
  "unprocessed w u \<Longrightarrow> (\<And>r. wc_is_processed r = 0 \<Longrightarrow> wc_is_processed (f w r) = 0) \<Longrightarrow>
     unprocessed w (u\<lparr>uk_captures := tbl_map f (uk_captures u)\<rparr>)"
  by (fastforce simp: unprocessed_def tbl_map_def)

lemma harmless_mark_all: "harmless w mark_all_unprocessed"
  unfolding harmless_def
proof (intro allI impI)
  fix u assume "ukg_ok u"
  then have "ukg_ok (mark_all_unprocessed u)" by (rule ukg_step_ok) (rule ukg_step.requeue)
  then show "ukg_ok (mark_all_unprocessed u) \<and> capture_ids (mark_all_unprocessed u) = capture_ids u
      \<and> uk_attempts (mark_all_unprocessed u) = uk_attempts u
      \<and> set (uk_image_state (mark_all_unprocessed u)) \<subseteq> set (uk_image_state u)
      \<and> (unprocessed w u \<longrightarrow> unprocessed w (mark_all_unprocessed u))"
    by (auto simp: mark_all_unprocessed_def unprocessed_map)
qed

lemma harmless_mark: "wc \<noteq> w \<Longrightarrow> harmless w (mark_processed wc)"
  unfolding harmless_def
proof (intro allI impI)
  fix u assume "wc \<noteq> w" "ukg_ok u"
  moreover have "ukg_ok (mark_processed wc u)"
    using \<open>ukg_ok u\<close> by (rule ukg_step_ok) (rule ukg_step.processed)
  ultimately show "ukg_ok (mark_processed wc u) \<and> capture_ids (mark_processed wc u) = capture_ids u
      \<and> uk_attempts (mark_processed wc u) = uk_attempts u
      \<and> set (uk_image_state (mark_processed wc u)) \<subseteq> set (uk_image_state u)
      \<and> (unprocessed w u \<longrightarrow> unprocessed w (mark_processed wc u))"
    by (auto simp: mark_processed_def unprocessed_map)
qed

lemma harmless_reset: "harmless w reset_image_embedding_states"
  using ukg_step_ok ukg_step.reset
  by (auto simp: harmless_def reset_image_embedding_states_def capture_ids_def unprocessed_def)

lemma harmless_comp: "harmless w f \<Longrightarrow> harmless w g \<Longrightarrow> harmless w (\<lambda>u. f (g u))"
  unfolding harmless_def by (metis subset_trans)

section \<open>Actions on the stores\<close>

lemma ok_upd_ukg: "harmless w f \<Longrightarrow> act_ok (enrich_at d ids att w) (upd_ukg f) (\<lambda>_. enrich_at d ids att w)"
  unfolding upd_ukg_def
  by (rule act_ok_update) (auto simp: enrich_at_def enrich_inv_def harmless_def intro: image_states_mono)

lemma ok_bump: "act_ok (enrich_at d ids att w) (bump f) (\<lambda>_. enrich_at d ids att w)"
  unfolding bump_def by (rule act_ok_update) (simp add: enrich_at_def enrich_inv_def)

lemma ok_upd_text:
  "(\<And>i. si_ok i \<Longrightarrow> si_ok (f i) \<and> si_dim (f i) = si_dim i) \<Longrightarrow>
     act_ok (enrich_at d ids att w) (upd_text f) (\<lambda>_. enrich_at d ids att w)"
  unfolding upd_text_def by (rule act_ok_update) (simp add: enrich_at_def enrich_inv_def)

lemma ok_image_space:
  "act_ok (enrich_at d ids att w) (upd_image (set_space_id s)) (\<lambda>_. enrich_at d ids att w)"
  unfolding upd_image_def
  by (rule act_ok_update) (simp add: enrich_at_def enrich_inv_def si_ok_set_space)

lemma dim_clear [simp]: "si_dim (semantic_clear i) = si_dim i"
  by (simp add: semantic_clear_def)

text \<open>Clearing the image store is only sound together with forgetting the states.\<close>

lemma ok_image_rebuild:
  "act_ok (enrich_at d ids att w)
     (act_bind (upd_image semantic_clear) (\<lambda>_. upd_ukg reset_image_embedding_states))
     (\<lambda>_. enrich_at d ids att w)"
proof -
  have "enrich_at d ids att w (s\<lparr>es_image := semantic_clear (es_image s),
      es_ukg := reset_image_embedding_states (es_ukg s)\<rparr>)" if "enrich_at d ids att w s" for s
    using that harmless_reset [of w]
    by (simp add: enrich_at_def enrich_inv_def harmless_def si_ok_clear)
      (simp add: image_states_ok_def reset_image_embedding_states_def)
  then show ?thesis
    by (simp add: act_ok_def act_bind_def upd_image_def upd_ukg_def act_update_def)
qed

lemma ok_sem_has_image:
  "act_ok (enrich_at d ids att w) (sem_has es_image wc)
     (\<lambda>b s. enrich_at d ids att w s \<and> (b \<longrightarrow> item_id_for_capture wc \<in> set (si_items (es_image s))))"
  by (auto simp: act_ok_def sem_has_def enrich_at_def enrich_inv_def has_item_iff)

lemma ok_sem_has_text: "act_ok (enrich_at d ids att w) (sem_has es_text wc) (\<lambda>_. enrich_at d ids att w)"
  by (auto simp: act_ok_def sem_has_def enrich_at_def enrich_inv_def has_item_iff)

lemma ok_text_insert:
  assumes "length e = d"
  shows "act_ok (enrich_at d ids att w) (text_insert wc e) (\<lambda>_. enrich_at d ids att w)"
  unfolding act_ok_def
proof (intro allI impI)
  fix s assume s: "enrich_at d ids att w s"
  then obtain g i where i: "semantic_insert (item_id_for_capture wc) None None e (es_text s) = (Inr g, i)"
    using insert_succeeds [of e "es_text s" "item_id_for_capture wc" None None] assms
    by (auto simp: enrich_at_def)
  have "si_ok i \<and> si_dim i = d"
    using s si_ok_insert [OF _ i] insert_Inr [OF i] by (simp add: enrich_at_def enrich_inv_def)
  then show "\<exists>a s'. text_insert wc e s = (Inr a, s') \<and> enrich_at d ids att w s'"
    using s i by (simp add: text_insert_def enrich_at_def enrich_inv_def)
qed

lemma ok_image_insert:
  assumes "length e = d"
  shows "act_ok (enrich_at d ids att w) (image_insert wc e)
     (\<lambda>_ s. enrich_at d ids att w s \<and> item_id_for_capture wc \<in> set (si_items (es_image s)))"
  unfolding act_ok_def
proof (intro allI impI)
  fix s assume s: "enrich_at d ids att w s"
  then obtain g i where i: "semantic_insert (item_id_for_capture wc) None None e (es_image s) = (Inr g, i)"
    using insert_succeeds [of e "es_image s" "item_id_for_capture wc" None None] assms
    by (auto simp: enrich_at_def)
  have it: "set (si_items (es_image s)) \<subseteq> set (si_items i)" "item_id_for_capture wc \<in> set (si_items i)"
    using insert_Inr [OF i] by (auto simp: rel_insert_or_ignore_def)
  have "si_ok i \<and> si_dim i = d"
    using s si_ok_insert [OF _ i] insert_Inr [OF i] by (simp add: enrich_at_def enrich_inv_def)
  then show "\<exists>a s'. image_insert wc e s = (Inr a, s') \<and> enrich_at d ids att w s'
      \<and> item_id_for_capture wc \<in> set (si_items (es_image s'))"
    using s i it image_states_mono [OF _ subset_refl it(1)]
    by (simp add: image_insert_def enrich_at_def enrich_inv_def)
qed

lemma image_states_update:
  assumes "image_states_ok rows items" "is_state r \<in> {''pending'', ''done'', ''skipped''}"
    and "is_state r = ''done'' \<longrightarrow> item_id_for_capture wc \<in> set items"
  shows "image_states_ok (AList.update wc r rows) items"
  using assms by (induction rows) (auto simp: image_states_ok_def)

lemma ok_set_state:
  assumes "wc \<in> set ids" "st \<in> {''pending'', ''done'', ''skipped''}"
  shows "act_ok (\<lambda>s. enrich_at d ids att w s
        \<and> (st = ''done'' \<longrightarrow> item_id_for_capture wc \<in> set (si_items (es_image s))))
     (set_state wc st attempts err now) (\<lambda>_. enrich_at d ids att w)"
  unfolding act_ok_def
proof (intro allI impI)
  fix s
  let ?row = "\<lparr>is_state = st, is_attempts = attempts, is_last_error = err, is_updated_at = now\<rparr>"
  assume s: "enrich_at d ids att w s
        \<and> (st = ''done'' \<longrightarrow> item_id_for_capture wc \<in> set (si_items (es_image s)))"
  then have u: "set_image_embedding_state wc st attempts err now (es_ukg s)
      = (Inr (), (es_ukg s)\<lparr>uk_image_state := AList.update wc ?row (uk_image_state (es_ukg s))\<rparr>)"
    using assms(1) by (simp add: set_image_embedding_state_def enrich_at_def)
  have "ukg_ok ((es_ukg s)\<lparr>uk_image_state := AList.update wc ?row (uk_image_state (es_ukg s))\<rparr>)"
    using ukg_step_ok [OF _ ukg_step.image_state [OF u]] s by (simp add: enrich_at_def enrich_inv_def)
  then show "\<exists>a s'. set_state wc st attempts err now s = (Inr a, s') \<and> enrich_at d ids att w s'"
    using s assms(2) image_states_update [of "uk_image_state (es_ukg s)" "si_items (es_image s)" ?row wc]
    by (simp add: set_state_def try_ukg_def u)
      (auto simp: enrich_at_def enrich_inv_def capture_ids_def unprocessed_def)
qed

lemma ok_set_state_plain:
  assumes "wc \<in> set ids" "st \<in> {''pending'', ''skipped''}"
  shows "act_ok (enrich_at d ids att w) (set_state wc st attempts err now) (\<lambda>_. enrich_at d ids att w)"
  by (rule act_ok_pre [OF ok_set_state]) (use assms in auto)

lemma ok_attach_topic:
  assumes "wc \<in> set ids"
  shows "act_ok (enrich_at d ids att w) (try_ukg (attach_topic wc label score)) (\<lambda>_. enrich_at d ids att w)"
  unfolding act_ok_def
proof (intro allI impI)
  fix s assume s: "enrich_at d ids att w s"
  then have ok: "ukg_ok (es_ukg s)" and ids: "wc \<in> set (capture_ids (es_ukg s))"
    using assms by (auto simp: enrich_at_def enrich_inv_def)
  have "tbl_ok (uk_topics (es_ukg s))" "tbl_unique (\<lambda>s. s) (uk_topics (es_ukg s))"
    using ok by (simp_all add: ukg_ok_def links_ok_def)
  then obtain i t where up: "tbl_upsert (\<lambda>s. s) label (uk_topics (es_ukg s)) = Inr (i, t)"
    using tbl_upsert_ok by metis
  define u where "u = snd (attach_topic wc label score (es_ukg s))"
  have u: "attach_topic wc label score (es_ukg s) = (Inr (), u)"
    using up ids by (simp add: attach_topic_def u_def)
  have same: "capture_ids u = capture_ids (es_ukg s)" "uk_attempts u = uk_attempts (es_ukg s)"
    "uk_image_state u = uk_image_state (es_ukg s)" "uk_captures u = uk_captures (es_ukg s)"
    using up ids by (simp_all add: u_def attach_topic_def capture_ids_def)
  have "ukg_ok u" using attach_topic_ok [OF ok u] .
  then show "\<exists>a s'. try_ukg (attach_topic wc label score) s = (Inr a, s') \<and> enrich_at d ids att w s'"
    using s same by (simp add: try_ukg_def u enrich_at_def enrich_inv_def unprocessed_def)
qed

lemma ok_touch:
  assumes "wc \<in> set ids"
  shows "act_ok (enrich_at d ids att w) (touch env wc)
     (\<lambda>_. enrich_at d ids (AList.update wc (ee_now env) att) w)"
  unfolding act_ok_def
proof (intro allI impI)
  fix s assume s: "enrich_at d ids att w s"
  then have u: "touch_enrich_attempt wc (ee_now env) (es_ukg s)
      = (Inr (), (es_ukg s)\<lparr>uk_attempts := AList.update wc (ee_now env) att\<rparr>)"
    using assms by (simp add: touch_enrich_attempt_def enrich_at_def)
  have "ukg_ok ((es_ukg s)\<lparr>uk_attempts := AList.update wc (ee_now env) att\<rparr>)"
    using ukg_step_ok [OF _ ukg_step.attempt [OF u]] s by (simp add: enrich_at_def enrich_inv_def)
  then show "\<exists>a s'. touch env wc s = (Inr a, s') \<and> enrich_at d ids (AList.update wc (ee_now env) att) w s'"
    using s by (simp add: touch_def try_ukg_def u)
      (simp add: enrich_at_def enrich_inv_def capture_ids_def unprocessed_def)
qed

section \<open>The legs\<close>

lemma ok_settle:
  assumes "wc \<in> set ids"
  shows "act_ok (enrich_at d ids att w) (settle_skipped wc n note now) (\<lambda>_. enrich_at d ids att w)"
    "act_ok (enrich_at d ids att w) (settle_pending wc n note now) (\<lambda>_. enrich_at d ids att w)"
  unfolding settle_skipped_def settle_pending_def
  by (rule act_ok_bind [OF ok_set_state_plain [OF assms]], simp,
      rule act_ok_bind [OF ok_bump], rule act_ok_return, assumption)+

lemma ok_confirm_done:
  assumes "wc \<in> set ids"
  shows "act_ok (\<lambda>s. enrich_at d ids att w s \<and> item_id_for_capture wc \<in> set (si_items (es_image s)))
     (confirm_done wc prior now) (\<lambda>_. enrich_at d ids att w)"
  unfolding confirm_done_def
  by (intro act_ok_bind [where R = "\<lambda>_. enrich_at d ids att w"] act_ok_if
      act_ok_pre [OF ok_set_state [OF assms]] act_ok_return) auto

lemma ok_image_source:
  assumes "wc \<in> set ids"
  shows "act_ok (enrich_at d ids att w) (image_source env objects wc ts token n now) (\<lambda>_. enrich_at d ids att w)"
  using ok_settle [OF assms]
  by (auto simp: image_source_def Let_def intro: act_ok_return
      split: option.split sum.split object_error.split)

lemma ok_bump_return: "act_ok (enrich_at d ids att w) (act_bind (bump f) (\<lambda>_. act_return x)) (\<lambda>_. enrich_at d ids att w)"
  by (rule act_ok_bind [OF ok_bump act_ok_return])

lemma ok_image_step:
  assumes "wc \<in> set ids"
  shows "act_ok (enrich_at d ids att w) (image_step env objects wc ts token) (\<lambda>_. enrich_at d ids att w)"
  unfolding image_step_def
proof (rule act_ok_bind [OF ok_sem_has_image [of d ids att w wc]], rule act_ok_bind [OF act_ok_get], assumption)
  fix present prior
  show "act_ok (\<lambda>s. enrich_at d ids att w s
        \<and> (present \<longrightarrow> item_id_for_capture wc \<in> set (si_items (es_image s))))
     (if present then confirm_done wc prior (ee_clock env wc)
      else if prior_state prior = Some ''skipped'' then
         act_bind (bump (\<lambda>t. t\<lparr>st_images_skipped := st_images_skipped t + 1\<rparr>)) (\<lambda>_.
         act_return (Settled LegTerminal))
      else image_source env objects wc ts token (prior_attempts prior) (ee_clock env wc))
     (\<lambda>_. enrich_at d ids att w)"
    by (intro act_ok_if act_ok_pre [OF ok_confirm_done [OF assms]] act_ok_pre [OF ok_bump_return]
        act_ok_pre [OF ok_image_source [OF assms]]) auto
qed

lemma ok_store_image:
  assumes "wc \<in> set ids" "length e = d"
  shows "act_ok (enrich_at d ids att w) (store_image env wc n e space) (\<lambda>_. enrich_at d ids att w)"
proof -
  let ?I = "enrich_at d ids att w"
  have rebuild: "act_ok ?I (if mismatch then
          act_bind (upd_image semantic_clear) (\<lambda>_. upd_ukg reset_image_embedding_states)
        else act_return ()) (\<lambda>_. ?I)" for mismatch
    by (intro act_ok_if ok_image_rebuild act_ok_return)
  have done_row: "act_ok (\<lambda>s. ?I s \<and> item_id_for_capture wc \<in> set (si_items (es_image s)))
      (set_state wc ''done'' (n + 1) None (ee_record_clock env wc)) (\<lambda>_. ?I)"
    by (rule act_ok_pre [OF ok_set_state [OF assms(1)]]) simp_all
  show ?thesis
    unfolding store_image_def
    by (rule act_ok_bind [OF act_ok_get [where Q = "\<lambda>_. ?I"]], assumption,
        rule act_ok_bind [OF rebuild], rule act_ok_bind [OF ok_image_space],
        rule act_ok_bind [OF ok_image_insert [OF assms(2)]], rule act_ok_bind [OF done_row],
        rule ok_bump_return)
qed

lemma ok_set_state_bump:
  assumes "wc \<in> set ids" "st \<in> {''pending'', ''skipped''}"
  shows "act_ok (enrich_at d ids att w)
     (act_bind (set_state wc st n err now) (\<lambda>_. act_bind (bump f) (\<lambda>_. act_return x)))
     (\<lambda>_. enrich_at d ids att w)"
  by (rule act_ok_bind [OF ok_set_state_plain [OF assms]]) (rule ok_bump_return)

lemma ok_image_record:
  assumes "wc \<in> set ids" "ee_dim env = d"
  shows "act_ok (enrich_at d ids att w) (image_record env wc n outcome) (\<lambda>_. enrich_at d ids att w)"
proof (cases outcome)
  case (EmbedOk e space)
  then show ?thesis
    using assms by (auto simp: image_record_def Let_def usable_def intro: ok_set_state_bump ok_store_image)
next
  case EmbedDisabled
  then show ?thesis
    by (simp add: image_record_def Let_def)
      (rule act_ok_bind [OF ok_upd_ukg [OF harmless_config]], rule ok_bump_return)
qed (simp_all add: image_record_def Let_def ok_set_state_bump assms(1))

lemma ok_image_leg:
  assumes "wc \<in> set ids" "ee_dim env = d"
  shows "act_ok (enrich_at d ids att w) (image_attempt env objects wc ts token) (\<lambda>_. enrich_at d ids att w)"
  unfolding image_attempt_def
  by (rule act_ok_bind [OF ok_image_step [OF assms(1)]])
    (auto split: image_step.split intro: ok_image_record [OF assms] act_ok_return)

lemma ok_store_text:
  assumes "length e = d"
  shows "act_ok (enrich_at d ids att w) (store_text wc e space) (\<lambda>_. enrich_at d ids att w)"
  unfolding store_text_def
  by (rule act_ok_bind [OF act_ok_get [where Q = "\<lambda>_. enrich_at d ids att w"]], assumption,
      rule act_ok_bind [where R = "\<lambda>_. enrich_at d ids att w"],
      intro act_ok_if act_ok_bind [OF ok_upd_text ok_upd_ukg [OF harmless_mark_all]] act_ok_return,
      simp add: si_ok_clear, assumption,
      rule act_ok_bind [OF ok_upd_text], simp add: si_ok_set_space,
      rule act_ok_bind [OF ok_text_insert [OF assms]], rule ok_bump_return)

lemma ok_text_record:
  assumes "ee_dim env = d"
  shows "act_ok (enrich_at d ids att w) (text_record env wc outcome) (\<lambda>_. enrich_at d ids att w)"
  using assms
  by (cases outcome)
    (auto simp: text_record_def usable_def intro: act_ok_return ok_store_text ok_bump_return
      act_ok_bind [OF ok_upd_ukg [OF harmless_config]])

lemma ok_attach_topics:
  assumes "wc \<in> set ids"
  shows "act_ok (enrich_at d ids att w) (attach_topics wc labels) (\<lambda>_. enrich_at d ids att w)"
  unfolding attach_topics_def
  by (rule act_ok_for) (auto intro: ok_attach_topic [OF assms])

lemma ok_text_leg:
  assumes "wc \<in> set ids" "ee_dim env = d"
  shows "act_ok (enrich_at d ids att w) (text_leg env wc) (\<lambda>_. enrich_at d ids att w)"
  unfolding text_leg_def
  by (rule act_ok_bind [OF act_ok_get [where Q = "\<lambda>_. enrich_at d ids att w"]], assumption,
      intro act_ok_if act_ok_return act_ok_bind [OF ok_sem_has_text] act_ok_bind [OF ok_text_record [OF assms(2)]]
        act_ok_bind [OF ok_attach_topics [OF assms(1)]])

section \<open>The loops\<close>

definition touch_all :: "int \<Rightarrow> int list \<Rightarrow> (int \<times> int) list \<Rightarrow> (int \<times> int) list" where
  "touch_all now wcs att = foldl (\<lambda>a wc. AList.update wc now a) att wcs"

lemma touch_all_simps [simp]:
  "touch_all now [] att = att"
  "touch_all now (wc # wcs) att = touch_all now wcs (AList.update wc now att)"
  by (simp_all add: touch_all_def)

lemma touch_all_append: "touch_all now (xs @ ys) att = touch_all now ys (touch_all now xs att)"
  by (simp add: touch_all_def)

lemma map_of_touch_all:
  "map_of (touch_all now wcs att) i = (if i \<in> set wcs then Some now else map_of att i)"
  by (induction wcs arbitrary: att) (auto simp: update_conv')

lemma ok_backfill_loop:
  assumes "ee_dim env = d" "\<forall>c \<in> set q. fst c \<in> set ids"
  shows "act_ok (enrich_at d ids att w) (backfill_loop env objects q)
     (\<lambda>_ s. \<exists>n. enrich_at d ids (touch_all (ee_now env) (take n (map fst q)) att) w s)"
  using assms(2)
proof (induction q arbitrary: att)
  case Nil
  then show ?case by (auto intro!: act_ok_return)
next
  case (Cons c q)
  obtain wc ts token where c: "c = (wc, ts, token)" by (cases c)
  let ?att = "AList.update wc (ee_now env) att"
  let ?Q = "\<lambda>_ s. \<exists>n. enrich_at d ids (touch_all (ee_now env) (take n (map fst (c # q))) att) w s"
  have wc: "wc \<in> set ids" using Cons.prems c by simp
  have stop: "act_ok (enrich_at d ids ?att w) (act_return True) ?Q"
    by (rule act_ok_return) (rule exI [of _ 1], simp add: c)
  have step: "act_ok (enrich_at d ids ?att w) (backfill_loop env objects q) ?Q"
  proof (rule act_ok_weaken [OF Cons.IH [of ?att]])
    show "\<forall>c \<in> set q. fst c \<in> set ids" using Cons.prems by simp
    fix s assume "\<exists>n. enrich_at d ids (touch_all (ee_now env) (take n (map fst q)) ?att) w s"
    then obtain n where "enrich_at d ids (touch_all (ee_now env) (take n (map fst q)) ?att) w s" ..
    then show "\<exists>n. enrich_at d ids (touch_all (ee_now env) (take n (map fst (c # q))) att) w s"
      by (intro exI [of _ "Suc n"]) (simp add: c)
  qed simp
  show ?case
    unfolding c backfill_loop.simps
    by (rule act_ok_bind [OF ok_touch [OF wc]], rule act_ok_bind [OF ok_image_leg [OF wc assms(1)]],
        rule act_ok_if, rule stop [unfolded c],
        rule act_ok_bind [where R = "\<lambda>_. enrich_at d ids ?att w"],
        intro act_ok_if ok_bump act_ok_return, assumption, rule step [unfolded c])
qed

lemma ok_fresh_one:
  assumes "fst c \<in> set ids" "ee_dim env = d" "fst c \<noteq> w"
  shows "act_ok (enrich_at d ids att w) (fresh_one env objects c stop)
     (\<lambda>_. enrich_at d ids (AList.update (fst c) (ee_now env) att) w)"
proof -
  obtain wc ts tok where c: "c = (wc, ts, tok)" by (cases c)
  have wc: "wc \<in> set ids" "wc \<noteq> w" using assms c by simp_all
  have leg: "act_ok (enrich_at d ids att' w)
      (if stop then act_return LegUnavailable
       else case tok of Some token \<Rightarrow> image_attempt env objects wc ts token | None \<Rightarrow> no_token_leg env wc)
      (\<lambda>_. enrich_at d ids att' w)" for att'
    using wc(1) assms(2)
    by (auto split: option.split simp: no_token_leg_def intro: act_ok_return ok_image_leg ok_set_state_bump)
  show ?thesis
    unfolding fresh_one_def c prod.case fst_conv
    by (rule act_ok_bind [OF ok_touch [OF wc(1)]], rule act_ok_bind [OF ok_text_leg [OF wc(1) assms(2)]],
        rule act_ok_bind [OF leg],
        rule act_ok_bind [where R = "\<lambda>_. enrich_at d ids (AList.update wc (ee_now env) att) w"],
        intro act_ok_if ok_upd_ukg harmless_mark [OF wc(2)] act_ok_return, assumption,
        rule act_ok_return, assumption)
qed

lemma ok_fresh_loop:
  assumes "ee_dim env = d" "\<forall>c \<in> set q. fst c \<in> set ids \<and> fst c \<noteq> w"
  shows "act_ok (enrich_at d ids att w) (act_for (fresh_one env objects) q stop)
     (\<lambda>_. enrich_at d ids (touch_all (ee_now env) (map fst q) att) w)"
  using assms(2)
proof (induction q arbitrary: att stop)
  case Nil
  then show ?case by (simp add: act_ok_return)
next
  case (Cons c q)
  then show ?case
    by (auto intro!: act_ok_bind [OF ok_fresh_one [OF _ assms(1)]])
qed

section \<open>A whole pass\<close>

lemma sync_text_ok: "enrich_at d ids att w s \<Longrightarrow> enrich_at d ids att w (sync_text_space sp s)"
  using harmless_mark_all [of w]
  by (auto simp: sync_text_space_def Let_def enrich_at_def enrich_inv_def si_ok_set_space si_ok_clear
      harmless_def intro: image_states_mono)

lemma sync_image_ok: "enrich_at d ids att w s \<Longrightarrow> enrich_at d ids att w (sync_image_space sp s)"
  using harmless_reset [of w]
  by (auto simp: sync_image_space_def Let_def enrich_at_def enrich_inv_def si_ok_set_space si_ok_clear
      harmless_def)
    (simp add: image_states_ok_def reset_image_embedding_states_def)

lemma harmless_requeue: "harmless w requeue_text" "harmless w requeue_image"
proof -
  have "harmless w (\<lambda>u. u)" by (simp add: harmless_def)
  moreover have "harmless w (\<lambda>u. mark_all_unprocessed (set_config TEXT_UNAVAILABLE ''0'' u))"
    "harmless w (\<lambda>u. reset_image_embedding_states (set_config IMAGE_UNAVAILABLE ''0'' u))"
    by (rule harmless_comp [OF harmless_mark_all harmless_config] harmless_comp [OF harmless_reset harmless_config])+
  ultimately show "harmless w requeue_text" "harmless w requeue_image"
    by (simp_all add: harmless_def requeue_text_def requeue_image_def)
qed

lemma sync_spaces_ok:
  assumes "enrich_at d ids att w s"
  shows "enrich_at d ids att w (sync_spaces active s)"
proof (cases active)
  case None
  then show ?thesis using assms by (simp add: sync_spaces_def)
next
  case (Some p)
  obtain t i where p: "p = (t, i)" by (cases p)
  have "enrich_at d ids att w (sync_image_space i (sync_text_space t s))"
    by (intro sync_image_ok sync_text_ok assms)
  then show ?thesis
    using harmless_comp [OF harmless_requeue(2) harmless_requeue(1), of w]
    by (auto simp: sync_spaces_def Some p Let_def enrich_at_def enrich_inv_def harmless_def
        intro: image_states_mono)
qed

lemma open_stores_ok:
  assumes "enrich_inv s" "unprocessed w (es_ukg s)"
  shows "enrich_at (ee_dim env) (capture_ids (es_ukg s)) (uk_attempts (es_ukg s)) w (open_stores env s)"
  using assms
  by (simp add: enrich_at_def enrich_inv_def open_stores_def si_ok_open)
    (simp add: semantic_open_def ensure_info_def Let_def)

definition env_ok :: "enrich_env \<Rightarrow> bool" where
  "env_ok env \<longleftrightarrow> \<not> fs_fault (ee_fs env) (ee_base env @ [''objects''])"

definition fresh_queue :: "enrich_env \<Rightarrow> (string \<times> string) option \<Rightarrow> enrich_state \<Rightarrow> pending_capture list" where
  "fresh_queue env active s =
     captures_pending_enrichment BATCH (ee_now env) RETRY_BACKOFF_TICKS
       (es_ukg (sync_spaces active (open_stores env s)))"

lemma queue_ids:
  "c \<in> set (captures_pending_enrichment limit now backoff u) \<Longrightarrow> fst c \<in> set (capture_ids u)"
  "c' \<in> set (captures_needing_image_embedding limit now backoff u) \<Longrightarrow> fst c' \<in> set (capture_ids u)"
  by (auto simp: captures_pending_enrichment_def captures_needing_image_embedding_def
      capture_ids_def tbl_ids_def dest!: paced_queue_waiting intro: rev_image_eqI)

text \<open>The queues of a pass, and the pass as the two loops over them.\<close>

definition backfill_queue :: "enrich_env \<Rightarrow> (string \<times> string) option \<Rightarrow> enrich_state \<Rightarrow> queued_capture list" where
  "backfill_queue env active s =
     captures_needing_image_embedding BATCH (ee_now env) RETRY_BACKOFF_TICKS
       (es_ukg (sync_spaces active (open_stores env s)))"

lemma env_ok_objects:
  assumes "env_ok env"
  obtains objects where "object_store_encrypted (ee_aead env) (ee_base env @ [''objects'']) (ee_object_key env) (ee_fs env)
     = Inr objects"
  using assms by (simp add: object_store_encrypted_def object_store_open_def fs_create_dir_all_def env_ok_def)

lemma enrich_client_loops:
  assumes "object_store_encrypted (ee_aead env) (ee_base env @ [''objects'']) (ee_object_key env) (ee_fs env) = Inr objects"
  shows "enrich_client env active s =
     act_bind (backfill_loop env objects (backfill_queue env active s)) (\<lambda>stop.
       act_bind (act_for (fresh_one env objects) (fresh_queue env active s) stop) (\<lambda>_. act_return ()))
       (sync_spaces active (open_stores env s))"
  using assms by (auto simp: enrich_client_def Let_def fresh_queue_def backfill_queue_def act_bind_def act_return_def)

lemma pass_queues:
  assumes "enrich_inv s" "unprocessed w (es_ukg s)"
  shows "enrich_at (ee_dim env) (capture_ids (es_ukg s)) (uk_attempts (es_ukg s)) w (sync_spaces active (open_stores env s))"
    "tbl_ok (uk_captures (es_ukg (sync_spaces active (open_stores env s))))"
    "\<forall>c \<in> set (backfill_queue env active s). fst c \<in> set (capture_ids (es_ukg s)) \<and> fst c \<noteq> w"
    "\<forall>c \<in> set (fresh_queue env active s). fst c \<in> set (capture_ids (es_ukg s))"
proof -
  let ?s1 = "sync_spaces active (open_stores env s)"
  show at1: "enrich_at (ee_dim env) (capture_ids (es_ukg s)) (uk_attempts (es_ukg s)) w ?s1"
    by (intro sync_spaces_ok open_stores_ok assms)
  then have ids: "capture_ids (es_ukg ?s1) = capture_ids (es_ukg s)" by (simp add: enrich_at_def)
  show "tbl_ok (uk_captures (es_ukg ?s1))"
    using at1 by (simp add: enrich_at_def enrich_inv_def ukg_ok_captures(1))
  have "fst c \<noteq> w" if "c \<in> set (backfill_queue env active s)" for c
    using at1 that by (fastforce simp: backfill_queue_def captures_needing_image_embedding_def enrich_at_def
        unprocessed_def needs_image_def dest!: paced_queue_waiting)
  then show "\<forall>c \<in> set (backfill_queue env active s). fst c \<in> set (capture_ids (es_ukg s)) \<and> fst c \<noteq> w"
    using queue_ids(2) ids unfolding backfill_queue_def by metis
  show "\<forall>c \<in> set (fresh_queue env active s). fst c \<in> set (capture_ids (es_ukg s))"
    using queue_ids(1) ids unfolding fresh_queue_def by metis
qed

text \<open>A pass succeeds, keeps the invariant and the captures, and moves the clock of exactly the
  fresh queue and a prefix of the backfill queue.\<close>

lemma enrich_client_run:
  assumes "enrich_inv s" "env_ok env" "unprocessed w (es_ukg s)"
    and "\<forall>c \<in> set (fresh_queue env active s). fst c \<noteq> w"
  obtains s' bq where "enrich_client env active s = (Inr (), s')"
    "enrich_at (ee_dim env) (capture_ids (es_ukg s))
       (touch_all (ee_now env) (bq @ map fst (fresh_queue env active s)) (uk_attempts (es_ukg s))) w s'"
    "w \<notin> set bq"
proof (rule env_ok_objects [OF assms(2)])
  fix objects
  assume obj: "object_store_encrypted (ee_aead env) (ee_base env @ [''objects'']) (ee_object_key env) (ee_fs env) = Inr objects"
  let ?s1 = "sync_spaces active (open_stores env s)"
  let ?ids = "capture_ids (es_ukg s)" and ?att = "uk_attempts (es_ukg s)"
  let ?b = "backfill_queue env active s" and ?q = "fresh_queue env active s"
  note queues = pass_queues [OF assms(1,3), where env = env and active = active]
  have b: "\<forall>c \<in> set ?b. fst c \<in> set ?ids" using queues(3) by blast
  have q: "\<forall>c \<in> set ?q. fst c \<in> set ?ids \<and> fst c \<noteq> w" using queues(4) assms(4) by blast
  obtain stop s2 n where s2: "backfill_loop env objects ?b ?s1 = (Inr stop, s2)"
    "enrich_at (ee_dim env) ?ids (touch_all (ee_now env) (take n (map fst ?b)) ?att) w s2"
    using ok_backfill_loop [OF refl b, where att = ?att and w = w and env = env and objects = objects] queues(1)
    unfolding act_ok_def by blast
  obtain stop' s3 where s3: "act_for (fresh_one env objects) ?q stop s2 = (Inr stop', s3)"
    "enrich_at (ee_dim env) ?ids (touch_all (ee_now env) (map fst ?q)
       (touch_all (ee_now env) (take n (map fst ?b)) ?att)) w s3"
    using ok_fresh_loop [OF refl q, where env = env and objects = objects] s2(2)
    unfolding act_ok_def by blast
  have "w \<notin> set (take n (map fst ?b))" using queues(3) by (auto dest!: in_set_takeD)
  then show thesis
    using that [of s3 "take n (map fst ?b)"] s2 s3
    by (simp add: enrich_client_loops [OF obj] act_bind_def act_return_def touch_all_append)
qed

lemma no_capture_zero: "ukg_ok u \<Longrightarrow> 0 \<notin> set (capture_ids u) \<and> unprocessed 0 u"
  by (force simp: ukg_ok_def tbl_ok_def capture_ids_def unprocessed_def tbl_ids_def)

lemma fresh_queue_ids:
  assumes "enrich_inv s" "c \<in> set (fresh_queue env active s)"
  shows "fst c \<in> set (capture_ids (es_ukg s))"
proof -
  have "unprocessed 0 (es_ukg s)" using assms no_capture_zero by (simp add: enrich_inv_def)
  from sync_spaces_ok [OF open_stores_ok [OF assms(1) this, of env], of active]
  have "capture_ids (es_ukg (sync_spaces active (open_stores env s))) = capture_ids (es_ukg s)"
    by (simp add: enrich_at_def)
  then show ?thesis
    using queue_ids(1) assms(2) unfolding fresh_queue_def by metis
qed

lemma enrich_client_total:
  assumes "enrich_inv s" "env_ok env"
  obtains s' bq where "enrich_client env active s = (Inr (), s')" "enrich_inv s'"
    "capture_ids (es_ukg s') = capture_ids (es_ukg s)"
    "uk_attempts (es_ukg s') = touch_all (ee_now env) (bq @ map fst (fresh_queue env active s)) (uk_attempts (es_ukg s))"
proof -
  have z: "0 \<notin> set (capture_ids (es_ukg s))" "unprocessed 0 (es_ukg s)"
    using assms(1) no_capture_zero by (simp_all add: enrich_inv_def)
  then have "\<forall>c \<in> set (fresh_queue env active s). fst c \<noteq> 0"
    using fresh_queue_ids [OF assms(1)] by metis
  then obtain s' bq where "enrich_client env active s = (Inr (), s')"
    "enrich_at (ee_dim env) (capture_ids (es_ukg s))
       (touch_all (ee_now env) (bq @ map fst (fresh_queue env active s)) (uk_attempts (es_ukg s))) 0 s'"
    by (rule enrich_client_run [OF assms z(2)])
  then show thesis using that by (simp add: enrich_at_def)
qed

interpretation enricher: state_machine enrich_inv
  "\<lambda>s s'. \<exists>env active. env_ok env \<and> s' = snd (enrich_client env active s)" enrich_inv
proof
  fix s s'
  assume "enrich_inv s" "\<exists>env active. env_ok env \<and> s' = snd (enrich_client env active s)"
  then show "enrich_inv s'" by (metis enrich_client_total snd_conv)
qed

section \<open>Properties\<close>


definition example_env :: enrich_env where
  "example_env =
     \<lparr>ee_client = ''c'', ee_base = [''d''], ee_aead = example_aead, ee_object_key = [],
      ee_fs = \<lparr>fs_files = Map.empty, fs_fault = (\<lambda>_. False)\<rparr>, ee_dim = 2, ee_now = 5,
      ee_clock = (\<lambda>_. 5), ee_record_clock = (\<lambda>_. 6),
      ee_embed_text = (\<lambda>_ _. EmbedRetry), ee_embed_image = (\<lambda>_ _. EmbedRetry),
      ee_topics = (\<lambda>_ _. [])\<rparr>"

definition example_state :: enrich_state where
  "example_state =
     \<lparr>es_ukg = example_ukg, es_text = semantic_new, es_image = semantic_new, es_stats = stats_zero\<rparr>"

lemma example_inv: "enrich_inv example_state" "env_ok example_env"
  using example_ukg_ok example_attempts
  by (simp_all add: enrich_inv_def example_state_def image_states_ok_def env_ok_def example_env_def)




end
