(* ===== verification/Local_Embedding.thy ===== *)
theory Local_Embedding
  imports Enricher_Safety
begin

text \<open>
  The in-process embedder (\<open>embed.rs\<close>) together with the stores it feeds (\<open>semantic.rs\<close>) and the
  enrichment pass (\<open>enrich.rs\<close>): the shape of its vectors, and what becomes of a deployment whose
  stores have another dimension.
\<close>

text \<open>The environment of a pass whose embedder is the local one.\<close>

definition local_env :: "(bytes \<Rightarrow> bytes) \<Rightarrow> enrich_env \<Rightarrow> bool" where
  "local_env sha256 env \<longleftrightarrow>
     (\<forall>c t. ee_embed_text env c t = embed_text (LocalEmbedder sha256) t)
     \<and> (\<forall>c j. ee_embed_image env c j = embed_image (LocalEmbedder sha256) j)
     \<and> (\<forall>c t. ee_topics env c t = topics (LocalEmbedder sha256) t)"

definition no_vectors :: "enrich_state \<Rightarrow> bool" where
  "no_vectors s \<longleftrightarrow> si_items (es_text s) = [] \<and> si_items (es_image s) = []"

section \<open>A pass that stores nothing\<close>

named_theorems stores_nothing \<open>actions that add no vector\<close>

abbreviation keeps_none :: "'a enrich \<Rightarrow> bool" where
  "keeps_none m \<equiv> act_keeps no_vectors (\<lambda>_. True) m"

lemma none_upd_ukg [stores_nothing]: "keeps_none (upd_ukg f)"
  unfolding upd_ukg_def by (rule act_keeps_update) (simp add: no_vectors_def)

lemma none_try_ukg [stores_nothing]: "keeps_none (try_ukg f)"
  by (auto simp: act_keeps_def try_ukg_def no_vectors_def split: prod.splits sum.splits)

lemma none_bump [stores_nothing]: "keeps_none (bump f)"
  unfolding bump_def by (rule act_keeps_update) (simp add: no_vectors_def)

lemma none_sem_has [stores_nothing]: "keeps_none (sem_has idx wc)"
  by (simp add: act_keeps_def sem_has_def split: sum.splits)

lemma none_set_state [stores_nothing]: "keeps_none (set_state wc st a e now)"
  unfolding set_state_def by (rule none_try_ukg)

lemma none_touch [stores_nothing]: "keeps_none (touch env wc)"
  unfolding touch_def by (rule none_try_ukg)

lemma none_attach_topics [stores_nothing]: "keeps_none (attach_topics wc labels)"
  unfolding attach_topics_def by (rule act_keeps_for) (auto intro: none_try_ukg split: prod.splits)

lemma none_settle [stores_nothing]:
  "keeps_none (settle_skipped wc a note now)" "keeps_none (settle_pending wc a note now)"
  "keeps_none (confirm_done wc prior now)" "keeps_none (no_token_leg env wc)"
  unfolding settle_skipped_def settle_pending_def confirm_done_def no_token_leg_def
  by (auto intro!: stores_nothing keeps_intros)

lemma none_image_source [stores_nothing]: "keeps_none (image_source env objects wc ts token a now)"
  unfolding image_source_def Let_def
  by (auto intro!: stores_nothing keeps_intros split: option.splits sum.splits object_error.splits)

lemma none_image_step [stores_nothing]: "keeps_none (image_step env objects wc ts token)"
  unfolding image_step_def by (auto intro!: stores_nothing keeps_intros)

lemma none_image_record:
  assumes "\<not> usable e (ee_dim env)"
  shows "keeps_none (image_record env wc a (EmbedOk e space))"
  using assms by (auto simp: image_record_def Let_def intro!: stores_nothing keeps_intros)

lemma none_text_record:
  assumes "\<not> usable e (ee_dim env)"
  shows "keeps_none (text_record env wc (EmbedOk e space))"
  using assms by (auto simp: text_record_def intro!: stores_nothing keeps_intros)

lemma none_image_leg:
  assumes "local_env sha256 env" "ee_dim env \<noteq> EMBED_DIM"
  shows "keeps_none (image_attempt env objects wc ts token)"
proof -
  have "keeps_none (image_record env wc a (ee_embed_image env wc jpeg))" for a jpeg
    using assms by (auto simp: local_env_def usable_def intro!: none_image_record)
  then show ?thesis
    unfolding image_attempt_def
    by (auto intro!: stores_nothing keeps_intros split: image_step.splits)
qed

lemma none_text_leg:
  assumes "local_env sha256 env" "ee_dim env \<noteq> EMBED_DIM"
  shows "keeps_none (text_leg env wc)"
proof -
  have "keeps_none (text_record env wc (ee_embed_text env wc t))" for t
    using assms by (auto simp: local_env_def usable_def intro!: none_text_record)
  then show ?thesis
    unfolding text_leg_def by (auto intro!: stores_nothing keeps_intros)
qed

lemma none_fresh_one:
  assumes "local_env sha256 env" "ee_dim env \<noteq> EMBED_DIM"
  shows "keeps_none (fresh_one env objects cap stop)"
  unfolding fresh_one_def
  by (auto intro!: stores_nothing keeps_intros none_text_leg [OF assms] none_image_leg [OF assms]
      split: prod.splits option.splits)

lemma none_backfill_loop:
  assumes "local_env sha256 env" "ee_dim env \<noteq> EMBED_DIM"
  shows "keeps_none (backfill_loop env objects caps)"
proof (induction caps)
  case Nil
  then show ?case by (simp add: act_keeps_return)
next
  case (Cons cap caps)
  then show ?case
    by (cases cap) (auto intro!: stores_nothing keeps_intros none_image_leg [OF assms])
qed

lemma none_sync: "no_vectors s \<Longrightarrow> no_vectors (sync_spaces active s)"
  by (auto simp: no_vectors_def sync_spaces_def sync_text_space_def sync_image_space_def Let_def
      semantic_clear_def split: option.splits prod.splits)

lemma none_open: "no_vectors s \<Longrightarrow> no_vectors (open_stores env s)"
  by (simp add: no_vectors_def open_stores_def semantic_open_def ensure_info_def Let_def)

lemma none_enrich_client:
  assumes "local_env sha256 env" "ee_dim env \<noteq> EMBED_DIM" "no_vectors s"
  shows "no_vectors (snd (enrich_client env active s))"
proof -
  have "keeps_none (act_bind (backfill_loop env objects b) (\<lambda>stop.
          act_bind (act_for (fresh_one env objects) f stop) (\<lambda>_. act_return ())))" for objects b f
    by (auto intro!: keeps_intros none_backfill_loop [OF assms(1,2)] none_fresh_one [OF assms(1,2)])
  moreover have "no_vectors (sync_spaces active (open_stores env s))"
    by (rule none_sync) (rule none_open [OF assms(3)])
  ultimately show ?thesis
    using none_open [OF assms(3)]
    by (auto simp: enrich_client_def act_keeps_def Let_def split: sum.splits)
qed

section \<open>The shape of the local vectors\<close>

text \<open>C35. The local embedder's answers are typed for the default stores and for no other: for every
  input it answers a vector of 384 numbers labelled with the space it reports as its own, which a
  store accepts, for insertion and as a query, exactly when it was opened with that dimension; and
  a deployment that configures another dimension indexes nothing: from empty vector stores every
  pass leaves them empty, whatever the client captured.\<close>

theorem local_embeddings_fit_default_stores:
  "\<exists>e f. embed_text (LocalEmbedder sha256) txt = EmbedOk e LOCAL_TEXT_SPACE
     \<and> embed_image (LocalEmbedder sha256) jpeg = EmbedOk f LOCAL_IMAGE_SPACE
     \<and> spaces (LocalEmbedder sha256) = Some (LOCAL_TEXT_SPACE, LOCAL_IMAGE_SPACE)
     \<and> length e = EMBED_DIM \<and> length f = EMBED_DIM
     \<and> (\<forall>v \<in> {e, f}. \<forall>idx c. is_ok (fst (semantic_insert (item_id_for_capture c) None None v idx))
                             = (si_dim idx = EMBED_DIM))
     \<and> (\<forall>v \<in> {e, f}. \<forall>idx k allowed. is_ok (semantic_search v k allowed idx) = (si_dim idx = EMBED_DIM))
     \<and> (local_env sha256 env \<and> ee_dim env \<noteq> EMBED_DIM \<and> no_vectors s \<longrightarrow>
          no_vectors (snd (enrich_client env active s)))"
proof -
  have insert: "is_ok (fst (semantic_insert (item_id_for_capture c) None None v idx)) = (si_dim idx = EMBED_DIM)"
    if "length v = EMBED_DIM" for v idx c
    using that by (auto simp: semantic_insert_def split_beta Let_def)
  have query: "is_ok (semantic_search v k allowed idx) = (si_dim idx = EMBED_DIM)"
    if "length v = EMBED_DIM" for v k allowed idx
    using that by (auto simp: semantic_search_def)
  show ?thesis by (auto simp: insert query intro: none_enrich_client)
qed

definition example_local_env :: enrich_env where
  "example_local_env =
     (let local = LocalEmbedder (\<lambda>m. replicate 32 7)
      in example_env\<lparr>ee_dim := 512, ee_embed_text := (\<lambda>c. embed_text local),
           ee_embed_image := (\<lambda>c. embed_image local), ee_topics := (\<lambda>c. topics local)\<rparr>)"

theorem local_embeddings_fit_default_stores_witness:
  "no_vectors (snd (enrich_client example_local_env None example_state))"
proof -
  have "local_env (\<lambda>m. replicate 32 7) example_local_env \<and> ee_dim example_local_env \<noteq> EMBED_DIM
      \<and> no_vectors example_state"
    by (simp add: local_env_def example_local_env_def no_vectors_def example_state_def semantic_new_def
        EMBED_DIM_def Let_def)
  then show ?thesis
    using local_embeddings_fit_default_stores [of "\<lambda>m. replicate 32 7" "''a''" "[]" example_local_env
        example_state None] by blast
qed

end
