(* ===== verification/Enrich_Rounds.thy ===== *)
theory Enrich_Rounds
  imports Enricher_Safety
begin

text \<open>
  One client's database over many rounds: the broker inserts captures, then a pass of the
  enrichment worker runs. The theory shows that the pass's queue of fresh captures is served
  fairly: it instantiates the interface \<open>fair_rounds\<close>.
\<close>

section \<open>Rounds of ingestion and enrichment\<close>

type_synonym round = "enrich_env \<times> (string \<times> string) option \<times> window_capture_record list"

definition enrich_round :: "round \<Rightarrow> enrich_state \<Rightarrow> enrich_state" where
  "enrich_round rd s =
     (case rd of (env, active, recs) \<Rightarrow>
        snd (enrich_client env active (s\<lparr>es_ukg := insert_all recs (es_ukg s)\<rparr>)))"

definition round_ok :: "round \<Rightarrow> bool" where
  "round_ok rd \<longleftrightarrow> env_ok (fst rd) \<and> 0 < ee_now (fst rd)"

definition attempted :: "enrich_state \<Rightarrow> int \<Rightarrow> bool" where
  "attempted s i \<longleftrightarrow> map_of (uk_attempts (es_ukg s)) i \<noteq> None"

definition live_inv :: "enrich_state \<Rightarrow> bool" where
  "live_inv s \<longleftrightarrow> enrich_inv s \<and> (\<forall>j t. map_of (uk_attempts (es_ukg s)) j = Some t \<longrightarrow> 0 < t)"

text \<open>The captures that come before \<open>i\<close> in the fresh queue, as long as \<open>i\<close> is untried.\<close>

definition ahead_of :: "int \<Rightarrow> enrich_state \<Rightarrow> int set" where
  "ahead_of i s = {j \<in> set (capture_ids (es_ukg s)). j < i \<and> \<not> attempted s j}"

lemma ingest_inv:
  assumes "live_inv s"
  shows "live_inv (s\<lparr>es_ukg := insert_all recs (es_ukg s)\<rparr>)"
  using assms later_insert_all [of "es_ukg s" recs]
  by (simp add: live_inv_def enrich_inv_def later_captures_def)

lemma round_keeps:
  assumes "live_inv s" "round_ok rd"
  shows "live_inv (enrich_round rd s)" "attempted s i \<Longrightarrow> attempted (enrich_round rd s) i"
proof -
  obtain env active recs where rd: "rd = (env, active, recs)" by (cases rd)
  let ?s0 = "s\<lparr>es_ukg := insert_all recs (es_ukg s)\<rparr>"
  have inv0: "live_inv ?s0" by (rule ingest_inv [OF assms(1)])
  have att0: "uk_attempts (es_ukg ?s0) = uk_attempts (es_ukg s)"
    using later_insert_all [of "es_ukg s" recs] assms(1)
    by (simp add: live_inv_def enrich_inv_def later_captures_def)
  have e0: "enrich_inv ?s0" "env_ok env" using inv0 assms(2) by (simp_all add: live_inv_def round_ok_def rd)
  obtain s' bq where s': "enrich_client env active ?s0 = (Inr (), s')" "enrich_inv s'"
    "uk_attempts (es_ukg s') = touch_all (ee_now env) (bq @ map fst (fresh_queue env active ?s0)) (uk_attempts (es_ukg ?s0))"
    by (rule enrich_client_total [OF e0])
  have e: "enrich_round rd s = s'" by (simp add: enrich_round_def rd s'(1))
  show "live_inv (enrich_round rd s)"
    using s' inv0 assms(2) unfolding e by (auto simp: live_inv_def map_of_touch_all round_ok_def rd)
  show "attempted s i \<Longrightarrow> attempted (enrich_round rd s) i"
    using s'(3) att0 unfolding e by (auto simp: attempted_def map_of_touch_all)
qed

text \<open>What ingestion leaves as it was, seen from a capture that was there before.\<close>

lemma ingested:
  assumes "live_inv s" "i \<in> set (capture_ids (es_ukg s))" "unprocessed i (es_ukg s)"
  obtains new where "enrich_inv (s\<lparr>es_ukg := insert_all recs (es_ukg s)\<rparr>)"
    "unprocessed i (insert_all recs (es_ukg s))"
    "uk_attempts (insert_all recs (es_ukg s)) = uk_attempts (es_ukg s)"
    "set (capture_ids (insert_all recs (es_ukg s))) = set (capture_ids (es_ukg s)) \<union> new"
    "\<forall>j \<in> new. i < j"
proof -
  have "later_captures (es_ukg s) (insert_all recs (es_ukg s))"
    using later_insert_all assms(1) by (simp add: live_inv_def enrich_inv_def)
  then obtain rows where
    rows: "tbl_rows (uk_captures (insert_all recs (es_ukg s))) = tbl_rows (uk_captures (es_ukg s)) @ rows"
      "\<forall>p \<in> set rows. \<forall>j \<in> set (capture_ids (es_ukg s)). j < fst p"
    and att: "uk_attempts (insert_all recs (es_ukg s)) = uk_attempts (es_ukg s)"
    by (auto simp: later_captures_def)
  have "set (capture_ids (insert_all recs (es_ukg s))) = set (capture_ids (es_ukg s)) \<union> fst ` set rows"
    using rows(1) by (auto simp: capture_ids_def tbl_ids_def)
  moreover have "unprocessed i (insert_all recs (es_ukg s))"
    using rows assms(2,3) by (fastforce simp: unprocessed_def)
  moreover have "enrich_inv (s\<lparr>es_ukg := insert_all recs (es_ukg s)\<rparr>)"
    using ingest_inv [OF assms(1)] by (simp add: live_inv_def)
  moreover have "\<forall>j \<in> fst ` set rows. i < j" using rows(2) assms(2) by blast
  ultimately show thesis using that att by blast
qed

text \<open>A fresh capture that was never attempted and is not selected is cut off by the limit: the
  queue is full of captures that come before it.\<close>

lemma fresh_queue_full:
  assumes "enrich_inv s" "i \<in> set (capture_ids (es_ukg s))" "unprocessed i (es_ukg s)"
    and "map_of (uk_attempts (es_ukg s)) i = None" "i \<notin> fst ` set (fresh_queue env active s)"
  shows "distinct (map fst (fresh_queue env active s)) \<and> length (fresh_queue env active s) = 64
     \<and> (\<forall>j \<in> fst ` set (fresh_queue env active s). (attempt_time (es_ukg s) j, j) \<le> (0, i))"
proof -
  let ?s1 = "sync_spaces active (open_stores env s)"
  let ?paced = "paced_queue (\<lambda>p. wc_is_processed (snd p) = 0) BATCH (ee_now env - RETRY_BACKOFF_TICKS) (es_ukg ?s1)"
  have at1: "enrich_at (ee_dim env) (capture_ids (es_ukg s)) (uk_attempts (es_ukg s)) i ?s1"
    by (rule sync_spaces_ok [OF open_stores_ok [OF assms(1,3)]])
  then have ok: "tbl_ok (uk_captures (es_ukg ?s1))"
    by (simp add: enrich_at_def enrich_inv_def ukg_ok_captures(1))
  have time: "attempt_time (es_ukg ?s1) = attempt_time (es_ukg s)"
    using at1 by (simp add: enrich_at_def attempt_time_def fun_eq_iff)
  have paced: "\<not> paced_out (es_ukg ?s1) cutoff i" for cutoff
    using at1 assms(4) by (simp add: enrich_at_def paced_out_def)
  obtain r where r: "(i, r) \<in> set (tbl_rows (uk_captures (es_ukg ?s1)))" "wc_is_processed r = 0"
  proof -
    have "i \<in> set (capture_ids (es_ukg ?s1))" using at1 assms(2) by (simp add: enrich_at_def)
    then obtain r where "(i, r) \<in> set (tbl_rows (uk_captures (es_ukg ?s1)))"
      by (auto simp: capture_ids_def tbl_ids_def)
    moreover then have "wc_is_processed r = 0"
      using at1 by (fastforce simp: enrich_at_def unprocessed_def)
    ultimately show thesis using that by blast
  qed
  have ids: "map fst (fresh_queue env active s) = map fst ?paced"
    by (auto simp: fresh_queue_def captures_pending_enrichment_def)
  then have sets: "fst ` set (fresh_queue env active s) = fst ` set ?paced"
    and len: "length (fresh_queue env active s) = length ?paced"
    by (metis set_map, metis length_map)
  have "(i, r) \<notin> set ?paced" using assms(5) sets by force
  moreover have "(0 :: int) \<le> BATCH" by (simp add: BATCH_def)
  ultimately have cut: "length ?paced = nat BATCH"
    "\<forall>q \<in> set ?paced. (attempt_time (es_ukg s) (fst q), fst q) \<le> (attempt_time (es_ukg s) i, i)"
    using paced_queue_cut [of BATCH "(i, r)" "es_ukg ?s1" "\<lambda>p. wc_is_processed (snd p) = 0"] r paced time
    by simp_all
  have "attempt_time (es_ukg s) i = 0" using assms(4) by (simp add: attempt_time_def)
  then show ?thesis
    using cut distinct_paced_queue [OF ok] unfolding ids sets len by (simp add: BATCH_def)
qed

lemma fresh_queue_before:
  assumes "live_inv s" "i \<in> set (capture_ids (es_ukg s))" "unprocessed i (es_ukg s)"
    and "\<not> attempted s i" "i \<notin> fst ` set (fresh_queue env active s)"
  shows "fst ` set (fresh_queue env active s) \<subseteq> ahead_of i s"
proof
  fix j assume j: "j \<in> fst ` set (fresh_queue env active s)"
  have inv: "enrich_inv s" using assms(1) by (simp add: live_inv_def)
  have "map_of (uk_attempts (es_ukg s)) i = None" using assms(4) by (simp add: attempted_def)
  then have before: "(attempt_time (es_ukg s) j, j) \<le> (0, i)"
    using fresh_queue_full [OF inv assms(2,3) _ assms(5)] j by blast
  have untried: "\<not> attempted s j"
  proof
    assume "attempted s j"
    then obtain t where t: "map_of (uk_attempts (es_ukg s)) j = Some t" by (auto simp: attempted_def)
    then have "0 < t" using assms(1) by (simp add: live_inv_def)
    then show False using before t by (simp add: attempt_time_def)
  qed
  then have "j \<le> i" using before by (simp add: attempt_time_def attempted_def)
  moreover have "j \<noteq> i" using j assms(5) by blast
  ultimately show "j \<in> ahead_of i s"
    using untried j fresh_queue_ids [OF inv] by (auto simp: ahead_of_def)
qed

definition waiting :: "int \<Rightarrow> enrich_state \<Rightarrow> bool" where
  "waiting i s \<longleftrightarrow> i \<in> set (capture_ids (es_ukg s)) \<and> unprocessed i (es_ukg s) \<and> \<not> attempted s i"

lemma enrich_round_not_selected:
  assumes "live_inv s" "round_ok (env, active, recs)" "waiting i s"
    and notq: "i \<notin> fst ` set (fresh_queue env active (s\<lparr>es_ukg := insert_all recs (es_ukg s)\<rparr>))"
  shows "waiting i (enrich_round (env, active, recs) s)
     \<and> (\<exists>q \<subseteq> ahead_of i s. card q = 64 \<and> ahead_of i (enrich_round (env, active, recs) s) \<subseteq> ahead_of i s - q)"
proof -
  let ?rd = "(env, active, recs)"
  let ?s0 = "s\<lparr>es_ukg := insert_all recs (es_ukg s)\<rparr>"
  let ?q = "fst ` set (fresh_queue env active ?s0)"
  have env: "env_ok env" using assms(2) by (simp add: round_ok_def)
  have i: "i \<in> set (capture_ids (es_ukg s))" "unprocessed i (es_ukg s)" "\<not> attempted s i"
    using assms(3) by (simp_all add: waiting_def)
  obtain new where inv0: "enrich_inv ?s0" and un0: "unprocessed i (es_ukg ?s0)"
    and att0: "uk_attempts (es_ukg ?s0) = uk_attempts (es_ukg s)"
    and ids0: "set (capture_ids (es_ukg ?s0)) = set (capture_ids (es_ukg s)) \<union> new"
    and new: "\<forall>j \<in> new. i < j"
    by (rule ingested [OF assms(1) i(1,2), of recs]) simp
  have ahead0: "ahead_of i ?s0 = ahead_of i s"
    using new att0 ids0 by (auto simp: ahead_of_def attempted_def)
  have live0: "live_inv ?s0" by (rule ingest_inv [OF assms(1)])
  have i0: "i \<in> set (capture_ids (es_ukg ?s0))" "\<not> attempted ?s0 i"
    using i(1,3) ids0 att0 by (simp_all add: attempted_def)
  have q: "?q \<subseteq> ahead_of i s" using fresh_queue_before [OF live0 i0(1) un0 i0(2) notq] ahead0 by simp
  have "distinct (map fst (fresh_queue env active ?s0))" "length (fresh_queue env active ?s0) = 64"
    using fresh_queue_full [OF inv0 i0(1) un0 _ notq] i0(2) by (simp_all add: attempted_def)
  then have "card ?q = 64" by (metis distinct_card length_map set_map)
  moreover have "\<forall>c \<in> set (fresh_queue env active ?s0). fst c \<noteq> i" using notq by force
  then obtain s' bq where s': "enrich_client env active ?s0 = (Inr (), s')"
    "enrich_at (ee_dim env) (capture_ids (es_ukg ?s0))
       (touch_all (ee_now env) (bq @ map fst (fresh_queue env active ?s0)) (uk_attempts (es_ukg ?s0))) i s'"
    "i \<notin> set bq"
    by (rule enrich_client_run [OF inv0 env un0])
  moreover have e: "enrich_round ?rd s = s'" by (simp add: enrich_round_def s'(1))
  moreover have "\<not> attempted s' i"
    using s'(2,3) i0(2) notq by (auto simp: attempted_def enrich_at_def map_of_touch_all)
  moreover have "ahead_of i s' \<subseteq> ahead_of i s - ?q"
    unfolding ahead0 [symmetric] using s'(2)
    by (auto simp: ahead_of_def attempted_def enrich_at_def map_of_touch_all split: if_splits)
  ultimately show ?thesis
    using q s'(2) i0(1) by (auto simp: waiting_def enrich_at_def)
qed

lemma enrich_round_passes_over:
  assumes "live_inv s" "round_ok rd" "waiting i s" "\<not> attempted (enrich_round rd s) i"
  shows "waiting i (enrich_round rd s)
     \<and> (\<exists>q \<subseteq> ahead_of i s. card q = 64 \<and> ahead_of i (enrich_round rd s) \<subseteq> ahead_of i s - q)"
proof -
  obtain env active recs where rd: "rd = (env, active, recs)" by (cases rd)
  let ?s0 = "s\<lparr>es_ukg := insert_all recs (es_ukg s)\<rparr>"
  have "enrich_inv ?s0" "env_ok env"
    using ingest_inv [OF assms(1)] assms(2) by (simp_all add: live_inv_def round_ok_def rd)
  then obtain s' bq where "enrich_client env active ?s0 = (Inr (), s')"
    "uk_attempts (es_ukg s') = touch_all (ee_now env) (bq @ map fst (fresh_queue env active ?s0)) (uk_attempts (es_ukg ?s0))"
    by (rule enrich_client_total)
  then have "attempted (enrich_round rd s) i" if "i \<in> fst ` set (fresh_queue env active ?s0)"
    using that by (simp add: attempted_def map_of_touch_all enrich_round_def rd)
  then have "i \<notin> fst ` set (fresh_queue env active ?s0)" using assms(4) by blast
  then show ?thesis
    using enrich_round_not_selected [OF assms(1) assms(2) [unfolded rd] assms(3)] unfolding rd by simp
qed

interpretation enrichment: fair_rounds live_inv round_ok enrich_round waiting "\<lambda>i s. attempted s i" ahead_of 64
proof
  show "finite (ahead_of i s)" for i s by (simp add: ahead_of_def)
qed (simp_all add: round_keeps enrich_round_passes_over)

end
