(* ===== verification/Enrich_Complete.thy ===== *)
theory Enrich_Complete
  imports Enrich_Rounds
begin

text \<open>
  What enrichment achieves when the AI service answers and the screenshots can be read: the fresh
  captures a pass selects leave it with their vectors in the stores. The theory follows the facts
  that a pass does not undo (labels, vectors, finished captures) through the actions of
  \<open>Enricher\<close>, beside the invariant of \<open>Enricher_Safety\<close>.
\<close>

section \<open>Facts a pass does not undo\<close>

definition processed :: "int \<Rightarrow> ukg \<Rightarrow> bool" where
  "processed i u \<longleftrightarrow> (\<exists>(j, r) \<in> set (tbl_rows (uk_captures u)). j = i \<and> wc_is_processed r = 1)"

definition refused :: "int \<Rightarrow> ukg \<Rightarrow> bool" where
  "refused i u \<longleftrightarrow> prior_state (image_embedding_state i u) = Some ''skipped''"

text \<open>The contents of a capture: its row but for the flag, and its regions.\<close>

definition contents :: "ukg \<Rightarrow> capture_row list \<times> (int \<times> int \<times> screen_region_record) list" where
  "contents u = (map (\<lambda>(i, r). (i, r\<lparr>wc_is_processed := 0\<rparr>)) (tbl_rows (uk_captures u)), tbl_rows (uk_regions u))"

text \<open>With the embedder's spaces \<open>st\<close> and \<open>si\<close>: the stores are labelled with them, text embedding is
  not marked unavailable, the contents are \<open>K\<close>, no image of \<open>N\<close> is refused, \<open>T\<close> and \<open>I\<close> have
  vectors and \<open>C\<close> are processed.\<close>

definition pass_facts ::
  "string \<Rightarrow> string \<Rightarrow> capture_row list \<times> (int \<times> int \<times> screen_region_record) list \<Rightarrow> int set
     \<Rightarrow> bytes set \<Rightarrow> bytes set \<Rightarrow> int set \<Rightarrow> enrich_state \<Rightarrow> bool" where
  "pass_facts st si K N T I C s \<longleftrightarrow>
     space_id (es_text s) = Some st \<and> space_id (es_image s) = Some si
     \<and> \<not> flag_set (es_ukg s) TEXT_UNAVAILABLE \<and> contents (es_ukg s) = K
     \<and> (\<forall>i \<in> N. \<not> refused i (es_ukg s))
     \<and> T \<subseteq> set (si_items (es_text s)) \<and> I \<subseteq> set (si_items (es_image s))
     \<and> (\<forall>i \<in> C. processed i (es_ukg s))"

definition gentle :: "int set \<Rightarrow> (ukg \<Rightarrow> ukg) \<Rightarrow> bool" where
  "gentle N f \<longleftrightarrow>
     (\<forall>u. uk_config (f u) = uk_config u \<and> contents (f u) = contents u
        \<and> (\<forall>i. processed i u \<longrightarrow> processed i (f u))
        \<and> (\<forall>i \<in> N. \<not> refused i u \<longrightarrow> \<not> refused i (f u)))"

abbreviation keeps_facts ::
  "string \<Rightarrow> string \<Rightarrow> capture_row list \<times> (int \<times> int \<times> screen_region_record) list \<Rightarrow> int set
     \<Rightarrow> bytes set \<Rightarrow> bytes set \<Rightarrow> int set \<Rightarrow> 'a enrich \<Rightarrow> bool" where
  "keeps_facts st si K N T I C m \<equiv> act_keeps (pass_facts st si K N T I C) (\<lambda>_. True) m"

lemma flag_set_cong: "uk_config u = uk_config u' \<Longrightarrow> flag_set u k = flag_set u' k"
  by (simp add: flag_set_def get_config_def)

lemma gentle_mark: "gentle N (mark_processed wc)"
proof -
  have "contents (mark_processed wc u) = contents u" for u
    by (auto simp: contents_def mark_processed_def tbl_map_def)
  moreover have "processed i (mark_processed wc u)" if "processed i u" for i u
    using that by (force simp: processed_def mark_processed_def tbl_map_def)
  moreover have "refused i (mark_processed wc u) = refused i u" for i u
    by (simp add: refused_def image_embedding_state_def mark_processed_def)
  ultimately show ?thesis by (simp add: gentle_def) (simp add: mark_processed_def)
qed

lemma gentle_topic: "gentle N (\<lambda>u. snd (attach_topic wc label score u))"
  by (auto simp: gentle_def attach_topic_def contents_def processed_def refused_def
      image_embedding_state_def split: sum.splits prod.splits)

lemma gentle_touch: "gentle N (\<lambda>u. snd (touch_enrich_attempt wc now u))"
  by (simp add: gentle_def touch_enrich_attempt_def contents_def processed_def refused_def
      image_embedding_state_def)

lemma gentle_state:
  "wc \<notin> N \<or> st \<noteq> ''skipped'' \<Longrightarrow> gentle N (\<lambda>u. snd (set_image_embedding_state wc st a e now u))"
  by (auto simp: gentle_def set_image_embedding_state_def contents_def processed_def refused_def
      image_embedding_state_def prior_state_def update_conv')

named_theorems facts_kept \<open>actions of a pass that keep its facts\<close>

lemma facts_gentle:
  assumes "gentle N f" "pass_facts st si K N T I C s"
  shows "pass_facts st si K N T I C (s\<lparr>es_ukg := f (es_ukg s)\<rparr>)"
proof -
  have "uk_config (f (es_ukg s)) = uk_config (es_ukg s)" using assms(1) by (simp add: gentle_def)
  then have "flag_set (f (es_ukg s)) TEXT_UNAVAILABLE = flag_set (es_ukg s) TEXT_UNAVAILABLE"
    by (rule flag_set_cong)
  then show ?thesis using assms by (simp add: pass_facts_def gentle_def)
qed

lemma facts_upd_ukg: "gentle N f \<Longrightarrow> keeps_facts st si K N T I C (upd_ukg f)"
  unfolding upd_ukg_def by (rule act_keeps_update) (rule facts_gentle)

lemma facts_try_ukg: "gentle N (\<lambda>u. snd (f u)) \<Longrightarrow> keeps_facts st si K N T I C (try_ukg f)"
  unfolding act_keeps_def try_ukg_def
  using facts_gentle by (fastforce split: prod.splits sum.splits)

lemma facts_bump [facts_kept]: "keeps_facts st si K N T I C (bump f)"
  unfolding bump_def by (rule act_keeps_update) (simp add: pass_facts_def)

lemma facts_sem_has [facts_kept]: "keeps_facts st si K N T I C (sem_has idx wc)"
  by (simp add: act_keeps_def sem_has_def split: sum.splits)

lemma facts_set_state:
  "wc \<notin> N \<or> state \<noteq> ''skipped'' \<Longrightarrow> keeps_facts st si K N T I C (set_state wc state a e now)"
  unfolding set_state_def by (intro facts_try_ukg gentle_state)

lemma facts_touch [facts_kept]: "keeps_facts st si K N T I C (touch env wc)"
  unfolding touch_def by (intro facts_try_ukg gentle_touch)

lemma facts_topics [facts_kept]: "keeps_facts st si K N T I C (attach_topics wc labels)"
  unfolding attach_topics_def by (rule act_keeps_for) (auto intro: facts_try_ukg gentle_topic split: prod.splits)

lemma facts_text_space [facts_kept]: "keeps_facts st si K N T I C (upd_text (set_space_id st))"
  unfolding upd_text_def by (rule act_keeps_update) (simp add: pass_facts_def)

lemma facts_image_space [facts_kept]: "keeps_facts st si K N T I C (upd_image (set_space_id si))"
  unfolding upd_image_def by (rule act_keeps_update) (simp add: pass_facts_def)

lemma insert_items:
  "set (si_items idx) \<subseteq> set (si_items (snd (semantic_insert item reg mj e idx)))
     \<and> space_id (snd (semantic_insert item reg mj e idx)) = space_id idx"
  by (auto simp: semantic_insert_def space_id_def split_beta Let_def rel_insert_or_ignore_def)

lemma snd_text_insert:
  "snd (text_insert wc e s) =
     s\<lparr>es_text := snd (semantic_insert (item_id_for_capture wc) None None e (es_text s))\<rparr>"
  by (simp add: text_insert_def split: prod.splits sum.splits)

lemma snd_image_insert:
  "snd (image_insert wc e s) =
     s\<lparr>es_image := snd (semantic_insert (item_id_for_capture wc) None None e (es_image s))\<rparr>"
  by (simp add: image_insert_def split: prod.splits sum.splits)

lemma facts_text_insert [facts_kept]: "keeps_facts st si K N T I C (text_insert wc e)"
  using insert_items order_trans by (fastforce simp: act_keeps_def snd_text_insert pass_facts_def)

lemma facts_image_insert [facts_kept]: "keeps_facts st si K N T I C (image_insert wc e)"
  using insert_items order_trans by (fastforce simp: act_keeps_def snd_image_insert pass_facts_def)

section \<open>The legs, when the service answers\<close>

text \<open>A service that answers every request, with vectors of the stores' dimension and in the same
  two spaces.\<close>

definition answers :: "string \<Rightarrow> string \<Rightarrow> enrich_env \<Rightarrow> bool" where
  "answers st si env \<longleftrightarrow>
     (\<forall>wc t. \<exists>e. ee_embed_text env wc t = EmbedOk e st \<and> length e = ee_dim env)
     \<and> (\<forall>wc j. \<exists>e. ee_embed_image env wc j = EmbedOk e si \<and> length e = ee_dim env)"

text \<open>Nothing is rebuilt then, since the stores have the spaces of the answers.\<close>

lemma store_text_run:
  assumes "space_id (es_text s) = Some st"
  shows "store_text wc e st s =
     act_bind (upd_text (set_space_id st)) (\<lambda>_. act_bind (text_insert wc e) (\<lambda>_.
     act_bind (bump (\<lambda>t. t\<lparr>st_text_embeddings := st_text_embeddings t + 1\<rparr>)) (\<lambda>_. act_return False))) s"
  using assms by (simp add: store_text_def act_bind_def act_get_def act_return_def space_mismatch_def)

lemma store_image_run:
  assumes "space_id (es_image s) = Some si"
  shows "store_image env wc n e si s =
     act_bind (upd_image (set_space_id si)) (\<lambda>_. act_bind (image_insert wc e) (\<lambda>_.
     act_bind (set_state wc ''done'' (n + 1) None (ee_record_clock env wc)) (\<lambda>_.
     act_bind (bump (\<lambda>t. t\<lparr>st_image_embeddings := st_image_embeddings t + 1\<rparr>)) (\<lambda>_. act_return LegDone)))) s"
  using assms by (simp add: store_image_def act_bind_def act_get_def act_return_def space_mismatch_def)

lemma facts_store_text [facts_kept]: "keeps_facts st si K N T I C (store_text wc e st)"
  by (rule act_keeps_eq [OF store_text_run]) (auto simp: pass_facts_def intro!: keeps_intros facts_kept)

lemma facts_store_image [facts_kept]: "keeps_facts st si K N T I C (store_image env wc n e si)"
  by (rule act_keeps_eq [OF store_image_run])
    (auto simp: pass_facts_def intro!: keeps_intros facts_kept facts_set_state)

lemma facts_settle:
  "wc \<notin> N \<Longrightarrow> keeps_facts st si K N T I C (settle_skipped wc a note now)"
  "keeps_facts st si K N T I C (settle_pending wc a note now)"
  "keeps_facts st si K N T I C (confirm_done wc prior now)"
  "wc \<notin> N \<Longrightarrow> keeps_facts st si K N T I C (no_token_leg env wc)"
  unfolding settle_skipped_def settle_pending_def confirm_done_def no_token_leg_def
  by (auto intro!: keeps_intros facts_kept facts_set_state)

lemma facts_image_step:
  assumes "wc \<notin> N"
  shows "keeps_facts st si K N T I C (image_step env objects wc ts token)"
  unfolding image_step_def image_source_def Let_def using assms
  by (auto intro!: keeps_intros facts_kept facts_settle split: option.splits sum.splits object_error.splits)

lemma facts_image_record:
  assumes "answers st si env"
  shows "keeps_facts st si K N T I C (image_record env wc n (ee_embed_image env wc jpeg))"
proof -
  obtain e where "ee_embed_image env wc jpeg = EmbedOk e si" "length e = ee_dim env"
    using assms unfolding answers_def by blast
  then show ?thesis by (simp add: image_record_def Let_def usable_def facts_store_image)
qed

lemma facts_image_attempt:
  assumes "answers st si env" "wc \<notin> N"
  shows "keeps_facts st si K N T I C (image_attempt env objects wc ts token)"
  unfolding image_attempt_def
  by (auto intro!: keeps_intros facts_image_step [OF assms(2)] facts_image_record [OF assms(1)]
      split: image_step.splits)

lemma facts_text_leg:
  assumes "answers st si env"
  shows "keeps_facts st si K N T I C (text_leg env wc)"
proof -
  have "keeps_facts st si K N T I C (text_record env wc (ee_embed_text env wc t))" for t
  proof -
    obtain e where "ee_embed_text env wc t = EmbedOk e st" "length e = ee_dim env"
      using assms unfolding answers_def by blast
    then show ?thesis by (simp add: text_record_def usable_def facts_store_text)
  qed
  then show ?thesis
    unfolding text_leg_def by (auto intro!: keeps_intros facts_kept)
qed

lemma facts_backfill_loop:
  assumes "answers st si env" "\<forall>c \<in> set q. fst c \<notin> N"
  shows "keeps_facts st si K N T I C (backfill_loop env objects q)"
  using assms(2)
proof (induction q)
  case Nil
  then show ?case by (simp add: act_keeps_return)
next
  case (Cons c q)
  then show ?case
    by (cases c) (auto intro!: keeps_intros facts_kept facts_image_attempt [OF assms(1)])
qed

lemma facts_fresh_one:
  assumes "answers st si env" "fst c \<notin> N"
  shows "keeps_facts st si K N T I C (fresh_one env objects c stop)"
  using assms unfolding fresh_one_def
  by (auto intro!: keeps_intros facts_kept facts_text_leg facts_image_attempt facts_settle
      facts_upd_ukg gentle_mark split: prod.splits option.splits)

lemma facts_fresh_loop:
  assumes "answers st si env" "\<forall>c \<in> set q. fst c \<notin> N"
  shows "keeps_facts st si K N T I C (act_for (fresh_one env objects) q stop)"
  using assms by (auto intro!: act_keeps_for facts_fresh_one)

section \<open>The image queue does not stop\<close>

lemma yields_image_attempt:
  assumes "answers st si env"
  shows "act_yields (\<lambda>leg. leg \<noteq> LegUnavailable) (image_attempt env objects wc ts token)"
  unfolding image_attempt_def
proof (rule act_yields_bind [where R = "\<lambda>x. x \<noteq> Settled LegUnavailable"])
  show "act_yields (\<lambda>x. x \<noteq> Settled LegUnavailable) (image_step env objects wc ts token)"
    unfolding image_step_def image_source_def confirm_done_def settle_skipped_def settle_pending_def Let_def
    by (auto intro!: act_yields_last act_yields_return split: option.splits sum.splits object_error.splits)
next
  fix x assume "x \<noteq> Settled LegUnavailable"
  moreover obtain e where "\<And>j. ee_embed_image env wc j = EmbedOk (e j) si \<and> length (e j) = ee_dim env"
    using assms unfolding answers_def by metis
  ultimately show "act_yields (\<lambda>leg. leg \<noteq> LegUnavailable)
      (case x of Embed jpeg a \<Rightarrow> image_record env wc a (ee_embed_image env wc jpeg) | Settled leg \<Rightarrow> act_return leg)"
    by (auto simp: image_record_def Let_def usable_def store_image_def
        intro!: act_yields_last act_yields_return split: image_step.splits)
qed

lemma yields_backfill_loop:
  assumes "answers st si env"
  shows "act_yields Not (backfill_loop env objects q)"
proof (induction q)
  case Nil
  then show ?case by (simp add: act_yields_return)
next
  case (Cons c q)
  then show ?case
    by (cases c) (auto intro!: act_yields_last act_yields_bind [OF yields_image_attempt [OF assms]])
qed

lemma yields_fresh_one:
  assumes "answers st si env" "\<not> stop"
  shows "act_yields Not (fresh_one env objects c stop)"
proof -
  have leg: "act_yields (\<lambda>leg. leg \<noteq> LegUnavailable)
      (case tok of Some token \<Rightarrow> image_attempt env objects wc ts token | None \<Rightarrow> no_token_leg env wc)" for tok wc ts
    using yields_image_attempt [OF assms(1)]
    by (auto simp: no_token_leg_def intro!: act_yields_last act_yields_return split: option.splits)
  obtain wc ts tok where c: "c = (wc, ts, tok)" by (cases c)
  show ?thesis
    unfolding fresh_one_def c prod.case
    by (rule act_yields_last, rule act_yields_last, rule act_yields_bind [where R = "\<lambda>leg. leg \<noteq> LegUnavailable"])
      (use assms(2) leg in \<open>auto intro: act_yields_last act_yields_return\<close>)
qed

lemma yields_fresh_loop:
  assumes "answers st si env"
  shows "act_yields Not (act_for (fresh_one env objects) q False)"
  by (rule act_yields_for) (auto intro: yields_fresh_one [OF assms])

section \<open>A capture that is selected\<close>

lemma act_bind_get: "act_bind (act_get f) g s = g (f s) s"
  by (simp add: act_bind_def act_get_def)

abbreviation pass_at ::
  "nat \<Rightarrow> int list \<Rightarrow> (int \<times> int) list \<Rightarrow> string \<Rightarrow> string
     \<Rightarrow> capture_row list \<times> (int \<times> int \<times> screen_region_record) list \<Rightarrow> int set
     \<Rightarrow> bytes set \<Rightarrow> bytes set \<Rightarrow> int set \<Rightarrow> enrich_state \<Rightarrow> bool" where
  "pass_at d ids att st si K N T I C s \<equiv> enrich_at d ids att 0 s \<and> pass_facts st si K N T I C s"

lemma text_insert_item:
  "text_insert wc e s = (Inr a, s') \<Longrightarrow> item_id_for_capture wc \<in> set (si_items (es_text s'))"
  by (auto simp: text_insert_def rel_insert_or_ignore_def split: prod.splits sum.splits dest!: insert_Inr)

lemma image_insert_item:
  "image_insert wc e s = (Inr a, s') \<Longrightarrow> item_id_for_capture wc \<in> set (si_items (es_image s'))"
  by (auto simp: image_insert_def rel_insert_or_ignore_def split: prod.splits sum.splits dest!: insert_Inr)

lemma facts_insert:
  "pass_facts st si K N T I C s \<Longrightarrow> item_id_for_capture wc \<in> set (si_items (es_text s)) \<Longrightarrow>
     pass_facts st si K N (insert (item_id_for_capture wc) T) I C s"
  "pass_facts st si K N T I C s \<Longrightarrow> item_id_for_capture wc \<in> set (si_items (es_image s)) \<Longrightarrow>
     pass_facts st si K N T (insert (item_id_for_capture wc) I) C s"
  by (simp_all add: pass_facts_def)

lemma text_insert_done:
  assumes "length e = d"
  shows "act_ok (pass_at d ids att st si K N T I C) (text_insert wc e)
     (\<lambda>_. pass_at d ids att st si K N (insert (item_id_for_capture wc) T) I C)"
proof -
  have "act_ok (pass_at d ids att st si K N T I C) (text_insert wc e) (\<lambda>_. pass_at d ids att st si K N T I C)"
    by (rule act_ok_keeps [OF ok_text_insert [OF assms] facts_text_insert])
  then show ?thesis
    using facts_insert(1) text_insert_item unfolding act_ok_def by blast
qed

lemma image_insert_done:
  assumes "length e = d"
  shows "act_ok (pass_at d ids att st si K N T I C) (image_insert wc e)
     (\<lambda>_. pass_at d ids att st si K N T (insert (item_id_for_capture wc) I) C)"
proof -
  have "act_ok (pass_at d ids att st si K N T I C) (image_insert wc e)
      (\<lambda>_ s. (enrich_at d ids att 0 s \<and> item_id_for_capture wc \<in> set (si_items (es_image s)))
        \<and> pass_facts st si K N T I C s)"
    by (rule act_ok_keeps [OF ok_image_insert [OF assms] facts_image_insert])
  then show ?thesis
    using facts_insert(2) unfolding act_ok_def by blast
qed

lemma done_bump_return:
  "act_ok (pass_at d ids att st si K N T I C) (act_bind (bump f) (\<lambda>_. act_return x))
     (\<lambda>a s. pass_at d ids att st si K N T I C s \<and> a = x)"
  by (rule act_ok_bind [OF act_ok_keeps [OF ok_bump facts_bump]]) (simp add: act_ok_return)

lemma store_text_done:
  assumes "length e = d"
  shows "act_ok (pass_at d ids att st si K N T I C) (store_text wc e st)
     (\<lambda>retry s. pass_at d ids att st si K N (insert (item_id_for_capture wc) T) I C s \<and> \<not> retry)"
proof -
  have "act_ok (pass_at d ids att st si K N T I C)
     (act_bind (upd_text (set_space_id st)) (\<lambda>_. act_bind (text_insert wc e) (\<lambda>_.
        act_bind (bump (\<lambda>t. t\<lparr>st_text_embeddings := st_text_embeddings t + 1\<rparr>)) (\<lambda>_. act_return False))))
     (\<lambda>retry s. pass_at d ids att st si K N (insert (item_id_for_capture wc) T) I C s \<and> \<not> retry)"
    by (rule act_ok_bind [OF act_ok_keeps [OF ok_upd_text facts_text_space]], simp add: si_ok_set_space,
        rule act_ok_bind [OF text_insert_done [OF assms]], rule act_ok_weaken [OF done_bump_return], simp_all)
  then show ?thesis
    by (rule act_ok_eq [OF store_text_run, rotated]) (simp add: pass_facts_def)
qed

lemma store_image_done:
  assumes "wc \<in> set ids" "length e = d"
  shows "act_ok (pass_at d ids att st si K N T I C) (store_image env wc n e si)
     (\<lambda>leg s. pass_at d ids att st si K N T (insert (item_id_for_capture wc) I) C s \<and> leg = LegDone)"
proof -
  let ?J = "pass_at d ids att st si K N T"
  have row: "act_ok (?J (insert (item_id_for_capture wc) I) C)
      (set_state wc ''done'' (n + 1) None (ee_record_clock env wc)) (\<lambda>_. ?J (insert (item_id_for_capture wc) I) C)"
    by (rule act_ok_pre [OF act_ok_keeps [OF ok_set_state [OF assms(1)] facts_set_state]])
      (auto simp: pass_facts_def)
  have "act_ok (?J I C)
     (act_bind (upd_image (set_space_id si)) (\<lambda>_. act_bind (image_insert wc e) (\<lambda>_.
        act_bind (set_state wc ''done'' (n + 1) None (ee_record_clock env wc)) (\<lambda>_.
        act_bind (bump (\<lambda>t. t\<lparr>st_image_embeddings := st_image_embeddings t + 1\<rparr>)) (\<lambda>_. act_return LegDone)))))
     (\<lambda>leg s. ?J (insert (item_id_for_capture wc) I) C s \<and> leg = LegDone)"
    by (rule act_ok_bind [OF act_ok_keeps [OF ok_image_space facts_image_space]],
        rule act_ok_bind [OF image_insert_done [OF assms(2)]], rule act_ok_bind [OF row], rule done_bump_return)
  then show ?thesis
    by (rule act_ok_eq [OF store_image_run, rotated]) (simp add: pass_facts_def)
qed

text \<open>The text of a capture is known from the contents.\<close>

definition text_is :: "capture_row list \<times> (int \<times> int \<times> screen_region_record) list \<Rightarrow> int \<Rightarrow> string \<Rightarrow> bool" where
  "text_is K wc ocr \<longleftrightarrow> (\<forall>u. contents u = K \<longrightarrow> ocr_text wc u = ocr)"

lemma text_leg_done:
  assumes "answers st si env" "ee_dim env = d" "wc \<in> set ids" "text_is K wc ocr"
  shows "act_ok (pass_at d ids att st si K N T I C) (text_leg env wc)
     (\<lambda>retry s. pass_at d ids att st si K N (if ocr = [] then T else insert (item_id_for_capture wc) T) I C s
        \<and> \<not> retry)"
proof -
  let ?J = "\<lambda>T. pass_at d ids att st si K N T I C" and ?T = "insert (item_id_for_capture wc) T"
  obtain e where e: "ee_embed_text env wc ocr = EmbedOk e st" "length e = d"
    using assms(1,2) unfolding answers_def by blast
  have has: "act_ok (?J T) (sem_has es_text wc)
      (\<lambda>b s. ?J T s \<and> (b \<longrightarrow> item_id_for_capture wc \<in> set (si_items (es_text s))))"
    by (auto simp: act_ok_def sem_has_def enrich_at_def enrich_inv_def has_item_iff)
  have embed: "act_ok (?J T) (act_bind (text_record env wc (ee_embed_text env wc ocr)) (\<lambda>retry.
        if retry then act_return True
        else act_bind (attach_topics wc (ee_topics env wc ocr)) (\<lambda>_. act_return False)))
      (\<lambda>retry s. ?J ?T s \<and> \<not> retry)"
    using e assms(2)
    by (simp add: text_record_def usable_def)
      (rule act_ok_bind [OF store_text_done [OF e(2)]], rule act_ok_fact,
        auto intro!: act_ok_bind [OF act_ok_keeps [OF ok_attach_topics [OF assms(3)] facts_topics]] act_ok_return)
  have "act_ok (?J T)
      (if ocr = [] then act_return False
       else act_bind (sem_has es_text wc) (\<lambda>present. if present then act_return False
         else act_bind (text_record env wc (ee_embed_text env wc ocr)) (\<lambda>retry.
           if retry then act_return True
           else act_bind (attach_topics wc (ee_topics env wc ocr)) (\<lambda>_. act_return False))))
      (\<lambda>retry s. ?J (if ocr = [] then T else ?T) s \<and> \<not> retry)"
    by (auto intro!: act_ok_return act_ok_bind [OF has] facts_insert(1) act_ok_weaken [OF embed])
  then show ?thesis
  proof (rule act_ok_eq [rotated])
    fix s assume "?J T s"
    then have "ocr_text wc (es_ukg s) = ocr" using assms(4) by (simp add: text_is_def pass_facts_def)
    then show "text_leg env wc s = (if ocr = [] then act_return False
       else act_bind (sem_has es_text wc) (\<lambda>present. if present then act_return False
         else act_bind (text_record env wc (ee_embed_text env wc ocr)) (\<lambda>retry.
           if retry then act_return True
           else act_bind (attach_topics wc (ee_topics env wc ocr)) (\<lambda>_. act_return False)))) s"
      by (simp only: text_leg_def act_bind_get)
  qed
qed

end
