(* ===== verification/Enrich_Served.thy ===== *)
theory Enrich_Served
  imports Enrich_Complete
begin

text \<open>
  One capture through one pass, when the AI service answers and its screenshot can be read: the
  legs of the capture, the queues around it, and \<open>enrich_client\<close> as a whole. The theory builds on
  the facts of \<open>Enrich_Complete\<close>.
\<close>

section \<open>The image leg of a readable screenshot\<close>

definition screenshot :: "enrich_env \<Rightarrow> object_store \<Rightarrow> int \<Rightarrow> string \<Rightarrow> bytes option" where
  "screenshot env objects t token =
     (let rel = key_path (ee_client env) (ymd_from_filetime t) token ''jpg''
      in if obj_exists objects rel (ee_fs env)
         then (case obj_get objects (ee_client env) rel token (ee_fs env) of Inr jpeg \<Rightarrow> Some jpeg | Inl _ \<Rightarrow> None)
         else None)"

lemma source_of_screenshot:
  "screenshot env objects t token = Some jpeg \<Longrightarrow>
     image_source env objects wc (Some t) token n now = act_return (Embed jpeg n)"
  by (simp add: screenshot_def image_source_def Let_def split: if_splits sum.splits)

lemma confirm_done_done:
  assumes "wc \<in> set ids"
  shows "act_ok (\<lambda>s. pass_at d ids att st si K N T I C s \<and> item_id_for_capture wc \<in> set (si_items (es_image s)))
     (confirm_done wc prior now)
     (\<lambda>x s. pass_at d ids att st si K N T (insert (item_id_for_capture wc) I) C s \<and> x = Settled LegDone)"
proof -
  let ?I = "insert (item_id_for_capture wc) I"
  have "act_ok (\<lambda>s. (enrich_at d ids att 0 s \<and> item_id_for_capture wc \<in> set (si_items (es_image s)))
        \<and> pass_facts st si K N T ?I C s) (confirm_done wc prior now)
      (\<lambda>_ s. enrich_at d ids att 0 s \<and> pass_facts st si K N T ?I C s)"
    by (rule act_ok_keeps [OF ok_confirm_done [OF assms] facts_settle(3)])
  moreover have "act_yields (\<lambda>x. x = Settled LegDone) (confirm_done wc prior now)"
    unfolding confirm_done_def by (intro act_yields_last act_yields_return) simp
  ultimately show ?thesis
    by (rule act_ok_weaken [OF act_ok_yields]) (auto simp: facts_insert)
qed

lemma image_step_done:
  assumes "wc \<in> set ids" "wc \<in> N" "screenshot env objects t token = Some jpeg"
  shows "act_ok (pass_at d ids att st si K N T I C) (image_step env objects wc (Some t) token)
     (\<lambda>x s. pass_at d ids att st si K N T (insert (item_id_for_capture wc) I) C s \<and> x = Settled LegDone
        \<or> (\<exists>n. x = Embed jpeg n \<and> pass_at d ids att st si K N T I C s))"
  unfolding image_step_def
proof (rule act_ok_bind)
  let ?J = "pass_at d ids att st si K N T I C"
  let ?R = "\<lambda>b s. ?J s \<and> (b \<longrightarrow> item_id_for_capture wc \<in> set (si_items (es_image s)))"
  show "act_ok ?J (sem_has es_image wc) ?R"
    by (rule act_ok_weaken [OF act_ok_keeps [OF ok_sem_has_image facts_sem_has]]) auto
  fix present
  show "act_ok (?R present) (act_bind (act_get (\<lambda>s. image_embedding_state wc (es_ukg s))) (\<lambda>prior.
       if present then confirm_done wc prior (ee_clock env wc)
       else if prior_state prior = Some ''skipped'' then
         act_bind (bump (\<lambda>t. t\<lparr>st_images_skipped := st_images_skipped t + 1\<rparr>)) (\<lambda>_.
         act_return (Settled LegTerminal))
       else image_source env objects wc (Some t) token (prior_attempts prior) (ee_clock env wc)))
     (\<lambda>x s. pass_at d ids att st si K N T (insert (item_id_for_capture wc) I) C s \<and> x = Settled LegDone
        \<or> (\<exists>n. x = Embed jpeg n \<and> ?J s))"
  proof (rule act_ok_bind [OF act_ok_get [where Q = "\<lambda>prior s. ?R present s \<and> prior_state prior \<noteq> Some ''skipped''"]])
    fix s assume "?R present s"
    then show "?R present s \<and> prior_state (image_embedding_state wc (es_ukg s)) \<noteq> Some ''skipped''"
      using assms(2) by (simp add: pass_facts_def refused_def)
  next
    fix prior
    show "act_ok (\<lambda>s. ?R present s \<and> prior_state prior \<noteq> Some ''skipped'')
       (if present then confirm_done wc prior (ee_clock env wc)
       else if prior_state prior = Some ''skipped'' then
         act_bind (bump (\<lambda>t. t\<lparr>st_images_skipped := st_images_skipped t + 1\<rparr>)) (\<lambda>_.
         act_return (Settled LegTerminal))
       else image_source env objects wc (Some t) token (prior_attempts prior) (ee_clock env wc))
     (\<lambda>x s. pass_at d ids att st si K N T (insert (item_id_for_capture wc) I) C s \<and> x = Settled LegDone
        \<or> (\<exists>n. x = Embed jpeg n \<and> ?J s))"
      by (intro act_ok_fact act_ok_if act_ok_weaken [OF confirm_done_done [OF assms(1)]])
        (auto simp: source_of_screenshot [OF assms(3)] intro: act_ok_return)
  qed
qed

lemma image_attempt_done:
  assumes "answers st si env" "ee_dim env = d" "wc \<in> set ids" "wc \<in> N"
    and "screenshot env objects t token = Some jpeg"
  shows "act_ok (pass_at d ids att st si K N T I C) (image_attempt env objects wc (Some t) token)
     (\<lambda>leg s. pass_at d ids att st si K N T (insert (item_id_for_capture wc) I) C s \<and> leg = LegDone)"
  unfolding image_attempt_def
proof (rule act_ok_bind [OF image_step_done [OF assms(3-5)]])
  let ?Q = "\<lambda>leg s. pass_at d ids att st si K N T (insert (item_id_for_capture wc) I) C s \<and> leg = LegDone"
  obtain e where e: "ee_embed_image env wc jpeg = EmbedOk e si" "length e = d"
    using assms(1,2) unfolding answers_def by blast
  fix x
  have stored: "act_ok (pass_at d ids att st si K N T I C)
      (image_record env wc n (ee_embed_image env wc jpeg)) ?Q" for n
    using store_image_done [OF assms(3) e(2)] e assms(2) by (simp add: image_record_def Let_def usable_def)
  show "act_ok (\<lambda>s. pass_at d ids att st si K N T (insert (item_id_for_capture wc) I) C s \<and> x = Settled LegDone
        \<or> (\<exists>n. x = Embed jpeg n \<and> pass_at d ids att st si K N T I C s))
      (case x of Embed jpeg attempts \<Rightarrow> image_record env wc attempts (ee_embed_image env wc jpeg)
       | Settled leg \<Rightarrow> act_return leg) ?Q"
  proof (cases x)
    case (Embed j n)
    then show ?thesis
      using stored [of n] by (cases "j = jpeg") (simp, simp add: act_ok_def)
  qed (auto intro: act_ok_return)
qed


section \<open>A fresh capture\<close>

lemma mark_done:
  assumes "wc \<noteq> 0" "wc \<in> set ids"
  shows "act_ok (pass_at d ids att st si K N T I C) (upd_ukg (mark_processed wc))
     (\<lambda>_. pass_at d ids att st si K N T I (insert wc C))"
proof -
  have "act_ok (pass_at d ids att st si K N T I C) (upd_ukg (mark_processed wc))
     (\<lambda>_. pass_at d ids att st si K N T I C)"
    by (rule act_ok_keeps [OF ok_upd_ukg [OF harmless_mark [OF assms(1)]] facts_upd_ukg [OF gentle_mark]])
  moreover have "processed wc (mark_processed wc u)" if "capture_ids u = ids" for u
  proof -
    have "wc \<in> set (capture_ids u)" using that assms(2) by simp
    then obtain r where "(wc, r) \<in> set (tbl_rows (uk_captures u))"
      by (auto simp: capture_ids_def tbl_ids_def)
    then show ?thesis by (force simp: processed_def mark_processed_def tbl_map_def)
  qed
  ultimately show ?thesis
    by (fastforce simp: act_ok_def upd_ukg_def act_update_def enrich_at_def pass_facts_def)
qed

lemma no_token_done:
  assumes "wc \<in> set ids"
  shows "act_ok (pass_at d ids att st si K {} T I C) (no_token_leg env wc)
     (\<lambda>leg s. pass_at d ids att st si K {} T I C s \<and> leg = LegTerminal)"
proof (rule act_ok_yields [OF act_ok_keeps [OF _ facts_settle(4)]])
  show "act_ok (enrich_at d ids att 0) (no_token_leg env wc) (\<lambda>_. enrich_at d ids att 0)"
    unfolding no_token_leg_def by (rule ok_set_state_bump [OF assms]) simp
  show "act_yields (\<lambda>leg. leg = LegTerminal) (no_token_leg env wc)"
    unfolding no_token_leg_def by (intro act_yields_last act_yields_return) simp
qed simp

abbreviation readable :: "enrich_env \<Rightarrow> object_store \<Rightarrow> int \<Rightarrow> string option \<Rightarrow> bool" where
  "readable env objects t tok \<equiv> (\<forall>token. tok = Some token \<longrightarrow> screenshot env objects t token \<noteq> None)"

lemma fresh_leg_done:
  assumes "answers st si env" "ee_dim env = d" "wc \<in> set ids" "readable env objects t tok"
  shows "act_ok (pass_at d ids att st si K {wc} T I C)
     (case tok of Some token \<Rightarrow> image_attempt env objects wc (Some t) token | None \<Rightarrow> no_token_leg env wc)
     (\<lambda>leg s. pass_at d ids att st si K {} T (if tok = None then I else insert (item_id_for_capture wc) I) C s
        \<and> leg \<notin> {LegRetry, LegUnavailable})"
proof (cases tok)
  case None
  then show ?thesis
    using no_token_done [OF assms(3)] by (auto intro!: act_ok_weaken [OF no_token_done [OF assms(3)]] simp: pass_facts_def)
next
  case (Some token)
  then obtain jpeg where "screenshot env objects t token = Some jpeg" using assms(4) by auto
  have "act_ok (pass_at d ids att st si K {wc} T I C) (image_attempt env objects wc (Some t) token)
     (\<lambda>leg s. pass_at d ids att st si K {wc} T (insert (item_id_for_capture wc) I) C s \<and> leg = LegDone)"
    by (rule image_attempt_done [OF assms(1-3) _ \<open>screenshot _ _ _ _ = _\<close>]) simp
  then show ?thesis
    using Some by (simp del: insert_iff) (rule act_ok_weaken, assumption, auto simp: pass_facts_def)
qed

lemma fresh_one_done:
  assumes "answers st si env" "ee_dim env = d" "wc \<in> set ids" "wc \<noteq> 0" "text_is K wc ocr"
    and "readable env objects t tok"
  shows "act_ok (pass_at d ids att st si K {wc} T I C) (fresh_one env objects (wc, Some t, tok) False)
     (\<lambda>stop. pass_at d ids (AList.update wc (ee_now env) att) st si K {}
        (if ocr = [] then T else insert (item_id_for_capture wc) T)
        (if tok = None then I else insert (item_id_for_capture wc) I) (insert wc C))"
proof -
  let ?att = "AList.update wc (ee_now env) att"
  let ?T = "if ocr = [] then T else insert (item_id_for_capture wc) T"
  let ?I = "if tok = None then I else insert (item_id_for_capture wc) I"
  have leg: "act_ok (\<lambda>s. pass_at d ids ?att st si K {wc} ?T I C s \<and> \<not> retry)
      (if False then act_return LegUnavailable
       else case tok of Some token \<Rightarrow> image_attempt env objects wc (Some t) token | None \<Rightarrow> no_token_leg env wc)
      (\<lambda>leg s. pass_at d ids ?att st si K {} ?T ?I C s \<and> \<not> retry \<and> leg \<notin> {LegRetry, LegUnavailable})" for retry
    using fresh_leg_done [OF assms(1-3,6), where T = ?T and att = ?att]
    by (cases retry) (auto simp: act_ok_def)
  have mark: "act_ok (\<lambda>s. pass_at d ids ?att st si K {} ?T ?I C s \<and> \<not> retry \<and> leg \<notin> {LegRetry, LegUnavailable})
      (if \<not> retry \<and> leg \<noteq> LegRetry then upd_ukg (mark_processed wc) else act_return ())
      (\<lambda>_. pass_at d ids ?att st si K {} ?T ?I (insert wc C))" for retry leg
    by (rule act_ok_fact) (auto intro: mark_done [OF assms(4,3)])
  show ?thesis
    unfolding fresh_one_def prod.case
    by (rule act_ok_bind [OF act_ok_keeps [OF ok_touch [OF assms(3)] facts_touch]],
        rule act_ok_bind [OF text_leg_done [OF assms(1-3,5)]], rule act_ok_bind [OF leg],
        rule act_ok_bind [OF mark], rule act_ok_return, assumption)
qed


section \<open>The whole pass\<close>

lemma contents_requeued: "contents (mark_all_unprocessed u) = contents u"
  by (auto simp: contents_def mark_all_unprocessed_def tbl_map_def)

lemma contents_simps [simp]:
  "contents (mark_all_unprocessed u) = contents u" "contents (reset_image_embedding_states u) = contents u"
  "contents (set_config k v u) = contents u" "contents (requeue_text u) = contents u"
  "contents (requeue_image u) = contents u"
  by (auto simp: contents_requeued requeue_text_def requeue_image_def)
    (simp_all add: contents_def reset_image_embedding_states_def set_config_def)

lemma refused_simps [simp]:
  "refused i (mark_all_unprocessed u) = refused i u" "\<not> refused i (reset_image_embedding_states u)"
  "refused i (set_config k v u) = refused i u" "refused i (requeue_text u) = refused i u"
  "refused i (requeue_image u) \<Longrightarrow> refused i u"
  by (auto simp: refused_def image_embedding_state_def prior_state_def mark_all_unprocessed_def
      reset_image_embedding_states_def set_config_def requeue_text_def requeue_image_def split: if_splits)

lemma open_labelled:
  "space_id x = Some l \<Longrightarrow> space_id (semantic_open d sp x) = Some l"
  "si_items (semantic_open d sp x) = si_items x"
  by (auto simp: space_id_def semantic_open_def ensure_info_def Let_def split: list.splits)

lemma sync_text_facts:
  "space_id (es_text (sync_text_space st s)) = Some st" "es_image (sync_text_space st s) = es_image s"
  "contents (es_ukg (sync_text_space st s)) = contents (es_ukg s)"
  "refused i (es_ukg (sync_text_space st s)) = refused i (es_ukg s)"
  "space_id (es_text s) = Some st \<Longrightarrow> si_items (es_text (sync_text_space st s)) = si_items (es_text s)"
  "space_id (es_text s) = Some st \<Longrightarrow> es_ukg (sync_text_space st s) = es_ukg s"
  by (simp_all add: sync_text_space_def Let_def space_mismatch_def)

lemma sync_image_facts:
  "space_id (es_image (sync_image_space si s)) = Some si" "es_text (sync_image_space si s) = es_text s"
  "contents (es_ukg (sync_image_space si s)) = contents (es_ukg s)"
  "refused i (es_ukg (sync_image_space si s)) \<Longrightarrow> refused i (es_ukg s)"
  "space_id (es_image s) = Some si \<Longrightarrow> si_items (es_image (sync_image_space si s)) = si_items (es_image s)"
  "processed i (es_ukg (sync_image_space si s)) = processed i (es_ukg s)"
  "uk_config (es_ukg (sync_image_space si s)) = uk_config (es_ukg s)"
  by (simp_all add: sync_image_space_def Let_def space_mismatch_def split: if_splits)
    (simp_all add: reset_image_embedding_states_def processed_def)

lemma requeue_facts:
  "\<not> flag_set (requeue_image (requeue_text u)) TEXT_UNAVAILABLE"
  "\<not> flag_set u TEXT_UNAVAILABLE \<Longrightarrow> processed i (requeue_image (requeue_text u)) = processed i u"
proof -
  have other: "flag_set (requeue_image v) TEXT_UNAVAILABLE = flag_set v TEXT_UNAVAILABLE" for v
    by (simp add: requeue_image_def flag_set_def get_config_def reset_image_embedding_states_def
        set_config_def update_conv' TEXT_UNAVAILABLE_def IMAGE_UNAVAILABLE_def)
  have "\<not> flag_set (requeue_text u) TEXT_UNAVAILABLE"
    by (simp add: requeue_text_def flag_set_def get_config_def mark_all_unprocessed_def set_config_def update_conv')
  then show "\<not> flag_set (requeue_image (requeue_text u)) TEXT_UNAVAILABLE" using other by simp
  show "processed i (requeue_image (requeue_text u)) = processed i u" if "\<not> flag_set u TEXT_UNAVAILABLE"
    using that
    by (simp add: requeue_image_def requeue_text_def processed_def reset_image_embedding_states_def set_config_def)
qed

text \<open>After the comparison of spaces the stores have the labels of the embedder. Stores that had
  them before lose nothing.\<close>

lemma sync_spaces_facts:
  assumes "\<forall>i \<in> N. \<not> refused i (es_ukg s)"
    and "T = {} \<or> space_id (es_text s) = Some st \<and> T \<subseteq> set (si_items (es_text s))"
    and "I = {} \<or> space_id (es_image s) = Some si \<and> I \<subseteq> set (si_items (es_image s))"
    and "C = {} \<or> space_id (es_text s) = Some st \<and> \<not> flag_set (es_ukg s) TEXT_UNAVAILABLE
       \<and> (\<forall>i \<in> C. processed i (es_ukg s))"
  shows "pass_facts st si (contents (es_ukg s)) N T I C (sync_spaces (Some (st, si)) (open_stores env s))"
proof -
  let ?s0 = "open_stores env s"
  let ?s1 = "sync_image_space si (sync_text_space st ?s0)"
  have s: "sync_spaces (Some (st, si)) ?s0 = ?s1\<lparr>es_ukg := requeue_image (requeue_text (es_ukg ?s1))\<rparr>"
    by (simp add: sync_spaces_def Let_def)
  have u: "es_ukg ?s0 = es_ukg s" by (simp add: open_stores_def)
  have "T \<subseteq> set (si_items (es_text ?s1))"
    using assms(2) by (auto simp: open_stores_def open_labelled sync_text_facts sync_image_facts)
  moreover have "I \<subseteq> set (si_items (es_image ?s1))"
    using assms(3) by (auto simp: open_stores_def open_labelled sync_text_facts sync_image_facts)
  moreover have "\<not> refused i (requeue_image (requeue_text (es_ukg ?s1)))" if "i \<in> N" for i
    using assms(1) that refused_simps(5) sync_image_facts(4) sync_text_facts(4) u by (metis refused_simps(4))
  moreover have "processed i (requeue_image (requeue_text (es_ukg ?s1)))" if "i \<in> C" for i
  proof -
    have st: "space_id (es_text ?s0) = Some st" and c: "\<not> flag_set (es_ukg s) TEXT_UNAVAILABLE" "processed i (es_ukg s)"
      using assms(4) that by (auto simp: open_stores_def open_labelled)
    have "uk_config (es_ukg ?s1) = uk_config (es_ukg s)" by (simp add: sync_image_facts sync_text_facts(6) [OF st] u)
    then have "\<not> flag_set (es_ukg ?s1) TEXT_UNAVAILABLE" using flag_set_cong c(1) by blast
    then show ?thesis
      using c(2) by (simp add: requeue_facts(2) sync_image_facts sync_text_facts(6) [OF st] u)
  qed
  ultimately show ?thesis
    unfolding s by (simp add: pass_facts_def sync_text_facts sync_image_facts requeue_facts(1) u)
qed

lemma distinct_fresh_queue:
  assumes "tbl_ok (uk_captures (es_ukg (sync_spaces active (open_stores env s))))"
  shows "distinct (map fst (fresh_queue env active s))"
proof -
  have "map fst (fresh_queue env active s) = map fst (paced_queue (\<lambda>p. wc_is_processed (snd p) = 0) BATCH
      (ee_now env - RETRY_BACKOFF_TICKS) (es_ukg (sync_spaces active (open_stores env s))))"
    by (auto simp: fresh_queue_def captures_pending_enrichment_def)
  then show ?thesis using distinct_paced_queue [OF assms] by simp
qed

lemma queues_disjoint:
  assumes "tbl_ok (uk_captures u)" "(i, ts, tok) \<in> set (captures_pending_enrichment limit now backoff u)"
    and "c \<in> set (captures_needing_image_embedding limit' now' backoff' u)"
  shows "fst c \<noteq> i"
proof -
  obtain r where r: "(i, r) \<in> set (tbl_rows (uk_captures u))" "wc_is_processed r = 0"
    using assms(2) by (auto simp: captures_pending_enrichment_def dest!: paced_queue_waiting)
  obtain r' where r': "(fst c, r') \<in> set (tbl_rows (uk_captures u))" "wc_is_processed r' = 1"
    using assms(3) by (auto simp: captures_needing_image_embedding_def needs_image_def dest!: paced_queue_waiting)
  show ?thesis
  proof
    assume "fst c = i"
    then have "r = r'" using assms(1) r(1) r'(1) by (auto simp: tbl_ok_def tbl_ids_def dest: eq_key_imp_eq_value)
    then show False using r(2) r'(2) by simp
  qed
qed

definition readable_in :: "enrich_env \<Rightarrow> int \<Rightarrow> string option \<Rightarrow> bool" where
  "readable_in env t tok \<longleftrightarrow>
     (case object_store_encrypted (ee_aead env) (ee_base env @ [''objects'']) (ee_object_key env) (ee_fs env) of
        Inl e \<Rightarrow> False
      | Inr objects \<Rightarrow> readable env objects t tok)"

lemma text_is_contents: "text_is (contents u) wc (ocr_text wc u)"
  by (simp add: text_is_def contents_def ocr_text_def regions_def)

text \<open>The fresh queue around the capture: what comes before it leaves its facts alone.\<close>

lemma fresh_loop_done:
  assumes "answers st si env" "ee_dim env = d" "\<forall>c \<in> set (q1 @ (wc, Some t, tok) # q2). fst c \<in> set ids \<and> fst c \<noteq> 0"
    and "text_is K wc ocr" "readable env objects t tok" "\<forall>c \<in> set q1. fst c \<noteq> wc"
  shows "act_ok (pass_at d ids att st si K {wc} T I C)
     (act_for (fresh_one env objects) (q1 @ (wc, Some t, tok) # q2) False)
     (\<lambda>_. pass_at d ids (touch_all (ee_now env) (map fst (q1 @ (wc, Some t, tok) # q2)) att) st si K {}
        (if ocr = [] then T else insert (item_id_for_capture wc) T)
        (if tok = None then I else insert (item_id_for_capture wc) I) (insert wc C))"
proof -
  let ?att1 = "touch_all (ee_now env) (map fst q1) att"
  let ?att2 = "AList.update wc (ee_now env) ?att1"
  let ?T = "if ocr = [] then T else insert (item_id_for_capture wc) T"
  let ?I = "if tok = None then I else insert (item_id_for_capture wc) I"
  have before: "act_ok (pass_at d ids att st si K {wc} T I C) (act_for (fresh_one env objects) q1 False)
     (\<lambda>stop s. pass_at d ids ?att1 st si K {wc} T I C s \<and> \<not> stop)"
    using assms(3,6) by (intro act_ok_weaken [OF act_ok_yields [OF act_ok_keeps
      [OF ok_fresh_loop [OF assms(2)] facts_fresh_loop [OF assms(1)]] yields_fresh_loop [OF assms(1)]]]) auto
  have single: "act_ok (\<lambda>s. pass_at d ids ?att1 st si K {wc} T I C s \<and> \<not> stop)
     (fresh_one env objects (wc, Some t, tok) stop)
     (\<lambda>_. pass_at d ids ?att2 st si K {} ?T ?I (insert wc C))" for stop
    using fresh_one_done [OF assms(1,2) _ _ assms(4,5), where ids = ids and att = ?att1] assms(3)
    by (intro act_ok_fact) simp
  have after: "act_ok (pass_at d ids ?att2 st si K {} ?T ?I (insert wc C)) (act_for (fresh_one env objects) q2 stop)
     (\<lambda>_. pass_at d ids (touch_all (ee_now env) (map fst q2) ?att2) st si K {} ?T ?I (insert wc C))" for stop
    by (rule act_ok_keeps [OF ok_fresh_loop [OF assms(2)] facts_fresh_loop [OF assms(1)]]) (use assms(3) in simp_all)
  show ?thesis
    using act_ok_bind [OF before act_ok_bind [OF single after]]
    by (simp add: act_for_append touch_all_append)
qed

lemma enrich_client_keeps_facts:
  assumes "env_ok env" "answers st si env"
    and "pass_facts st si K N T I C (sync_spaces (Some (st, si)) (open_stores env s))"
    and "\<forall>c \<in> set (fresh_queue env (Some (st, si)) s). fst c \<notin> N"
    and "\<forall>i \<in> N. unprocessed i (es_ukg (sync_spaces (Some (st, si)) (open_stores env s)))"
  shows "pass_facts st si K N T I C (snd (enrich_client env (Some (st, si)) s))"
proof (rule env_ok_objects [OF assms(1)])
  let ?b = "backfill_queue env (Some (st, si)) s" and ?q = "fresh_queue env (Some (st, si)) s"
  fix objects
  assume obj: "object_store_encrypted (ee_aead env) (ee_base env @ [''objects'']) (ee_object_key env) (ee_fs env) = Inr objects"
  have "\<forall>c \<in> set ?b. fst c \<notin> N"
    using assms(5) by (fastforce simp: backfill_queue_def captures_needing_image_embedding_def unprocessed_def
        needs_image_def dest!: paced_queue_waiting)
  then have "keeps_facts st si K N T I C
      (act_bind (backfill_loop env objects ?b) (\<lambda>stop.
         act_bind (act_for (fresh_one env objects) ?q stop) (\<lambda>_. act_return ())))"
    by (intro keeps_intros facts_backfill_loop facts_fresh_loop assms(2,4))
  then show ?thesis
    using assms(3) by (simp add: enrich_client_loops [OF obj] act_keeps_def)
qed

lemma enrich_client_serves:
  assumes "enrich_inv s" "answers st si env" "\<not> refused i (es_ukg s)" "readable_in env t tok"
    and "(i, Some t, tok) \<in> set (fresh_queue env (Some (st, si)) s)"
  obtains s' where "enrich_client env (Some (st, si)) s = (Inr (), s')"
    "pass_facts st si (contents (es_ukg s)) {}
       (if ocr_text i (es_ukg s) = [] then {} else {item_id_for_capture i})
       (if tok = None then {} else {item_id_for_capture i}) {i} s'"
proof -
  let ?s1 = "sync_spaces (Some (st, si)) (open_stores env s)"
  let ?ids = "capture_ids (es_ukg s)" and ?K = "contents (es_ukg s)"
  let ?q = "fresh_queue env (Some (st, si)) s" and ?b = "backfill_queue env (Some (st, si)) s"
  let ?at = "\<lambda>att. enrich_at (ee_dim env) ?ids att 0"
  obtain objects where obj: "object_store_encrypted (ee_aead env) (ee_base env @ [''objects''])
      (ee_object_key env) (ee_fs env) = Inr objects" "readable env objects t tok"
    using assms(4) by (auto simp: readable_in_def split: sum.splits)
  have zero: "0 \<notin> set ?ids" "unprocessed 0 (es_ukg s)"
    using assms(1) no_capture_zero by (simp_all add: enrich_inv_def)
  note queues = pass_queues [OF assms(1) zero(2), where env = env and active = "Some (st, si)"]
  have facts1: "pass_facts st si ?K {i} {} {} {} ?s1"
    by (rule sync_spaces_facts) (use assms(3) in simp_all)
  obtain q1 q2 where q: "?q = q1 @ (i, Some t, tok) # q2" using assms(5) by (meson split_list)
  have "distinct (map fst ?q)" by (rule distinct_fresh_queue [OF queues(2)])
  then have q1: "\<forall>c \<in> set q1. fst c \<noteq> i" unfolding q by auto
  have ids: "\<forall>c \<in> set ?q. fst c \<in> set ?ids \<and> fst c \<noteq> 0" using queues(4) zero(1) by metis
  have b: "\<forall>c \<in> set ?b. fst c \<in> set ?ids" "\<forall>c \<in> set ?b. fst c \<notin> {i}"
    using queues(3) queues_disjoint [OF queues(2)] assms(5) unfolding fresh_queue_def backfill_queue_def by (blast, blast)
  have first: "act_ok (\<lambda>s. ?at att s \<and> pass_facts st si ?K {i} {} {} {} s) (backfill_loop env objects ?b)
     (\<lambda>stop s. ((\<exists>n. ?at (touch_all (ee_now env) (take n (map fst ?b)) att) s)
        \<and> pass_facts st si ?K {i} {} {} {} s) \<and> \<not> stop)" for att
    by (rule act_ok_yields [OF act_ok_keeps [OF ok_backfill_loop [OF refl b(1)]
      facts_backfill_loop [OF assms(2) b(2)]] yields_backfill_loop [OF assms(2)]])
  obtain stop s2 n where s2: "backfill_loop env objects ?b ?s1 = (Inr stop, s2)" "\<not> stop"
    "?at (touch_all (ee_now env) (take n (map fst ?b)) (uk_attempts (es_ukg s))) s2"
    "pass_facts st si ?K {i} {} {} {} s2"
    using first [of "uk_attempts (es_ukg s)"] queues(1) facts1 unfolding act_ok_def by blast
  obtain stop' s3 where "act_for (fresh_one env objects) ?q False s2 = (Inr stop', s3)"
    "pass_facts st si ?K {} (if ocr_text i (es_ukg s) = [] then {} else {item_id_for_capture i})
       (if tok = None then {} else {item_id_for_capture i}) {i} s3"
    using fresh_loop_done [OF assms(2) refl ids [unfolded q] text_is_contents obj(2) q1,
        where T = "{}" and I = "{}" and C = "{}"] s2(3,4)
    unfolding act_ok_def q by blast
  then show thesis
    using that s2(1,2) by (simp add: enrich_client_loops [OF obj(1)] act_bind_def act_return_def)
qed

end
