(* ===== verification/Enrich_All.thy ===== *)
theory Enrich_All
  imports Enrich_Served
begin

text \<open>
  Over many rounds, with a service that answers: no fresh capture waits forever for its vectors.
  The second instance of the interface \<open>fair_rounds\<close>.
\<close>

section \<open>Ingestion\<close>

lemma insert_regions:
  assumes "ukg_ok u" "j \<in> set (capture_ids u)"
  shows "regions j (snd (insert_capture rec u)) = regions j u
     \<and> uk_config (snd (insert_capture rec u)) = uk_config u"
proof (cases "find_capture_by_token (wcr_image_token rec) u")
  case (Some i)
  then show ?thesis using insert_capture_known by simp
next
  case None
  let ?wc = "tbl_seq (uk_captures u) + 1"
  have j: "j \<noteq> ?wc" using ukg_ok_captures(1) [OF assms(1)] assms(2) by (force simp: tbl_ok_def capture_ids_def)
  have pick: "[p\<leftarrow>xs. fst (snd p) = j] = [p\<leftarrow>[p\<leftarrow>xs. fst (snd p) \<noteq> ?wc]. fst (snd p) = j]"
    for xs :: "(int \<times> int \<times> screen_region_record) list"
    using j by (auto intro: filter_cong)
  show ?thesis
  proof (rule insert_capture_fresh [OF assms(1) None])
    fix u' assume u': "insert_capture rec u = (Inr ?wc, u')" "others_unchanged ?wc u u'"
    have "[p\<leftarrow>tbl_rows (uk_regions u'). fst (snd p) = j]
        = [p\<leftarrow>[p\<leftarrow>tbl_rows (uk_regions u'). fst (snd p) \<noteq> ?wc]. fst (snd p) = j]" by (rule pick)
    also have "\<dots> = [p\<leftarrow>[p\<leftarrow>tbl_rows (uk_regions u). fst (snd p) \<noteq> ?wc]. fst (snd p) = j]"
      using u'(2) by (simp only: others_unchanged_def)
    also have "\<dots> = [p\<leftarrow>tbl_rows (uk_regions u). fst (snd p) = j]" by (rule pick [symmetric])
    finally show ?thesis using u' by (simp add: regions_def others_unchanged_def)
  qed
qed

lemma insert_all_regions:
  "ukg_ok u \<Longrightarrow> j \<in> set (capture_ids u) \<Longrightarrow>
     regions j (insert_all recs u) = regions j u \<and> uk_config (insert_all recs u) = uk_config u"
proof (induction recs arbitrary: u)
  case Nil
  then show ?case by (simp add: insert_all_def)
next
  case (Cons r recs)
  let ?u1 = "snd (insert_capture r u)"
  have "later_captures u ?u1" by (rule later_insert [OF Cons.prems(1)])
  then have "ukg_ok ?u1" "j \<in> set (capture_ids ?u1)"
    using Cons.prems(2) by (auto simp: later_captures_def capture_ids_def tbl_ids_def)
  then show ?case
    using Cons.IH [of ?u1] insert_regions [OF Cons.prems] by (simp add: insert_all_def)
qed

section \<open>Rounds that serve a capture\<close>

text \<open>A capture that waits: its time, its token and its text, beside what \<open>waiting\<close> says.\<close>

definition has_row :: "int \<Rightarrow> int \<Rightarrow> string option \<Rightarrow> ukg \<Rightarrow> bool" where
  "has_row i t tok u \<longleftrightarrow>
     (\<exists>(j, r) \<in> set (tbl_rows (uk_captures u)). j = i \<and> wc_timestamp r = t \<and> wc_image_token r = tok)"

definition awaits :: "int \<Rightarrow> string option \<Rightarrow> string \<Rightarrow> int \<Rightarrow> enrich_state \<Rightarrow> bool" where
  "awaits t tok ocr i s \<longleftrightarrow>
     waiting i s \<and> \<not> refused i (es_ukg s) \<and> has_row i t tok (es_ukg s) \<and> ocr_text i (es_ukg s) = ocr"

definition enriched :: "string \<Rightarrow> string \<Rightarrow> string option \<Rightarrow> string \<Rightarrow> int \<Rightarrow> enrich_state \<Rightarrow> bool" where
  "enriched st si tok ocr i s \<longleftrightarrow>
     pass_facts st si (contents (es_ukg s)) {} (if ocr = [] then {} else {item_id_for_capture i})
       (if tok = None then {} else {item_id_for_capture i}) {i} s"

definition serving :: "string \<Rightarrow> string \<Rightarrow> int \<Rightarrow> string option \<Rightarrow> round \<Rightarrow> bool" where
  "serving st si t tok rd \<longleftrightarrow>
     round_ok rd \<and> (case rd of (env, active, recs) \<Rightarrow>
       active = Some (st, si) \<and> answers st si env \<and> readable_in env t tok)"

lemma has_row_contents: "contents u = contents u' \<Longrightarrow> has_row i t tok u = has_row i t tok u'"
proof -
  have "has_row i t tok u \<longleftrightarrow>
      (\<exists>(j, r) \<in> set (fst (contents u)). j = i \<and> wc_timestamp r = t \<and> wc_image_token r = tok)" for u
    by (simp add: has_row_def contents_def case_prod_unfold)
  then show "contents u = contents u' \<Longrightarrow> has_row i t tok u = has_row i t tok u'" by simp
qed

lemma ocr_text_contents: "contents u = contents u' \<Longrightarrow> ocr_text i u = ocr_text i u'"
  using text_is_contents [of u' i] unfolding text_is_def by blast

lemma ocr_text_regions: "regions i u = regions i u' \<Longrightarrow> ocr_text i u = ocr_text i u'"
  by (simp add: ocr_text_def)

lemma ingest_awaits:
  assumes "live_inv s" "awaits t tok ocr i s"
  shows "awaits t tok ocr i (s\<lparr>es_ukg := insert_all recs (es_ukg s)\<rparr>)"
proof -
  have i: "i \<in> set (capture_ids (es_ukg s))" "unprocessed i (es_ukg s)" "\<not> attempted s i"
    using assms(2) by (simp_all add: awaits_def waiting_def)
  have ok: "ukg_ok (es_ukg s)" using assms(1) by (simp add: live_inv_def enrich_inv_def)
  have later: "later_captures (es_ukg s) (insert_all recs (es_ukg s))" by (rule later_insert_all [OF ok])
  obtain new where "unprocessed i (insert_all recs (es_ukg s))"
    "set (capture_ids (insert_all recs (es_ukg s))) = set (capture_ids (es_ukg s)) \<union> new"
    by (rule ingested [OF assms(1) i(1,2), of recs])
  then have "waiting i (s\<lparr>es_ukg := insert_all recs (es_ukg s)\<rparr>)"
    using i later by (simp add: waiting_def attempted_def later_captures_def)
  moreover have "has_row i t tok (insert_all recs (es_ukg s))"
    using assms(2) later by (auto simp: awaits_def has_row_def later_captures_def)
  moreover have "ocr_text i (insert_all recs (es_ukg s)) = ocr"
    using assms(2) ocr_text_regions insert_all_regions [OF ok i(1)] by (metis awaits_def)
  moreover have "refused i (insert_all recs (es_ukg s)) = refused i (es_ukg s)"
    using later by (simp add: refused_def image_embedding_state_def later_captures_def)
  ultimately show ?thesis using assms(2) by (simp add: awaits_def)
qed

lemma ingest_enriched:
  assumes "live_inv s" "enriched st si tok ocr i s"
  shows "enriched st si tok ocr i (s\<lparr>es_ukg := insert_all recs (es_ukg s)\<rparr>)"
proof -
  have ok: "ukg_ok (es_ukg s)" using assms(1) by (simp add: live_inv_def enrich_inv_def)
  have p: "processed i (es_ukg s)" using assms(2) by (simp add: enriched_def pass_facts_def)
  then have "i \<in> set (capture_ids (es_ukg s))" unfolding processed_def capture_ids_def tbl_ids_def by force
  then have "uk_config (insert_all recs (es_ukg s)) = uk_config (es_ukg s)"
    using insert_all_regions [OF ok] by blast
  moreover have "processed i (insert_all recs (es_ukg s))"
    using p later_insert_all [OF ok, of recs] by (auto simp: processed_def later_captures_def)
  ultimately show ?thesis
    using assms(2) by (simp add: enriched_def pass_facts_def flag_set_def get_config_def)
qed


lemma round_serves:
  assumes "live_inv s" "serving st si t tok (env, active, recs)" "awaits t tok ocr i s"
    and "i \<in> fst ` set (fresh_queue env active (s\<lparr>es_ukg := insert_all recs (es_ukg s)\<rparr>))"
  shows "enriched st si tok ocr i (enrich_round (env, active, recs) s)"
proof -
  let ?s0 = "s\<lparr>es_ukg := insert_all recs (es_ukg s)\<rparr>"
  let ?s1 = "sync_spaces active (open_stores env ?s0)"
  have sv: "active = Some (st, si)" "answers st si env" "readable_in env t tok"
    using assms(2) by (simp_all add: serving_def)
  have inv0: "enrich_inv ?s0" using ingest_inv [OF assms(1)] by (simp add: live_inv_def)
  have a0: "awaits t tok ocr i ?s0" by (rule ingest_awaits [OF assms(1,3)])
  have "contents (es_ukg ?s1) = contents (es_ukg ?s0)"
    using sync_spaces_facts [of "{}" ?s0 "{}" st "{}" si "{}" env] sv(1) by (simp add: pass_facts_def)
  then have row: "has_row i t tok (es_ukg ?s1)" using a0 has_row_contents by (metis awaits_def)
  have "enrich_at (ee_dim env) (capture_ids (es_ukg ?s0)) (uk_attempts (es_ukg ?s0)) 0 ?s1"
    using no_capture_zero inv0 by (intro sync_spaces_ok open_stores_ok inv0) (simp add: enrich_inv_def)
  then have ok: "tbl_ok (uk_captures (es_ukg ?s1))" by (simp add: enrich_at_def enrich_inv_def ukg_ok_captures(1))
  obtain ts k where q: "(i, ts, k) \<in> set (fresh_queue env active ?s0)" using assms(4) by auto
  then obtain r where r: "(i, r) \<in> set (tbl_rows (uk_captures (es_ukg ?s1)))" "ts = Some (wc_timestamp r)"
    "k = wc_image_token r"
    by (auto simp: fresh_queue_def captures_pending_enrichment_def dest!: paced_queue_waiting)
  obtain r' where r': "(i, r') \<in> set (tbl_rows (uk_captures (es_ukg ?s1)))" "wc_timestamp r' = t" "wc_image_token r' = tok"
    using row by (auto simp: has_row_def)
  have "r' = r" using tbl_get_row [OF ok] r(1) r'(1) by (metis option.inject)
  then have "(i, Some t, tok) \<in> set (fresh_queue env (Some (st, si)) ?s0)"
    using q r r' sv(1) by simp
  then obtain s' where "enrich_client env (Some (st, si)) ?s0 = (Inr (), s')"
    "pass_facts st si (contents (es_ukg ?s0)) {}
       (if ocr_text i (es_ukg ?s0) = [] then {} else {item_id_for_capture i})
       (if tok = None then {} else {item_id_for_capture i}) {i} s'"
    using a0 by (auto simp: awaits_def intro: enrich_client_serves [OF inv0 sv(2) _ sv(3)])
  then show ?thesis
    using a0 sv(1) by (simp add: enriched_def enrich_round_def awaits_def pass_facts_def)
qed

lemma round_passes_over:
  assumes "live_inv s" "serving st si t tok rd" "awaits t tok ocr i s"
    and "\<not> enriched st si tok ocr i (enrich_round rd s)"
  shows "awaits t tok ocr i (enrich_round rd s)
     \<and> (\<exists>q \<subseteq> ahead_of i s. card q = 64 \<and> ahead_of i (enrich_round rd s) \<subseteq> ahead_of i s - q)"
proof -
  obtain env active recs where rd: "rd = (env, active, recs)" by (cases rd)
  let ?s0 = "s\<lparr>es_ukg := insert_all recs (es_ukg s)\<rparr>"
  let ?s' = "enrich_round (env, active, recs) s"
  have sv: "active = Some (st, si)" "answers st si env" "round_ok rd" "env_ok env"
    using assms(2) by (simp_all add: serving_def rd round_ok_def)
  have notq: "i \<notin> fst ` set (fresh_queue env active ?s0)"
    using round_serves [OF assms(1) assms(2) [unfolded rd] assms(3)] assms(4) rd by blast
  have w: "waiting i s" using assms(3) by (simp add: awaits_def)
  note passed = enrich_round_not_selected [OF assms(1) sv(3) [unfolded rd] w notq]
  have a0: "awaits t tok ocr i ?s0" by (rule ingest_awaits [OF assms(1,3)])
  have inv0: "enrich_inv ?s0" using ingest_inv [OF assms(1)] by (simp add: live_inv_def)
  have un: "unprocessed i (es_ukg (sync_spaces active (open_stores env ?s0)))"
    using sync_spaces_ok [OF open_stores_ok [OF inv0, of i env]] a0
    by (simp add: enrich_at_def awaits_def waiting_def)
  have "pass_facts st si (contents (es_ukg ?s0)) {i} {} {} {} ?s'"
    unfolding enrich_round_def prod.case sv(1)
  proof (rule enrich_client_keeps_facts [OF sv(4,2)])
    show "pass_facts st si (contents (es_ukg ?s0)) {i} {} {} {} (sync_spaces (Some (st, si)) (open_stores env ?s0))"
      by (rule sync_spaces_facts) (use a0 in \<open>simp_all add: awaits_def\<close>)
    show "\<forall>c \<in> set (fresh_queue env (Some (st, si)) ?s0). fst c \<notin> {i}"
      using notq sv(1) by force
    show "\<forall>i \<in> {i}. unprocessed i (es_ukg (sync_spaces (Some (st, si)) (open_stores env ?s0)))"
      using un sv(1) by simp
  qed
  then have "\<not> refused i (es_ukg ?s')" "contents (es_ukg ?s') = contents (es_ukg ?s0)"
    by (simp_all add: pass_facts_def)
  moreover from this(2) have "has_row i t tok (es_ukg ?s')" "ocr_text i (es_ukg ?s') = ocr"
    using has_row_contents [of "es_ukg ?s'"] ocr_text_contents [of "es_ukg ?s'"] a0 unfolding awaits_def by blast+
  ultimately have "awaits t tok ocr i ?s'" using passed by (simp add: awaits_def)
  then show ?thesis using passed unfolding rd by blast
qed

lemma round_keeps_enriched:
  assumes "live_inv s" "serving st si t tok rd" "enriched st si tok' ocr i s"
  shows "enriched st si tok' ocr i (enrich_round rd s)"
proof -
  obtain env active recs where rd: "rd = (env, active, recs)" by (cases rd)
  let ?s0 = "s\<lparr>es_ukg := insert_all recs (es_ukg s)\<rparr>"
  have sv: "active = Some (st, si)" "answers st si env" "env_ok env"
    using assms(2) by (simp_all add: serving_def rd round_ok_def)
  have "enriched st si tok' ocr i ?s0" by (rule ingest_enriched [OF assms(1,3)])
  then have "pass_facts st si (contents (es_ukg ?s0)) {} (if ocr = [] then {} else {item_id_for_capture i})
       (if tok' = None then {} else {item_id_for_capture i}) {i} (sync_spaces (Some (st, si)) (open_stores env ?s0))"
    by (intro sync_spaces_facts) (simp_all add: enriched_def pass_facts_def)
  from enrich_client_keeps_facts [OF sv(3,2) this] show ?thesis
    by (simp add: enriched_def enrich_round_def rd sv(1) pass_facts_def)
qed

interpretation completion: fair_rounds live_inv "serving st si t tok" enrich_round
  "awaits t tok ocr" "enriched st si tok ocr" ahead_of 64
  for st si :: string and t :: int and tok :: "string option" and ocr :: string
proof
  show "finite (ahead_of i s)" for i s by (simp add: ahead_of_def)
  show "serving st si t tok r \<Longrightarrow> live_inv s \<Longrightarrow> live_inv (enrich_round r s)" for r s
    by (simp add: serving_def round_keeps)
qed (simp_all add: round_keeps_enriched round_passes_over)


text \<open>What the broker put under the capture's key is readable.\<close>

lemma screenshot_put:
  assumes "store_ready (ee_client env) (st, fs)" "length nonce = 12"
    and "(st, ee_fs env) = store_put (ee_client env) (ymd_from_filetime t, token, ''jpg'') (nonce, jpeg) (st, fs)"
  shows "screenshot env st t token = Some jpeg"
proof -
  let ?rel = "key_path (ee_client env) (ymd_from_filetime t) token ''jpg''"
  have "store_get (ee_client env) (ymd_from_filetime t, token, ''jpg'') (st, ee_fs env) = Inr jpeg"
    unfolding assms(3)
    by (rule objects.get_put [of "ee_client env" "(st, fs)" _ "(nonce, jpeg)", unfolded snd_conv])
      (simp_all add: assms(1,2) store_key_ok_def store_value_ok_def media_ext_def)
  moreover have "obj_exists st ?rel (ee_fs env)"
    using assms(1,3) by (simp add: store_put_def store_ready_def obj_put_no_faults obj_exists_def)
  ultimately show ?thesis by (simp add: screenshot_def Let_def store_get_def)
qed

end
