(* ===== verification/Enrich_Poll.thy ===== *)
theory Enrich_Poll
  imports Enrich_All
begin

text \<open>
  The background worker of \<open>precall-api/src/enrich.rs\<close> over all clients: \<open>enrich_once\<close> over the
  directories it finds, and the timer loop \<open>spawn_enricher\<close> around it. Between two rounds the
  broker inserts what the clients send; the worker shares nothing with it but the databases. A
  capture inserted while a pass runs counts as arriving with the next round.
\<close>

section \<open>The loop\<close>

text \<open>The stores by the name of the client's directory. A round is what the broker inserted since
  the last one, the directories that \<open>read_dir\<close> lists (or its error), the spaces the embedder
  reports, and the environment of each client's pass.\<close>

type_synonym stores = "string \<Rightarrow> enrich_state"

record poll_round =
  pr_arrivals :: "string \<Rightarrow> window_capture_record list"
  pr_dirs :: "string + string list"
  pr_spaces :: "(string \<times> string) option"
  pr_env :: "string \<Rightarrow> enrich_env"

definition arrive :: "poll_round \<Rightarrow> stores \<Rightarrow> stores" where
  "arrive r stores = (\<lambda>c. (stores c)\<lparr>es_ukg := insert_all (pr_arrivals r c) (es_ukg (stores c))\<rparr>)"

definition enrich_dirs :: "poll_round \<Rightarrow> stores \<Rightarrow> (string + enrich_stats) \<times> stores" where
  "enrich_dirs r stores =
     (case pr_dirs r of
        Inl e \<Rightarrow> (Inl e, stores)
      | Inr dirs \<Rightarrow>
          (case enrich_once (pr_spaces r) (map (\<lambda>c. (pr_env r c, stores c)) dirs) of
             (stats, ss) \<Rightarrow> (Inr stats, fold (\<lambda>(c, s) f. f(c := s)) (zip dirs ss) stores)))"

text \<open>What the loop logs: work done, nothing to do, or an error; it goes on in every case.\<close>

datatype poll_log = PassComplete enrich_stats | NothingToDo | PassFailed string

definition poll_log_of :: "string + enrich_stats \<Rightarrow> poll_log" where
  "poll_log_of r =
     (case r of
        Inr s \<Rightarrow> if s \<noteq> stats_zero then PassComplete s else NothingToDo
      | Inl e \<Rightarrow> PassFailed e)"

fun spawn_enricher :: "poll_round list \<Rightarrow> stores \<Rightarrow> poll_log list \<times> stores" where
  "spawn_enricher [] stores = ([], stores)"
| "spawn_enricher (r # rs) stores =
     (let (x, s1) = enrich_dirs r (arrive r stores);
          (logs, s2) = spawn_enricher rs s1
      in (poll_log_of x # logs, s2))"

section \<open>One client's view of the loop\<close>

definition polled :: "string \<Rightarrow> poll_round \<Rightarrow> bool" where
  "polled c r \<longleftrightarrow> (case pr_dirs r of Inl e \<Rightarrow> False | Inr dirs \<Rightarrow> c \<in> set dirs)"

definition poll_ok :: "string \<Rightarrow> poll_round \<Rightarrow> bool" where
  "poll_ok c r \<longleftrightarrow>
     env_ok (pr_env r c) \<and> 0 < ee_now (pr_env r c)
     \<and> (case pr_dirs r of Inl e \<Rightarrow> True | Inr dirs \<Rightarrow> distinct dirs)"

lemma enrich_once_stores:
  "snd (enrich_once active xs) = map (\<lambda>(env, s). snd (enrich_client env active s)) xs"
  by (induction xs) (auto simp: split_beta Let_def)

lemma fold_updates_other: "c \<notin> set dirs \<Longrightarrow> fold (\<lambda>(c, s) f. f(c := s)) (zip dirs ss) g c = g c"
proof (induction dirs arbitrary: ss g)
  case (Cons d dirs)
  then show ?case by (cases ss) auto
qed simp

lemma fold_updates_same:
  "distinct dirs \<Longrightarrow> c \<in> set dirs \<Longrightarrow>
     fold (\<lambda>(c, s) f. f(c := s)) (zip dirs (map h dirs)) g c = h c"
  by (induction dirs arbitrary: g) (auto simp: fold_updates_other)

text \<open>A pass treats every client by itself: an error of one ends its own pass only, and a client
  that is not listed is not touched.\<close>

lemma enrich_dirs_client:
  assumes "poll_ok c r"
  shows "snd (enrich_dirs r stores) c =
     (if polled c r then snd (enrich_client (pr_env r c) (pr_spaces r) (stores c)) else stores c)"
proof (cases "pr_dirs r")
  case (Inl e)
  then show ?thesis by (simp add: enrich_dirs_def polled_def)
next
  case (Inr dirs)
  let ?h = "\<lambda>c. snd (enrich_client (pr_env r c) (pr_spaces r) (stores c))"
  obtain stats ss where e: "enrich_once (pr_spaces r) (map (\<lambda>c. (pr_env r c, stores c)) dirs) = (stats, ss)"
    by fastforce
  then have "ss = map ?h dirs"
    using enrich_once_stores [of "pr_spaces r" "map (\<lambda>c. (pr_env r c, stores c)) dirs"] by (simp add: comp_def)
  then show ?thesis
    using assms Inr e fold_updates_same [of dirs c ?h stores] fold_updates_other [of c dirs ss stores]
    by (simp add: enrich_dirs_def polled_def poll_ok_def)
qed

definition with_arrivals :: "window_capture_record list \<Rightarrow> enrich_state \<Rightarrow> enrich_state" where
  "with_arrivals recs s = s\<lparr>es_ukg := insert_all recs (es_ukg s)\<rparr>"

lemma with_arrivals_append: "with_arrivals (xs @ ys) s = with_arrivals ys (with_arrivals xs s)"
  by (simp add: with_arrivals_def insert_all_def)

text \<open>The loop, seen from one client, is a sequence of rounds of ingestion and enrichment, one for
  each poll that lists it.\<close>

lemma spawn_enricher_rounds:
  assumes "list_all (poll_ok c) rs" "stores c = with_arrivals pre s"
    and "\<And>r recs. r \<in> set rs \<Longrightarrow> polled c r \<Longrightarrow> P (pr_env r c, pr_spaces r, recs)"
  shows "\<exists>rounds tail. list_all P rounds \<and> length rounds = length (filter (polled c) rs)
     \<and> snd (spawn_enricher rs stores) c = with_arrivals tail (enrichment.run rounds s)"
  using assms
proof (induction rs arbitrary: stores pre s)
  case Nil
  then show ?case by (intro exI [of _ "[]"] exI [of _ pre]) (simp add: enrichment.run_simps)
next
  case (Cons r rs)
  let ?s1 = "snd (enrich_dirs r (arrive r stores))"
  let ?pre = "pre @ pr_arrivals r c"
  have ok: "poll_ok c r" "list_all (poll_ok c) rs" using Cons.prems(1) by simp_all
  have P: "r \<in> set rs \<Longrightarrow> polled c r \<Longrightarrow> P (pr_env r c, pr_spaces r, recs)" for r recs
    using Cons.prems(3) by simp
  have arr: "arrive r stores c = with_arrivals ?pre s"
    using Cons.prems(2) by (simp add: arrive_def with_arrivals_append) (simp add: with_arrivals_def)
  have final: "snd (spawn_enricher (r # rs) stores) = snd (spawn_enricher rs ?s1)"
    by (simp add: split_beta Let_def)
  show ?case
  proof (cases "polled c r")
    case True
    let ?rd = "(pr_env r c, pr_spaces r, ?pre)"
    have "?s1 c = with_arrivals [] (enrich_round ?rd s)"
      using enrich_dirs_client [OF ok(1)] True arr
      by (simp add: enrich_round_def with_arrivals_def insert_all_def)
    from Cons.IH [of ?s1, OF ok(2) this P] obtain rounds tail where
      "list_all P rounds" "length rounds = length (filter (polled c) rs)"
      "snd (spawn_enricher rs ?s1) c
         = with_arrivals tail (enrichment.run rounds (enrich_round ?rd s))" by blast
    moreover have "P ?rd" using Cons.prems(3) True by simp
    ultimately show ?thesis
      using True unfolding final by (intro exI [of _ "?rd # rounds"] exI [of _ tail]) (simp add: enrichment.run_simps)
  next
    case False
    then have "?s1 c = with_arrivals ?pre s" using enrich_dirs_client [OF ok(1)] arr by simp
    from Cons.IH [of ?s1, OF ok(2) this P] show ?thesis using False unfolding final by simp
  qed
qed

text \<open>No fresh capture is starved by the background worker: whatever arrives between the polls,
  whatever the embedder answers, and whatever becomes of the other clients' stores, a capture of
  client \<open>c\<close> that was never attempted is attempted after at most one poll of its directory more
  than a sixty-fourth of the untried captures before it. (The queue is limited to 64, and each
  pass moves the clock of what it selected. Polls that cannot read the data root do not count.)\<close>

lemma polled_captures_not_starved:
  assumes "live_inv (stores c)" "i \<in> set (capture_ids (es_ukg (stores c)))"
    and "unprocessed i (es_ukg (stores c))" "list_all (poll_ok c) rs"
    and "card (ahead_of i (stores c)) < 64 * length (filter (polled c) rs)"
  shows "attempted (snd (spawn_enricher rs stores) c) i"
proof -
  let ?run = "\<lambda>rounds. enrichment.run rounds (stores c)"
  have "stores c = with_arrivals [] (stores c)" by (simp add: with_arrivals_def insert_all_def)
  moreover have "round_ok (pr_env r c, pr_spaces r, recs)" if "r \<in> set rs" for r recs
    using assms(4) that by (auto simp: list_all_iff round_ok_def poll_ok_def)
  ultimately obtain rounds tail
    where r: "list_all round_ok rounds" "length rounds = length (filter (polled c) rs)"
      "snd (spawn_enricher rs stores) c = with_arrivals tail (?run rounds)"
    using spawn_enricher_rounds [OF assms(4), where P = round_ok] by blast
  have "attempted (?run rounds) i"
  proof (cases "attempted (stores c) i")
    case True
    then show ?thesis by (rule enrichment.run_served [OF assms(1) r(1)])
  next
    case False
    then have "waiting i (stores c)" using assms(2,3) by (simp add: waiting_def)
    then show ?thesis
      by (rule enrichment.served_in_rounds [OF assms(1) r(1)]) (use assms(5) r(2) in simp)
  qed
  then show ?thesis
    using enrichment.run_inv [OF assms(1) r(1)] later_insert_all [of "es_ukg (?run rounds)" tail] unfolding r(3)
    by (simp add: attempted_def with_arrivals_def live_inv_def enrich_inv_def later_captures_def)
qed

text \<open>The same bound for the vectors, as long as the service answers.\<close>

lemma polled_captures_enriched:
  assumes "live_inv (stores c)" "awaits t tok ocr i (stores c)" "list_all (poll_ok c) rs"
    and "card (ahead_of i (stores c)) < 64 * length (filter (polled c) rs)"
    and "\<forall>r \<in> set rs. polled c r \<longrightarrow>
       pr_spaces r = Some (st, si) \<and> answers st si (pr_env r c) \<and> readable_in (pr_env r c) t tok"
  shows "enriched st si tok ocr i (snd (spawn_enricher rs stores) c) \<and> live_inv (snd (spawn_enricher rs stores) c)"
proof -
  let ?run = "\<lambda>rounds. enrichment.run rounds (stores c)"
  have "stores c = with_arrivals [] (stores c)" by (simp add: with_arrivals_def insert_all_def)
  moreover have "serving st si t tok (pr_env r c, pr_spaces r, recs)" if "r \<in> set rs" "polled c r" for r recs
    using assms(3,5) that by (auto simp: list_all_iff serving_def round_ok_def poll_ok_def)
  ultimately obtain rounds tail
    where r: "list_all (serving st si t tok) rounds" "length rounds = length (filter (polled c) rs)"
      "snd (spawn_enricher rs stores) c = with_arrivals tail (?run rounds)"
    using spawn_enricher_rounds [OF assms(3), where P = "serving st si t tok"] by blast
  have "enriched st si tok ocr i (?run rounds)"
    by (rule completion.served_in_rounds [OF assms(1) r(1) assms(2)]) (use assms(4) r(2) in simp)
  moreover have "live_inv (?run rounds)" by (rule completion.run_inv [OF assms(1) r(1)])
  ultimately show ?thesis
    unfolding r(3) with_arrivals_def by (simp add: ingest_enriched ingest_inv)
qed

section \<open>Property\<close>

text \<open>C34. The background worker serves every fresh capture, within a bound. Whatever arrives between the
  polls, and whatever becomes of the other clients' stores, a capture of client \<open>c\<close> that was never
  attempted is attempted after at most one poll of its directory more than a sixty-fourth of the
  untried captures before it; that holds whatever the embedder answers. (The queue is limited to
  64, and each pass moves the clock of what it selected. Polls that cannot read the data root do
  not count.) If meanwhile the service answers in the spaces it announces and the capture's
  screenshot can be read, the capture is then marked processed, with its text vector in the text
  store if it has text, and its image vector in the image store if it has an image.\<close>

theorem polled_captures_served:
  assumes "live_inv (stores c)" "waiting i (stores c)" "list_all (poll_ok c) rs"
    and "card (ahead_of i (stores c)) < 64 * length (filter (polled c) rs)"
  shows "case snd (spawn_enricher rs stores) c of s' \<Rightarrow>
     attempted s' i
     \<and> (awaits t tok ocr i (stores c)
          \<and> (\<forall>r \<in> set rs. polled c r \<longrightarrow>
               pr_spaces r = Some (st, si) \<and> answers st si (pr_env r c) \<and> readable_in (pr_env r c) t tok) \<longrightarrow>
        processed i (es_ukg s')
        \<and> (ocr \<noteq> [] \<longrightarrow> has_item (item_id_for_capture i) (es_text s') = Inr True)
        \<and> (tok \<noteq> None \<longrightarrow> has_item (item_id_for_capture i) (es_image s') = Inr True))"
proof -
  let ?s' = "snd (spawn_enricher rs stores) c"
  have "attempted ?s' i"
    using assms by (intro polled_captures_not_starved) (simp_all add: waiting_def)
  moreover have "processed i (es_ukg ?s') \<and> (ocr \<noteq> [] \<longrightarrow> has_item (item_id_for_capture i) (es_text ?s') = Inr True)
        \<and> (tok \<noteq> None \<longrightarrow> has_item (item_id_for_capture i) (es_image ?s') = Inr True)"
    if "awaits t tok ocr i (stores c)" "\<forall>r \<in> set rs. polled c r \<longrightarrow>
      pr_spaces r = Some (st, si) \<and> answers st si (pr_env r c) \<and> readable_in (pr_env r c) t tok"
    using polled_captures_enriched [where stores = stores and c = c, OF assms(1) that(1) assms(3,4) that(2)]
    by (auto simp: enriched_def pass_facts_def live_inv_def enrich_inv_def has_item_iff)
  ultimately show ?thesis by auto
qed

definition example_shot :: window_capture_record where
  "example_shot = example_capture\<lparr>wcr_regions := [\<lparr>sreg_region_kind = ''ocr'', sreg_ocr_text = Some ''hi'', sreg_bounds = ''''\<rparr>]\<rparr>"

definition example_fresh :: enrich_state where
  "example_fresh = example_state\<lparr>es_ukg := snd (insert_capture example_shot ukg_new)\<rparr>"

definition answering_env :: enrich_env where
  "answering_env =
     example_env\<lparr>ee_embed_text := (\<lambda>_ _. EmbedOk [0, 0] ''a''), ee_embed_image := (\<lambda>_ _. EmbedOk [0, 0] ''b''),
       ee_fs := snd (store_put ''c'' (ymd_from_filetime 7, ''t'', ''jpg'') (replicate 12 0, [255])
         (\<lparr>os_root = [''d'', ''objects''], os_cipher = Some \<lparr>env_aead = example_aead, env_key = []\<rparr>\<rparr>,
          \<lparr>fs_files = Map.empty, fs_fault = (\<lambda>_. False)\<rparr>))\<rparr>"

lemma example_fresh_live:
  "live_inv example_fresh" "awaits 7 (Some ''t'') ''hi'' 1 example_fresh" "ahead_of 1 example_fresh = {}"
proof -
  let ?u = "snd (insert_capture example_shot ukg_new)"
  have rows: "tbl_rows (uk_captures ?u) = [(1, capture_row_of example_shot)]" "uk_attempts ?u = []"
    "uk_image_state ?u = []" "ocr_text 1 ?u = ''hi''"
    by code_simp+
  have "ukg_ok ?u" using insert_capture_ok [OF ukg_ok_new] by (metis prod.collapse)
  then show "live_inv example_fresh"
    using example_inv(1) rows(2,3)
    by (simp add: live_inv_def enrich_inv_def example_fresh_def example_state_def image_states_ok_def)
  show "awaits 7 (Some ''t'') ''hi'' 1 example_fresh" "ahead_of 1 example_fresh = {}"
    using rows
    by (auto simp: awaits_def waiting_def attempted_def unprocessed_def refused_def image_embedding_state_def
        prior_state_def has_row_def example_fresh_def capture_ids_def tbl_ids_def capture_row_of_def ahead_of_def
        example_shot_def example_capture_def timestamp_i64_def)
qed

lemma answering_env_serves:
  "answers ''a'' ''b'' answering_env" "readable_in answering_env 7 (Some ''t'')" "env_ok answering_env"
proof -
  let ?st = "\<lparr>os_root = [''d'', ''objects''], os_cipher = Some \<lparr>env_aead = example_aead, env_key = []\<rparr>\<rparr>"
  let ?fs = "\<lparr>fs_files = Map.empty, fs_fault = (\<lambda>_. False)\<rparr>"
  have fs: "(?st, ee_fs answering_env) =
      store_put (ee_client answering_env) (ymd_from_filetime 7, ''t'', ''jpg'') (replicate 12 0, [255]) (?st, ?fs)"
    by (simp add: answering_env_def example_env_def store_put_def)
  have "store_ready (ee_client answering_env) (?st, ?fs)"
    using example_aead_correct
    by (simp add: store_ready_def sound_store_def no_faults_def answering_env_def example_env_def
        plain_component_def clean_def clean_char_def ascii_alnum_def)
  from screenshot_put [OF this _ fs] have shot: "screenshot answering_env ?st 7 ''t'' = Some [255]" by simp
  have "\<not> fs_fault (ee_fs answering_env) p" for p
    by (simp add: answering_env_def store_put_def obj_put_no_faults no_faults_def)
  moreover have "ee_base answering_env = [''d'']" "ee_aead answering_env = example_aead" "ee_object_key answering_env = []"
    by (simp_all add: answering_env_def example_env_def)
  ultimately show "env_ok answering_env" "readable_in answering_env 7 (Some ''t'')"
    using shot by (simp_all add: env_ok_def readable_in_def object_store_encrypted_def object_store_open_def
        fs_create_dir_all_def)
  show "answers ''a'' ''b'' answering_env"
    by (simp add: answers_def answering_env_def example_env_def)
qed

theorem polled_captures_served_witness:
  "let s' = snd (spawn_enricher
     [\<lparr>pr_arrivals = (\<lambda>c. []), pr_dirs = Inl ''denied'', pr_spaces = None, pr_env = (\<lambda>c. answering_env)\<rparr>,
      \<lparr>pr_arrivals = (\<lambda>c. []), pr_dirs = Inr [''o'', ''c''], pr_spaces = Some (''a'', ''b''),
       pr_env = (\<lambda>c. answering_env)\<rparr>]
     (\<lambda>c. example_fresh)) ''c''
   in attempted s' 1 \<and> processed 1 (es_ukg s') \<and> has_item (item_id_for_capture 1) (es_text s') = Inr True
      \<and> has_item (item_id_for_capture 1) (es_image s') = Inr True"
proof -
  let ?rs = "[\<lparr>pr_arrivals = (\<lambda>c. []), pr_dirs = Inl ''denied'', pr_spaces = None, pr_env = (\<lambda>c. answering_env)\<rparr>,
      \<lparr>pr_arrivals = (\<lambda>c. []), pr_dirs = Inr [''o'', ''c''], pr_spaces = Some (''a'', ''b''),
       pr_env = (\<lambda>c. answering_env)\<rparr>]"
  have "waiting 1 example_fresh" using example_fresh_live(2) by (simp add: awaits_def)
  moreover have "0 < ee_now answering_env" by (simp add: answering_env_def example_env_def)
  ultimately show ?thesis
    using polled_captures_served [where stores = "\<lambda>c. example_fresh" and c = "''c''" and i = 1 and rs = ?rs
        and t = 7 and tok = "Some ''t''" and ocr = "''hi''" and st = "''a''" and si = "''b''"]
      example_fresh_live answering_env_serves
    by (simp add: poll_ok_def polled_def)
qed

end
