(* ===== verification/Api_Search.thy ===== *)
theory Api_Search
  imports Broker_Ingest Ukg_Queries Embedder Enricher
begin

text \<open>
  The HTTP surface (\<open>precall-api/src/routes.rs\<close>), first part: what a request works on, and
  \<open>POST /search\<close>. A request sees the disk the broker writes. The libraries behind a request (the
  UUID and base64 parsers, the FTS5 engine, the order in which a hash
  map yields its values) are fields of \<open>api_libs\<close>. Fused scores are sums of fractions; the code
  adds them as \<open>f64\<close>.
\<close>

section \<open>State\<close>

record api_state =
  ap_data_root :: path
  ap_embedder :: embedder
  ap_object_key :: bytes
  ap_auth :: api_auth
  ap_embedding_dim :: nat

record api_libs =
  al_parse_uuid :: "string \<Rightarrow> uuid option"
  al_base64 :: "string \<Rightarrow> string + bytes"
  al_fts :: fts_engine
  al_map_values :: "(int \<times> search_hit) list \<Rightarrow> search_hit list"
  al_aead :: aead

fun ukg_error_text :: "ukg_error \<Rightarrow> string" where
  "ukg_error_text (UkgSql e) = ''sqlite: '' @ e"
| "ukg_error_text (UkgJson e) = ''json: '' @ e"

fun semantic_error_text :: "semantic_error \<Rightarrow> string" where
  "semantic_error_text (SemSql e) = ''sqlite: '' @ e"
| "semantic_error_text (DimMismatch expected got) =
     ''dimension mismatch: expected '' @ dec_digits expected @ '', got '' @ dec_digits got"
| "semantic_error_text BadItemId = ''item id must be 16 bytes''"

section \<open>Helpers\<close>

text \<open>A client's database and directory are there when the broker has opened its store.\<close>

definition client_db :: "api_libs \<Rightarrow> broker_disk \<Rightarrow> string \<Rightarrow> api_error + uuid \<times> client_dbs" where
  "client_db libs d client =
     (case al_parse_uuid libs client of
        None \<Rightarrow> Inl (BadRequest ''client must be a uuid'')
      | Some cid \<Rightarrow>
          (case map_of (bd_clients d) cid of
             None \<Rightarrow> Inl (NotFound (''unknown client '' @ client))
           | Some dbs \<Rightarrow> Inr (cid, dbs)))"

definition client_dir :: "api_libs \<Rightarrow> api_state \<Rightarrow> broker_disk \<Rightarrow> string \<Rightarrow> api_error + path" where
  "client_dir libs st d client =
     (case al_parse_uuid libs client of
        None \<Rightarrow> Inl (BadRequest ''client must be a uuid'')
      | Some cid \<Rightarrow>
          (case map_of (bd_clients d) cid of
             None \<Rightarrow> Inl (NotFound (''unknown client '' @ client))
           | Some dbs \<Rightarrow> Inr (ap_data_root st @ [cid])))"

text \<open>\<open>str::split_once\<close>: what is before and after the first occurrence of the pattern.\<close>

fun split_once :: "string \<Rightarrow> string \<Rightarrow> (string \<times> string) option" where
  "split_once pat [] = (if pat = [] then Some ([], []) else None)"
| "split_once pat (c # cs) =
     (if starts_with pat (c # cs) then Some ([], drop (length pat) (c # cs))
      else map_option (\<lambda>(a, b). (c # a, b)) (split_once pat cs))"

definition decode_image_query :: "api_libs \<Rightarrow> string \<Rightarrow> api_error + bytes" where
  "decode_image_query libs s0 =
     (let s = trim s0 in
      rbind (case strip_prefix ''data:'' s of
               Some rest \<Rightarrow>
                 (case split_once ''base64,'' rest of
                    Some (_, b) \<Rightarrow> Inr b
                  | None \<Rightarrow> Inl (BadRequest ''data URL must be base64-encoded''))
             | None \<Rightarrow> Inr s) (\<lambda>b64.
      case al_base64 libs (trim b64) of
        Inl e \<Rightarrow> Inl (BadRequest (''image is not valid base64: '' @ e))
      | Inr raw \<Rightarrow> Inr raw))"

section \<open>Fusion\<close>

definition RRF_K :: rat where "RRF_K = 60"
definition FUSION_POOL_FACTOR :: int where "FUSION_POOL_FACTOR = 4"

definition fusion_pool :: "int \<Rightarrow> int" where
  "fusion_pool limit = clamp limit 500 (limit * FUSION_POOL_FACTOR)"

datatype space_verdict = SpaceOk | SpaceMismatch string

definition index_space_verdict :: "semantic_index \<Rightarrow> string \<Rightarrow> space_verdict" where
  "index_space_verdict idx query_space =
     (case space_id idx of
        Some stored \<Rightarrow>
          if stored \<noteq> query_space \<and> stored \<noteq> SPACE_UNKNOWN then SpaceMismatch stored else SpaceOk
      | None \<Rightarrow> SpaceOk)"

text \<open>\<open>score <= 0.0\<close> on the bits of an \<open>f32\<close>: both zeros, and what is negative and not NaN.\<close>

definition f32_not_positive :: "f32 \<Rightarrow> bool" where
  "f32_not_positive w \<longleftrightarrow> w = 0 \<or> (bit w 31 \<and> w AND 0x7FFFFFFF \<le> 0x7F800000)"

definition semantic_candidates :: "ukg \<Rightarrow> embedding_hit list \<Rightarrow> int list \<times> (int \<times> search_hit) list" where
  "semantic_candidates u semantic =
     (let ids = foldl (\<lambda>ids h.
            if f32_not_positive (eh_score h) then ids
            else case capture_id_for_item (eh_item_id h) of
                   None \<Rightarrow> ids
                 | Some i \<Rightarrow> if i \<in> set ids then ids else ids @ [i]) [] semantic
      in (ids, captures_by_ids ids u))"

datatype skip_reason =
    WrongWidth nat nat
  | OtherSpace string string
  | NoEmbedder
  | NoAnswer

text \<open>What the legs of a search accumulate: the hits, the ranked ids per leg, the ids of the
  lexical leg, the names of the legs that ran, and the legs that were skipped with the reason.\<close>

record search_acc =
  sa_hits :: "(int \<times> search_hit) list"
  sa_leg_ranks :: "int list list"
  sa_fts_ids :: "int list"
  sa_legs :: "string list"
  sa_notes :: "(string \<times> skip_reason) list"

definition search_start :: search_acc where
  "search_start = \<lparr>sa_hits = [], sa_leg_ranks = [], sa_fts_ids = [], sa_legs = [], sa_notes = []\<rparr>"

definition or_insert :: "'k \<Rightarrow> 'v \<Rightarrow> ('k \<times> 'v) list \<Rightarrow> ('k \<times> 'v) list" where
  "or_insert k v m = (case map_of m k of None \<Rightarrow> m @ [(k, v)] | Some _ \<Rightarrow> m)"

definition absorb_semantic_leg :: "string \<Rightarrow> ukg \<Rightarrow> embedding_hit list \<Rightarrow> search_acc \<Rightarrow> search_acc" where
  "absorb_semantic_leg leg u found acc =
     (case semantic_candidates u found of
        (ids, meta) \<Rightarrow>
          acc\<lparr>sa_hits := foldl (\<lambda>hits i. case map_of meta i of None \<Rightarrow> hits | Some h \<Rightarrow> or_insert i h hits)
                 (sa_hits acc) ids,
              sa_leg_ranks := sa_leg_ranks acc @ [ids], sa_legs := sa_legs acc @ [leg]\<rparr>)"

text \<open>\<open>*fused.entry(id).or_insert(0.0) += 1.0 / (RRF_K + rank as f64 + 1.0)\<close>.\<close>

definition add_rank :: "nat \<times> int \<Rightarrow> (int \<times> rat) list \<Rightarrow> (int \<times> rat) list" where
  "add_rank p fused =
     (case p of (rank, i) \<Rightarrow>
        AList.update i
          ((case map_of fused i of None \<Rightarrow> 0 | Some s \<Rightarrow> s) + 1 / (RRF_K + of_nat rank + 1)) fused)"

definition reciprocal_rank_fusion :: "int list list \<Rightarrow> (int \<times> rat) list" where
  "reciprocal_rank_fusion leg_ranks =
     foldl (\<lambda>fused ids. foldl (\<lambda>fused p. add_rank p fused) fused (enumerate 0 ids)) [] leg_ranks"

section \<open>Search\<close>

record search_body =
  sb_client :: string
  sb_query :: string
  sb_time_range :: "(int option \<times> int option) option"
  sb_app_filter :: "string list"
  sb_limit :: "int option"
  sb_mode :: "string option"
  sb_image :: "string option"

record search_response =
  sr_results :: "search_hit list"
  sr_legs :: "string list"
  sr_notes :: "(string \<times> skip_reason) list"

definition body_mode :: "search_body \<Rightarrow> string" where
  "body_mode body = or_default ''hybrid'' (sb_mode body)"

definition has_query :: "search_body \<Rightarrow> bool" where
  "has_query body \<longleftrightarrow> trim (sb_query body) \<noteq> []"

definition image_b64 :: "search_body \<Rightarrow> string option" where
  "image_b64 body =
     (case map_option trim (sb_image body) of
        Some s \<Rightarrow> if s \<noteq> [] then Some s else None
      | None \<Rightarrow> None)"

definition search_validate :: "search_body \<Rightarrow> api_error + unit" where
  "search_validate body =
     (let mode = body_mode body; image = image_b64 body
      in if \<not> has_query body \<and> image = None then
           Inl (BadRequest ''query must not be empty (or supply an image)'')
         else if mode \<notin> set [''hybrid'', ''fts'', ''semantic'', ''image''] then
           Inl (BadRequest (''unknown mode '' @ [dquote] @ mode @ [dquote]))
         else if mode = ''image'' \<and> image = None then
           Inl (BadRequest ''mode=image requires an image query'')
         else if mode = ''fts'' \<and> image \<noteq> None then
           Inl (BadRequest ''an image query needs mode hybrid, semantic or image'')
         else Inr ())"

definition body_limit :: "search_body \<Rightarrow> int" where
  "body_limit body = clamp 1 200 (or_default 20 (sb_limit body))"

definition body_range :: "search_body \<Rightarrow> int option \<times> int option" where
  "body_range body = or_default (None, None) (sb_time_range body)"

definition body_filter :: "search_body \<Rightarrow> ukg \<Rightarrow> int list option" where
  "body_filter body u =
     capture_ids_matching_filters (fst (body_range body)) (snd (body_range body)) (sb_app_filter body) u"

definition body_pool :: "search_body \<Rightarrow> nat" where
  "body_pool body = nat (fusion_pool (body_limit body))"

text \<open>The four legs, each an update of the accumulator that may end the request.\<close>

definition fts_leg :: "api_libs \<Rightarrow> search_body \<Rightarrow> ukg \<Rightarrow> search_acc \<Rightarrow> api_error + search_acc" where
  "fts_leg libs body u acc =
     (if (body_mode body = ''hybrid'' \<or> body_mode body = ''fts'') \<and> has_query body then
        (case search_fts (al_fts libs)
                \<lparr>so_query = fts_escape (sb_query body), so_start_100ns = fst (body_range body),
                 so_end_100ns = snd (body_range body), so_app_filter = sb_app_filter body,
                 so_limit = Some (fusion_pool (body_limit body))\<rparr> u of
           Inl e \<Rightarrow> Inl (ApiStore (ukg_error_text e))
         | Inr found \<Rightarrow>
             Inr (acc\<lparr>sa_hits := foldl (\<lambda>hits h. AList.update (hit_window_capture_id h) h hits) (sa_hits acc) found,
                      sa_fts_ids := map hit_window_capture_id found,
                      sa_leg_ranks := sa_leg_ranks acc @ [map hit_window_capture_id found],
                      sa_legs := sa_legs acc @ [''fts'']\<rparr>))
      else Inr acc)"

text \<open>The search of a store whose space and width fit, shared by the three semantic legs.\<close>

definition scan_leg ::
  "string \<Rightarrow> api_libs \<Rightarrow> search_body \<Rightarrow> ukg \<Rightarrow> semantic_index \<Rightarrow> f32 list \<Rightarrow> search_acc \<Rightarrow> api_error + search_acc" where
  "scan_leg leg libs body u idx emb acc =
     (case semantic_search emb (body_pool body) (body_filter body u) idx of
        Inl e \<Rightarrow> Inl (ApiSemantic (semantic_error_text e))
      | Inr found \<Rightarrow> Inr (absorb_semantic_leg leg u found acc))"

definition skip :: "string \<Rightarrow> skip_reason \<Rightarrow> search_acc \<Rightarrow> search_acc" where
  "skip leg reason acc = acc\<lparr>sa_notes := sa_notes acc @ [(leg, reason)]\<rparr>"

text \<open>A text query against the text space, or (\<open>image-text\<close>) against the image space.\<close>

definition query_leg ::
  "string \<Rightarrow> embed_outcome \<Rightarrow> api_libs \<Rightarrow> api_state \<Rightarrow> search_body \<Rightarrow> ukg \<Rightarrow> semantic_index \<Rightarrow> search_acc
     \<Rightarrow> api_error + search_acc" where
  "query_leg leg outcome libs st body u store acc =
     (case outcome of
        EmbedOk emb space \<Rightarrow>
          (let idx = semantic_open (ap_embedding_dim st) SPACE_UNKNOWN store in
           case index_space_verdict idx space of
             SpaceOk \<Rightarrow>
               if length emb \<noteq> ap_embedding_dim st
               then Inr (skip leg (WrongWidth (length emb) (ap_embedding_dim st)) acc)
               else scan_leg leg libs body u idx emb acc
           | SpaceMismatch stored \<Rightarrow> Inr (skip leg (OtherSpace stored space) acc))
      | EmbedDisabled \<Rightarrow> Inr (skip leg NoEmbedder acc)
      | EmbedRejected \<Rightarrow> Inr (skip leg NoAnswer acc)
      | EmbedRetry \<Rightarrow> Inr (skip leg NoAnswer acc))"

definition text_query :: "search_body \<Rightarrow> bool" where
  "text_query body \<longleftrightarrow> (body_mode body = ''hybrid'' \<or> body_mode body = ''semantic'') \<and> has_query body"

definition text_semantic_leg ::
  "api_libs \<Rightarrow> api_state \<Rightarrow> search_body \<Rightarrow> ukg \<Rightarrow> semantic_index \<Rightarrow> search_acc \<Rightarrow> api_error + search_acc" where
  "text_semantic_leg libs st body u store acc =
     (if text_query body
      then query_leg ''text-semantic'' (embed_text (ap_embedder st) (sb_query body)) libs st body u store acc
      else Inr acc)"

definition image_text_leg ::
  "api_libs \<Rightarrow> api_state \<Rightarrow> search_body \<Rightarrow> ukg \<Rightarrow> semantic_index \<Rightarrow> search_acc \<Rightarrow> api_error + search_acc" where
  "image_text_leg libs st body u store acc =
     (if text_query body
      then query_leg ''image-text'' (embed_image_text (ap_embedder st) (sb_query body)) libs st body u store acc
      else Inr acc)"

definition image_query_leg ::
  "api_libs \<Rightarrow> api_state \<Rightarrow> search_body \<Rightarrow> ukg \<Rightarrow> semantic_index \<Rightarrow> search_acc \<Rightarrow> api_error + search_acc" where
  "image_query_leg libs st body u store acc =
     (case image_b64 body of
        None \<Rightarrow> Inr acc
      | Some b64 \<Rightarrow>
          rbind (decode_image_query libs b64) (\<lambda>raw.
            if raw = [] then Inl (BadRequest ''image query is empty'')
            else case embed_image (ap_embedder st) raw of
                   EmbedOk emb space \<Rightarrow>
                     (let idx = semantic_open (ap_embedding_dim st) SPACE_UNKNOWN store in
                      case index_space_verdict idx space of
                        SpaceOk \<Rightarrow>
                          if length emb \<noteq> ap_embedding_dim st then
                            Inl (Unavailable (''the AI service returned '' @ dec_digits (length emb)
                              @ '' values for this image, expected '' @ dec_digits (ap_embedding_dim st)))
                          else scan_leg ''image-semantic'' libs body u idx emb acc
                      | SpaceMismatch stored \<Rightarrow> Inr (skip ''image-semantic'' (OtherSpace stored space) acc))
                 | EmbedDisabled \<Rightarrow> Inl (BadRequest ''image embedding unavailable (no embedder configured)'')
                 | EmbedRejected \<Rightarrow> Inl (BadRequest ''the AI service refused this image (undecodable frame?)'')
                 | EmbedRetry \<Rightarrow> Inl (Unavailable ''the AI service is not answering; image search needs it'')))"

text \<open>The comparator of the result list: score, then the lexical leg, then recency.\<close>

definition result_key :: "int list \<Rightarrow> search_hit \<Rightarrow> rat \<times> bool \<times> int" where
  "result_key fts_ids h =
     (- hit_score h, hit_window_capture_id h \<notin> set fts_ids, - hit_timestamp_100ns h)"

definition fuse_results :: "api_libs \<Rightarrow> int \<Rightarrow> search_acc \<Rightarrow> search_response" where
  "fuse_results libs limit acc =
     (let fused = reciprocal_rank_fusion (sa_leg_ranks acc);
          scored = map (\<lambda>(i, h). (i, h\<lparr>hit_score := or_default 0 (map_of fused i)\<rparr>)) (sa_hits acc);
          kept = [p\<leftarrow>scored. map_of fused (fst p) \<noteq> None];
          results = sort_key (result_key (sa_fts_ids acc)) (al_map_values libs kept)
      in \<lparr>sr_results = take (nat limit) results, sr_legs = sa_legs acc, sr_notes = sa_notes acc\<rparr>)"

definition search ::
  "api_libs \<Rightarrow> api_state \<Rightarrow> broker_disk \<Rightarrow> search_body \<Rightarrow> api_error + search_response" where
  "search libs st d body =
     rbind (search_validate body) (\<lambda>_.
     rbind (client_db libs d (sb_client body)) (\<lambda>(cid, dbs).
     let u = db_ukg dbs in
     rbind (fts_leg libs body u search_start) (\<lambda>acc1.
     rbind (client_dir libs st d (sb_client body)) (\<lambda>_.
     rbind (text_semantic_leg libs st body u (db_text dbs) acc1) (\<lambda>acc2.
     rbind (image_query_leg libs st body u (db_image dbs) acc2) (\<lambda>acc3.
     rbind (image_text_leg libs st body u (db_image dbs) acc3) (\<lambda>acc4.
     Inr (fuse_results libs (body_limit body) acc4))))))))"

section \<open>The answer as it is sent\<close>

record search_item =
  it_window_capture_id :: int
  it_timestamp_100ns :: int
  it_window_title :: "string option"
  it_app_name :: "string option"
  it_screenshot_url :: string
  it_ocr_text_preview :: "string option"
  it_relevance_score :: rat
  it_activation_uri :: "string option"

definition search_item_of :: "string \<Rightarrow> search_hit \<Rightarrow> search_item" where
  "search_item_of client h =
     \<lparr>it_window_capture_id = hit_window_capture_id h, it_timestamp_100ns = hit_timestamp_100ns h,
      it_window_title = hit_window_title h, it_app_name = hit_app_name h,
      it_screenshot_url = ''/api/v1/snapshot/'' @ fmt_int 0 (hit_window_capture_id h) @ ''?client='' @ client,
      it_ocr_text_preview = hit_ocr_preview h, it_relevance_score = hit_score h,
      it_activation_uri = hit_activation_uri h\<rparr>"

text \<open>The notes are a field of the object only when there are any.\<close>

record search_reply =
  rp_results :: "search_item list"
  rp_legs :: "string list"
  rp_notes :: "(string \<times> skip_reason) list option"

definition search_reply_of :: "search_body \<Rightarrow> search_response \<Rightarrow> search_reply" where
  "search_reply_of body r =
     \<lparr>rp_results = map (search_item_of (sb_client body)) (sr_results r), rp_legs = sr_legs r,
      rp_notes = (if sr_notes r = [] then None else Some (sr_notes r))\<rparr>"

definition search_route ::
  "api_libs \<Rightarrow> api_state \<Rightarrow> broker_disk \<Rightarrow> search_body \<Rightarrow> api_error + search_reply" where
  "search_route libs st d body = rbind (search libs st d body) (\<lambda>r. Inr (search_reply_of body r))"

end
