(* ===== verification/Api_Routes.thy ===== *)
theory Api_Routes
  imports Api_Search
begin

text \<open>
  The HTTP surface (\<open>precall-api/src/routes.rs\<close>), second part: every route but the search. A
  route returns the value it serialises, or the error that becomes the status of the response;
  the one route that writes also returns the disk it leaves.
\<close>

section \<open>Reading routes\<close>

definition timeline_route ::
  "api_libs \<Rightarrow> broker_disk \<Rightarrow> string \<Rightarrow> int option \<Rightarrow> int option \<Rightarrow> api_error + timeline_entry list" where
  "timeline_route libs d client before limit =
     rbind (client_db libs d client) (\<lambda>(cid, dbs).
       Inr (timeline before (clamp 1 500 (or_default 50 limit)) (db_ukg dbs)))"

fun api_io_error :: "object_error \<Rightarrow> api_error" where
  "api_io_error (OIo e) = ApiIo e"
| "api_io_error e = ApiObjects (object_error_text e)"

definition api_objects :: "api_libs \<Rightarrow> api_state \<Rightarrow> path \<Rightarrow> broker_disk \<Rightarrow> api_error + object_store" where
  "api_objects libs st dir d =
     (case object_store_encrypted (al_aead libs) (dir @ [''objects'']) (ap_object_key st) (bd_fs d) of
        Inl e \<Rightarrow> Inl (api_io_error e)
      | Inr objects \<Rightarrow> Inr objects)"

text \<open>The loop over the extensions. The path is made from the client text of the request.\<close>

fun snapshot_object ::
  "string list \<Rightarrow> object_store \<Rightarrow> string \<Rightarrow> int \<Rightarrow> string \<Rightarrow> broker_disk \<Rightarrow> api_error + string \<times> bytes" where
  "snapshot_object [] objects client ts token d = Inl (NotFound ''image object missing'')"
| "snapshot_object (ext # exts) objects client ts token d =
     (let rel = key_path client (ymd_from_filetime ts) token ext
      in if obj_exists objects rel (bd_fs d) then
           (case obj_get objects client rel token (bd_fs d) of
              Inl e \<Rightarrow> Inl (ApiObjects (object_error_text e))
            | Inr data \<Rightarrow>
                Inr (if ext = ''jpg'' then ''image/jpeg'' else ''application/octet-stream'', data))
         else snapshot_object exts objects client ts token d)"

definition snapshot ::
  "api_libs \<Rightarrow> api_state \<Rightarrow> broker_disk \<Rightarrow> int \<Rightarrow> string \<Rightarrow> api_error + string \<times> bytes" where
  "snapshot libs st d i client =
     rbind (client_db libs d client) (\<lambda>(cid, dbs).
     case image_token i (db_ukg dbs) of
       None \<Rightarrow> Inl (NotFound ''no such capture'')
     | Some token \<Rightarrow>
         (case capture_timestamp i (db_ukg dbs) of
            None \<Rightarrow> Inl (NotFound ''no such capture'')
          | Some ts \<Rightarrow>
              rbind (client_dir libs st d client) (\<lambda>dir.
              rbind (api_objects libs st dir d) (\<lambda>objects.
              snapshot_object [''jpg'', ''raw''] objects client ts token d))))"

definition regions_route ::
  "api_libs \<Rightarrow> broker_disk \<Rightarrow> int \<Rightarrow> string \<Rightarrow> api_error + (int \<times> string \<times> string option \<times> string) list" where
  "regions_route libs d i client =
     rbind (client_db libs d client) (\<lambda>(cid, dbs). Inr (regions i (db_ukg dbs)))"

definition relaunch ::
  "api_libs \<Rightarrow> broker_disk \<Rightarrow> string \<Rightarrow> int \<Rightarrow> api_error + string option \<times> string option" where
  "relaunch libs d client i =
     rbind (client_db libs d client) (\<lambda>(cid, dbs).
     case tbl_get i (uk_captures (db_ukg dbs)) of
       None \<Rightarrow> Inl (NotFound ''no such capture'')
     | Some r \<Rightarrow>
         if wc_activation_uri r \<noteq> None \<or> wc_fallback_uri r \<noteq> None
         then Inr (wc_activation_uri r, wc_fallback_uri r)
         else Inl (NotFound ''capture has no launch URI''))"

definition apps_route ::
  "api_libs \<Rightarrow> broker_disk \<Rightarrow> string \<Rightarrow> api_error + (int \<times> string \<times> string option) list \<times> dwell_entry list" where
  "apps_route libs d client =
     rbind (client_db libs d client) (\<lambda>(cid, dbs). Inr (apps (db_ukg dbs), app_dwell (db_ukg dbs)))"

definition web_route :: "api_libs \<Rightarrow> broker_disk \<Rightarrow> string \<Rightarrow> api_error + dwell_entry list" where
  "web_route libs d client =
     rbind (client_db libs d client) (\<lambda>(cid, dbs). Inr (web_dwell (db_ukg dbs)))"

definition clients_route :: "broker_disk \<Rightarrow> (string \<times> client_row) list" where
  "clients_route d = sort_key (\<lambda>p. - cl_last_seen (snd p)) (uk_clients (bd_server_db d))"

section \<open>Export\<close>

record export_capture =
  ec_id :: int
  ec_name :: "string option"
  ec_image_token :: "string option"
  ec_window_title :: "string option"
  ec_timestamp_100ns :: int
  ec_activation_uri :: "string option"
  ec_fallback_uri :: "string option"
  ec_apps :: "string list"
  ec_regions :: "(int \<times> string \<times> string option \<times> string) list"

record export_response =
  ex_client :: string
  ex_captures :: "export_capture list"
  ex_app_dwell :: "dwell_entry list"
  ex_web_dwell :: "dwell_entry list"

definition export_entry :: "ukg \<Rightarrow> timeline_entry \<Rightarrow> export_capture" where
  "export_entry u e =
     \<lparr>ec_id = tl_id e, ec_name = tl_name e, ec_image_token = tl_image_token e,
      ec_window_title = tl_window_title e, ec_timestamp_100ns = tl_timestamp_100ns e,
      ec_activation_uri = tl_activation_uri e, ec_fallback_uri = tl_fallback_uri e,
      ec_apps = tl_apps e, ec_regions = regions (tl_id e) u\<rparr>"

text \<open>The loop over the pages ends because the cursor moves before every row of the page.\<close>

definition rows_before :: "int option \<Rightarrow> ukg \<Rightarrow> capture_row list" where
  "rows_before before u = [p\<leftarrow>tbl_rows (uk_captures u). wc_timestamp (snd p) < or_default (2 ^ 63 - 1) before]"

lemma timeline_rows:
  "timeline before limit u = map (timeline_entry_of u) (sql_limit limit (newest_first (rows_before before u)))"
  by (cases before) (simp_all add: timeline_def rows_before_def or_default_def)

lemma timeline_entry_row [simp]:
  "tl_id (timeline_entry_of u p) = fst p" "tl_timestamp_100ns (timeline_entry_of u p) = wc_timestamp (snd p)"
  by (cases p; simp add: timeline_entry_of_def)+

lemma rows_before_last:
  assumes "timeline before 500 u \<noteq> []"
  shows "length (rows_before (Some (tl_timestamp_100ns (last (timeline before 500 u)))) u)
     < length (rows_before before u)"
proof -
  let ?page = "timeline before 500 u"
  obtain p where p: "p \<in> set (sql_limit 500 (newest_first (rows_before before u)))" "last ?page = timeline_entry_of u p"
    using last_in_set [OF assms] unfolding timeline_rows set_map by blast
  then have mem: "p \<in> set (rows_before before u)"
    by (auto simp: sql_limit_def newest_first_def dest: in_set_takeD)
  then have lt: "wc_timestamp (snd p) < or_default (2 ^ 63 - 1) before" by (simp add: rows_before_def)
  let ?now = "rows_before before u"
  have "rows_before (Some (tl_timestamp_100ns (last ?page))) u
      = [q\<leftarrow>?now. wc_timestamp (snd q) < wc_timestamp (snd p)]"
    using lt by (auto simp: rows_before_def p(2) or_default_def intro!: filter_cong)
  moreover have "length [q\<leftarrow>?now. wc_timestamp (snd q) < wc_timestamp (snd p)] < length ?now"
    using mem by (intro length_filter_less [of p]) auto
  ultimately show ?thesis by simp
qed

function export_pages :: "int option \<Rightarrow> ukg \<Rightarrow> timeline_entry list" where
  "export_pages before u =
     (let page = timeline before 500 u
      in if page = [] then [] else page @ export_pages (Some (tl_timestamp_100ns (last page))) u)"
  by auto
termination
  by (relation "measure (\<lambda>(before, u). length (rows_before before u))") (simp_all add: rows_before_last)

declare export_pages.simps [simp del]

definition export :: "api_libs \<Rightarrow> broker_disk \<Rightarrow> string \<Rightarrow> api_error + export_response" where
  "export libs d client =
     rbind (client_db libs d client) (\<lambda>(cid, dbs).
     let u = db_ukg dbs in
     Inr \<lparr>ex_client = client, ex_captures = map (export_entry u) (export_pages None u),
          ex_app_dwell = app_dwell u, ex_web_dwell = web_dwell u\<rparr>)"

section \<open>The panic button\<close>

definition wipe_client :: "api_libs \<Rightarrow> api_state \<Rightarrow> broker_disk \<Rightarrow> string \<Rightarrow> (api_error + nat) \<times> broker_disk" where
  "wipe_client libs st d client =
     (case client_dir libs st d client of
        Inl e \<Rightarrow> (Inl e, d)
      | Inr dir \<Rightarrow>
          (case api_objects libs st dir d of
             Inl e \<Rightarrow> (Inl e, d)
           | Inr objects \<Rightarrow>
               (case purge_client objects client (bd_fs d) of
                  (Inl e, fs) \<Rightarrow> (Inl (ApiObjects (object_error_text e)), d\<lparr>bd_fs := fs\<rparr>)
                | (Inr _, fs) \<Rightarrow>
                    (let d1 = d\<lparr>bd_fs := fs\<rparr> in
                     case client_db libs d1 client of
                       Inl e \<Rightarrow> (Inl e, d1)
                     | Inr (cid, dbs) \<Rightarrow> (Inr 204, put_dbs cid (dbs\<lparr>db_ukg := purge_all (db_ukg dbs)\<rparr>) d1)))))"

section \<open>The live stream\<close>

record live_row =
  lr_window_capture_id :: int
  lr_name :: string
  lr_window_title :: string
  lr_timestamp_100ns :: int
  lr_image_token :: "string option"

text \<open>The request is checked under the canonical id; the stream opens the database under the client
  text of the request, and \<open>Ukg::open\<close> creates one that is not there.\<close>

definition live_db :: "broker_disk \<Rightarrow> string \<Rightarrow> ukg option" where
  "live_db d client = map_option db_ukg (map_of (bd_clients d) client)"

definition live_ws :: "api_libs \<Rightarrow> broker_disk \<Rightarrow> string \<Rightarrow> (api_error + unit) \<times> broker_disk" where
  "live_ws libs d client =
     (case client_db libs d client of
        Inl e \<Rightarrow> (Inl e, d)
      | Inr _ \<Rightarrow> (Inr (), put_dbs client (client_dbs_of client d) d))"

definition live_start :: "ukg option \<Rightarrow> int" where
  "live_start db =
     (case db of
        None \<Rightarrow> 0
      | Some u \<Rightarrow> (case timeline None 1 u of [] \<Rightarrow> 0 | e # _ \<Rightarrow> tl_id e))"

fun live_row_of :: "capture_row \<Rightarrow> live_row option" where
  "live_row_of (i, r) =
     (case (wc_name r, wc_window_title r) of
        (Some n, Some t) \<Rightarrow>
          Some \<lparr>lr_window_capture_id = i, lr_name = n, lr_window_title = t,
                lr_timestamp_100ns = wc_timestamp r, lr_image_token = wc_image_token r\<rparr>
      | _ \<Rightarrow> None)"

text \<open>One query: the next 50 rows, or nothing when a column of one of them cannot be read.\<close>

definition live_rows :: "int \<Rightarrow> ukg \<Rightarrow> live_row list" where
  "live_rows last_id u =
     (let rows = map live_row_of (take 50 (sort_key fst [p\<leftarrow>tbl_rows (uk_captures u). last_id < fst p]))
      in if list_all (\<lambda>r. r \<noteq> None) rows then map the rows else [])"

text \<open>One tick: what is sent and the id to go on from.\<close>

definition live_tick :: "ukg option \<Rightarrow> int \<Rightarrow> live_row list \<times> int" where
  "live_tick db last_id =
     (case db of
        None \<Rightarrow> ([], last_id)
      | Some u \<Rightarrow>
          (let rows = live_rows last_id u
           in (rows, foldl (\<lambda>l r. max l (lr_window_capture_id r)) last_id rows)))"

fun live_loop :: "ukg option list \<Rightarrow> int \<Rightarrow> live_row list \<times> int" where
  "live_loop [] last_id = ([], last_id)"
| "live_loop (db # dbs) last_id =
     (let (sent, l1) = live_tick db last_id; (more, l2) = live_loop dbs l1 in (sent @ more, l2))"

section \<open>Routing\<close>

text \<open>\<open>build_router\<close>: every route below \<open>/api/v1\<close> passes the token check first; only the health
  check does not.\<close>

definition guarded ::
  "(bytes \<Rightarrow> bytes) \<Rightarrow> api_state \<Rightarrow> string option \<Rightarrow> (broker_disk \<Rightarrow> (api_error + 'a) \<times> broker_disk)
     \<Rightarrow> broker_disk \<Rightarrow> (api_error + 'a) \<times> broker_disk" where
  "guarded sha256 st authorization handler d =
     (case fst (require_auth sha256 (ap_auth st) authorization) of
        Inl e \<Rightarrow> (Inl e, d)
      | Inr _ \<Rightarrow> handler d)"

definition health :: string where "health = ''ok''"

section \<open>Start of the server (main.rs)\<close>

record api_cli =
  ac_data_root :: path
  ac_tokens :: "string list"
  ac_ai_url :: "string option"
  ac_embedding_dim :: nat

text \<open>The state is made before the socket is bound.\<close>

definition api_start ::
  "(bytes \<Rightarrow> bytes) \<Rightarrow> (bytes \<Rightarrow> string) \<Rightarrow> bytes \<Rightarrow> ai_service \<Rightarrow> api_cli \<Rightarrow> file_system
     \<Rightarrow> (object_error + api_state) outcome \<times> file_system" where
  "api_start sha256 lossy fresh svc cli fs =
     (case load_or_create_key lossy fresh (ac_data_root cli) fs of
        (Panicked, fs') \<Rightarrow> (Panicked, fs')
      | (Returned (Inl e), fs') \<Rightarrow> (Returned (Inl e), fs')
      | (Returned (Inr k), fs') \<Rightarrow>
          (Returned (Inr
             \<lparr>ap_data_root = ac_data_root cli, ap_embedder = embedder_from_env (ac_ai_url cli) svc sha256,
              ap_object_key = k,
              ap_auth = fst (note_open_mode (api_auth_new sha256 (ac_tokens cli))),
              ap_embedding_dim = ac_embedding_dim cli\<rparr>), fs'))"

end
