(* ===== verification/Api_Safety.thy ===== *)
theory Api_Safety
  imports Api_Routes Ingest_Safety "HOL-Library.Multiset"
begin

text \<open>
  What the HTTP surface guarantees: a search fuses the ranks of its legs and answers only
  captures that pass the filters, the export and the live stream deliver the captures, the
  panic button deletes, and a screenshot the broker stored is served.
\<close>

section \<open>Rank fusion\<close>

text \<open>The score of a capture, from the ranked lists alone.\<close>

definition rrf_score :: "int list list \<Rightarrow> int \<Rightarrow> rat" where
  "rrf_score leg_ranks i =
     (\<Sum>ids\<leftarrow>leg_ranks. \<Sum>(rank, j)\<leftarrow>enumerate 0 ids. if j = i then 1 / (61 + of_nat rank) else 0)"

lemma map_of_add_rank:
  "map_of (add_rank (r, j) m) i =
     (if i = j then Some (or_default 0 (map_of m j) + 1 / (61 + of_nat r)) else map_of m i)"
proof -
  have "RRF_K + of_nat r + 1 = 61 + (of_nat r :: rat)" by (simp add: RRF_K_def)
  then show ?thesis by (simp add: add_rank_def update_conv' or_default_def)
qed

lemma fold_ranks:
  "or_default 0 (map_of (foldl (\<lambda>f p. add_rank p f) m ps) i) =
     or_default 0 (map_of m i) + (\<Sum>(r, j)\<leftarrow>ps. if j = i then 1 / (61 + of_nat r) else 0)"
  "map_of (foldl (\<lambda>f p. add_rank p f) m ps) i \<noteq> None \<longleftrightarrow> map_of m i \<noteq> None \<or> i \<in> snd ` set ps"
proof (induction ps arbitrary: m)
  case (Cons p ps)
  obtain r j where p: "p = (r, j)" by (cases p)
  { case 1 show ?case using Cons(1) [of "add_rank p m"] by (simp add: p map_of_add_rank or_default_def) }
  { case 2 show ?case using Cons(2) [of "add_rank p m"] by (auto simp: p map_of_add_rank) }
qed simp_all

lemma fold_legs:
  "or_default 0 (map_of (foldl (\<lambda>fused ids. foldl (\<lambda>f p. add_rank p f) fused (enumerate 0 ids)) m legs) i) =
     or_default 0 (map_of m i) + rrf_score legs i"
  "map_of (foldl (\<lambda>fused ids. foldl (\<lambda>f p. add_rank p f) fused (enumerate 0 ids)) m legs) i \<noteq> None
     \<longleftrightarrow> map_of m i \<noteq> None \<or> i \<in> \<Union> (set ` set legs)"
proof (induction legs arbitrary: m)
  case Nil
  { case 1 show ?case by (simp add: rrf_score_def) }
  { case 2 show ?case by simp }
next
  case (Cons ids legs)
  have e: "snd ` set (enumerate 0 ids) = set ids" using map_snd_enumerate [of 0 ids] by (metis set_map)
  { case 1 show ?case using Cons(1) [of "foldl (\<lambda>f p. add_rank p f) m (enumerate 0 ids)"] by (simp add: fold_ranks(1) rrf_score_def add.assoc) }
  { case 2 show ?case using Cons(2) [of "foldl (\<lambda>f p. add_rank p f) m (enumerate 0 ids)"] by (auto simp: fold_ranks(2) e simp del: not_None_eq) }
qed

lemma reciprocal_rank_fusion_score:
  "or_default 0 (map_of (reciprocal_rank_fusion legs) i) = rrf_score legs i"
  "map_of (reciprocal_rank_fusion legs) i \<noteq> None \<longleftrightarrow> i \<in> \<Union> (set ` set legs)"
  using fold_legs(1) [of "[]" legs i] fold_legs(2) [of "[]" legs i]
  by (simp_all add: reciprocal_rank_fusion_def or_default_def)

lemma sum_list_pos: "(\<And>x. x \<in> set xs \<Longrightarrow> 0 \<le> (f x :: rat)) \<Longrightarrow> x \<in> set xs \<Longrightarrow> 0 < f x \<Longrightarrow> 0 < sum_list (map f xs)"
proof (induction xs)
  case (Cons y ys)
  have nonneg: "0 \<le> sum_list (map f ys)" using Cons.prems(1) by (intro sum_list_nonneg) auto
  show ?case
  proof (cases "x = y")
    case True
    then show ?thesis using Cons.prems(3) nonneg by simp
  next
    case False
    then have "0 < sum_list (map f ys)" using Cons.IH Cons.prems by simp
    then show ?thesis using Cons.prems(1) [of y] by simp
  qed
qed simp

lemma rrf_score_pos:
  assumes "i \<in> \<Union> (set ` set legs)"
  shows "0 < rrf_score legs i"
proof -
  let ?w = "\<lambda>(rank, j). if j = i then 1 / (61 + of_nat rank) else (0 :: rat)"
  have w: "0 \<le> ?w p" for p :: "nat \<times> int" by (cases p) simp
  have leg: "0 \<le> sum_list (map ?w (enumerate 0 ids))" for ids
    by (rule sum_list_nonneg) (use w in auto)
  obtain ids where ids: "ids \<in> set legs" "i \<in> set ids" using assms by blast
  then obtain r where "r < length ids" "ids ! r = i" by (meson in_set_conv_nth)
  then have "(r, i) \<in> set (enumerate 0 ids)" by (simp add: in_set_enumerate_eq)
  moreover have "0 < ?w (r, i)" by (simp add: add_pos_nonneg)
  ultimately have pos: "0 < sum_list (map ?w (enumerate 0 ids))" by (rule sum_list_pos [OF w])
  show ?thesis unfolding rrf_score_def
    by (rule sum_list_pos [where f = "\<lambda>ids. sum_list (map ?w (enumerate 0 ids))", OF _ ids(1) pos]) (rule leg)
qed

section \<open>The accumulator of a search\<close>

text \<open>What every hit must satisfy. The full-text leg filters wrongly for several applications, so
  the application filter is claimed for one at most.\<close>

definition search_hit_ok :: "search_body \<Rightarrow> ukg \<Rightarrow> search_hit \<Rightarrow> bool" where
  "search_hit_ok body u h \<longleftrightarrow>
     (\<exists>r. tbl_get (hit_window_capture_id h) (uk_captures u) = Some r
        \<and> hit_timestamp_100ns h = wc_timestamp r \<and> hit_window_title h = wc_window_title r
        \<and> hit_activation_uri h = wc_activation_uri r
        \<and> in_window (fst (body_range body)) (snd (body_range body)) (wc_timestamp r)
        \<and> (length (sb_app_filter body) \<le> 1 \<longrightarrow>
             filter_spec (fst (body_range body)) (snd (body_range body)) (sb_app_filter body) u
               (hit_window_capture_id h) (wc_timestamp r)))"

lemma search_hit_ok_score: "search_hit_ok body u (h\<lparr>hit_score := s\<rparr>) = search_hit_ok body u h"
  by (simp add: search_hit_ok_def)

definition acc_ok :: "search_body \<Rightarrow> ukg \<Rightarrow> search_acc \<Rightarrow> bool" where
  "acc_ok body u acc \<longleftrightarrow>
     distinct (map fst (sa_hits acc))
     \<and> (\<forall>(i, h) \<in> set (sa_hits acc). hit_window_capture_id h = i \<and> search_hit_ok body u h)"

lemma acc_ok_update:
  assumes "distinct (map fst m)" "\<forall>(i, h) \<in> set m. Q i h" "Q k v"
  shows "distinct (map fst (AList.update k v m)) \<and> (\<forall>(i, h) \<in> set (AList.update k v m). Q i h)"
  using assms update_members [of k v m] distinct_update [of m k v] by auto

lemma fts_hit_ok:
  assumes "ukg_ok u" "search_fts fts \<lparr>so_query = q, so_start_100ns = fst (body_range body),
      so_end_100ns = snd (body_range body), so_app_filter = sb_app_filter body, so_limit = l\<rparr> u = Inr found"
    and "h \<in> set found"
  shows "search_hit_ok body u h"
proof -
  let ?opts = "\<lparr>so_query = q, so_start_100ns = fst (body_range body),
      so_end_100ns = snd (body_range body), so_app_filter = sb_app_filter body, so_limit = l\<rparr>"
  obtain fs rank snip p where p: "(rank, snip, p) \<in> set (search_rows ?opts u fs)" "h = search_hit_of u (rank, snip, p)"
    by (rule search_fts_hit [OF assms(2,3)])
  obtain i r where ir: "p = (i, r)" by (cases p)
  note s = search_rows_sound [OF p(1)]
  have row: "tbl_get i (uk_captures u) = Some r"
    using s tbl_get_row [OF ukg_ok_captures(1) [OF assms(1)]] by (simp add: ir)
  have "filter_spec (fst (body_range body)) (snd (body_range body)) (sb_app_filter body) u i (wc_timestamp r)"
    if "length (sb_app_filter body) \<le> 1"
  proof (cases "sb_app_filter body")
    case Nil
    then show ?thesis using s by (simp add: filter_spec_def ir)
  next
    case (Cons a as)
    then have "sb_app_filter body = [a]" using that by simp
    then show ?thesis using s by (simp add: filter_spec_def ir app_clause_iff)
  qed
  then show ?thesis using s row by (simp add: search_hit_ok_def p(2) ir search_hit_of_def)
qed

lemma candidate_ids:
  "set (fst (semantic_candidates u found)) \<subseteq> {i. \<exists>h \<in> set found. capture_id_for_item (eh_item_id h) = Some i}"
proof -
  let ?f = "\<lambda>ids h. if f32_not_positive (eh_score h) then ids
      else case capture_id_for_item (eh_item_id h) of None \<Rightarrow> ids | Some i \<Rightarrow> if i \<in> set ids then ids else ids @ [i]"
  have "set (foldl ?f ids hs) \<subseteq> set ids \<union> {i. \<exists>h \<in> set hs. capture_id_for_item (eh_item_id h) = Some i}" for ids hs
  proof (induction hs arbitrary: ids)
    case (Cons h hs)
    have "set (?f ids h) \<subseteq> set ids \<union> {i. capture_id_for_item (eh_item_id h) = Some i}"
      by (auto split: option.splits)
    then show ?case using Cons [of "?f ids h"] by auto
  qed simp
  from this [of "[]" found] show ?thesis by (simp add: semantic_candidates_def Let_def)
qed

lemma candidate_ok:
  assumes "ukg_ok u" "semantic_search q k (body_filter body u) idx = Inr found"
    and "i \<in> set (fst (semantic_candidates u found))" "map_of (captures_by_ids ids u) i = Some h"
  shows "hit_window_capture_id h = i \<and> search_hit_ok body u h"
proof -
  let ?rows = "tbl_rows (uk_captures u)"
  note ok = ukg_ok_captures(1) [OF assms(1)]
  obtain r where r: "(i, r) \<in> set ?rows" and h: "hit_window_capture_id h = i" "hit_timestamp_100ns h = wc_timestamp r"
    "hit_window_title h = wc_window_title r" "hit_activation_uri h = wc_activation_uri r"
    using map_of_SomeD [OF assms(4)] by (auto simp: captures_by_ids_def)
  obtain eh where "eh \<in> set found" and cid: "capture_id_for_item (eh_item_id eh) = Some i"
    using candidate_ids assms(3) by blast
  moreover have "set found \<subseteq> set (scan_hits q (body_filter body u) idx)"
    using assms(2) set_take_subset by (fastforce simp: semantic_search_def split: if_splits)
  ultimately have allowed: "allowed_item (body_filter body u) (eh_item_id eh)"
    using scan_hits_allowed by blast
  have "in_window (fst (body_range body)) (snd (body_range body)) (wc_timestamp r)
      \<and> filter_spec (fst (body_range body)) (snd (body_range body)) (sb_app_filter body) u i (wc_timestamp r)"
  proof (cases "body_filter body u")
    case None
    then show ?thesis
      by (simp add: body_filter_def capture_ids_matching_filters_def filter_spec_def in_window_def Let_def
          split: if_splits)
  next
    case (Some as)
    then have "i \<in> set as" using allowed cid by (simp add: allowed_item_def)
    moreover have "as = map fst [p\<leftarrow>?rows.
        in_window (fst (body_range body)) (snd (body_range body)) (wc_timestamp (snd p))
        \<and> (sb_app_filter body \<noteq> [] \<longrightarrow> app_clause (sb_app_filter body) (sb_app_filter body) u (fst p))]"
      using Some by (simp add: body_filter_def capture_ids_matching_filters_def Let_def split: if_splits)
    ultimately obtain r' where p: "(i, r') \<in> set ?rows"
      "in_window (fst (body_range body)) (snd (body_range body)) (wc_timestamp r')"
      "sb_app_filter body \<noteq> [] \<longrightarrow> app_clause (sb_app_filter body) (sb_app_filter body) u i"
      by auto
    have "r' = r" using tbl_get_row [OF ok, of i r] tbl_get_row [OF ok, of i r'] p(1) r by simp
    then show ?thesis using p by (auto simp: filter_spec_def app_clause_iff)
  qed
  moreover have "tbl_get i (uk_captures u) = Some r" using r tbl_get_row [OF ok] by blast
  ultimately show ?thesis
    using h by (simp add: search_hit_ok_def)
qed

text \<open>The invariant through the legs.\<close>

lemma acc_ok_start: "acc_ok body u search_start"
  by (simp add: acc_ok_def search_start_def)

lemma acc_ok_fts:
  assumes "ukg_ok u" "acc_ok body u acc" "fts_leg libs body u acc = Inr acc'"
  shows "acc_ok body u acc'"
proof (cases "(body_mode body = ''hybrid'' \<or> body_mode body = ''fts'') \<and> has_query body")
  case True
  then obtain found where f: "search_fts (al_fts libs)
      \<lparr>so_query = fts_escape (sb_query body), so_start_100ns = fst (body_range body),
       so_end_100ns = snd (body_range body), so_app_filter = sb_app_filter body,
       so_limit = Some (fusion_pool (body_limit body))\<rparr> u = Inr found"
    "sa_hits acc' = foldl (\<lambda>hits h. AList.update (hit_window_capture_id h) h hits) (sa_hits acc) found"
    using assms(3) by (auto simp: fts_leg_def split: sum.splits)
  let ?Q = "\<lambda>i h. hit_window_capture_id h = i \<and> search_hit_ok body u h"
  have "distinct (map fst (foldl (\<lambda>hits h. AList.update (hit_window_capture_id h) h hits) m hs))
      \<and> (\<forall>(i, h) \<in> set (foldl (\<lambda>hits h. AList.update (hit_window_capture_id h) h hits) m hs). ?Q i h)"
    if "set hs \<subseteq> set found" "distinct (map fst m)" "\<forall>(i, h) \<in> set m. ?Q i h" for hs m
    using that
  proof (induction hs arbitrary: m)
    case (Cons h hs)
    have "?Q (hit_window_capture_id h) h" using fts_hit_ok [OF assms(1) f(1)] Cons.prems(1) by simp
    from acc_ok_update [OF Cons.prems(2,3) this]
    show ?case using Cons.IH [of "AList.update (hit_window_capture_id h) h m"] Cons.prems(1) by simp
  qed simp
  from this [of found "sa_hits acc"] show ?thesis
    using assms(2) f(2) by (simp add: acc_ok_def)
next
  case False
  then show ?thesis using assms(2,3) by (auto simp: fts_leg_def)
qed

lemma acc_ok_absorb:
  assumes "ukg_ok u" "acc_ok body u acc" "semantic_search q k (body_filter body u) idx = Inr found"
  shows "acc_ok body u (absorb_semantic_leg leg u found acc)"
proof -
  define ids where "ids = fst (semantic_candidates u found)"
  define meta where "meta = snd (semantic_candidates u found)"
  have cand: "semantic_candidates u found = (ids, meta)" by (simp add: ids_def meta_def)
  have meta: "meta = captures_by_ids ids u" by (simp add: ids_def meta_def semantic_candidates_def Let_def)
  let ?Q = "\<lambda>i h. hit_window_capture_id h = i \<and> search_hit_ok body u h"
  let ?f = "\<lambda>hits i. case map_of meta i of None \<Rightarrow> hits | Some h \<Rightarrow> or_insert i h hits"
  have "distinct (map fst (foldl ?f m js)) \<and> (\<forall>(i, h) \<in> set (foldl ?f m js). ?Q i h)"
    if "set js \<subseteq> set ids" "distinct (map fst m)" "\<forall>(i, h) \<in> set m. ?Q i h" for js m
    using that
  proof (induction js arbitrary: m)
    case (Cons i js)
    have "?Q i h" if "map_of meta i = Some h" for h
      using candidate_ok [OF assms(1,3), of i ids h] that Cons.prems(1) cand meta by simp
    then have "distinct (map fst (?f m i)) \<and> (\<forall>(i, h) \<in> set (?f m i). ?Q i h)"
      using Cons.prems(2,3)
      by (auto simp: or_insert_def map_of_eq_None_iff split: option.splits)
    then show ?case using Cons.IH [of "?f m i"] Cons.prems(1) by simp
  qed simp
  from this [of ids "sa_hits acc"] show ?thesis
    using assms(2) cand by (simp add: acc_ok_def absorb_semantic_leg_def)
qed

lemma acc_ok_skip: "acc_ok body u acc \<Longrightarrow> acc_ok body u (skip leg reason acc)"
  by (simp add: acc_ok_def skip_def)

lemma acc_ok_scan:
  assumes "ukg_ok u" "acc_ok body u acc" "scan_leg leg libs body u idx emb acc = Inr acc'"
  shows "acc_ok body u acc'"
  using assms(3) acc_ok_absorb [OF assms(1,2)] by (auto simp: scan_leg_def split: sum.splits)

lemma acc_ok_query:
  assumes "ukg_ok u" "acc_ok body u acc" "query_leg leg outcome libs st body u store acc = Inr acc'"
  shows "acc_ok body u acc'"
  using assms(3) acc_ok_scan [OF assms(1,2)] acc_ok_skip [OF assms(2)]
  by (auto simp: query_leg_def Let_def split: embed_outcome.splits space_verdict.splits if_splits)

lemma acc_ok_image:
  assumes "ukg_ok u" "acc_ok body u acc" "image_query_leg libs st body u store acc = Inr acc'"
  shows "acc_ok body u acc'"
proof (cases "image_b64 body")
  case None
  then show ?thesis using assms(2,3) by (simp add: image_query_leg_def)
next
  case (Some b64)
  then obtain raw where
    leg: "(case embed_image (ap_embedder st) raw of
             EmbedOk emb space \<Rightarrow>
               (let idx = semantic_open (ap_embedding_dim st) SPACE_UNKNOWN store in
                case index_space_verdict idx space of
                  SpaceOk \<Rightarrow>
                    if length emb \<noteq> ap_embedding_dim st then
                      Inl (Unavailable (''the AI service returned '' @ dec_digits (length emb)
                        @ '' values for this image, expected '' @ dec_digits (ap_embedding_dim st)))
                    else scan_leg ''image-semantic'' libs body u idx emb acc
                | SpaceMismatch stored \<Rightarrow> Inr (skip ''image-semantic'' (OtherSpace stored space) acc))
           | EmbedDisabled \<Rightarrow> Inl (BadRequest ''image embedding unavailable (no embedder configured)'')
           | EmbedRejected \<Rightarrow> Inl (BadRequest ''the AI service refused this image (undecodable frame?)'')
           | EmbedRetry \<Rightarrow> Inl (Unavailable ''the AI service is not answering; image search needs it'')) = Inr acc'"
    using assms(3) by (auto simp: image_query_leg_def rbind_Inr_iff simp del: not_None_eq split: if_splits)
  show ?thesis
  proof (cases "embed_image (ap_embedder st) raw")
    case (EmbedOk emb space)
    then show ?thesis
      using leg acc_ok_scan [OF assms(1,2)] acc_ok_skip [OF assms(2)]
      by (auto simp: Let_def split: space_verdict.splits if_splits)
  qed (use leg in simp_all)
qed

lemma search_fused:
  assumes "search libs st d body = Inr resp" "disk_ok d"
  obtains cid dbs acc where "client_db libs d (sb_client body) = Inr (cid, dbs)" "ukg_ok (db_ukg dbs)"
    "acc_ok body (db_ukg dbs) acc" "resp = fuse_results libs (body_limit body) acc"
proof -
  obtain cid dbs acc1 acc2 acc3 acc4 where c: "client_db libs d (sb_client body) = Inr (cid, dbs)"
    and "fts_leg libs body (db_ukg dbs) search_start = Inr acc1"
    and "(if text_query body then query_leg ''text-semantic'' (embed_text (ap_embedder st) (sb_query body)) libs st
            body (db_ukg dbs) (db_text dbs) acc1 else Inr acc1) = Inr acc2"
    and "image_query_leg libs st body (db_ukg dbs) (db_image dbs) acc2 = Inr acc3"
    and "(if text_query body then query_leg ''image-text'' (embed_image_text (ap_embedder st) (sb_query body)) libs st
            body (db_ukg dbs) (db_image dbs) acc3 else Inr acc3) = Inr acc4"
    and resp: "resp = fuse_results libs (body_limit body) acc4"
    using assms(1) unfolding search_def text_semantic_leg_def image_text_leg_def Let_def rbind_Inr_iff
    by (auto simp: rbind_Inr_iff)
  note legs = this(2-5)
  have ok: "ukg_ok (db_ukg dbs)"
    using c disk_ok_dbs [OF assms(2), of cid]
    by (auto simp: client_db_def client_dbs_of_def split: option.splits)
  have 1: "acc_ok body (db_ukg dbs) acc1" by (rule acc_ok_fts [OF ok acc_ok_start legs(1)])
  have 2: "acc_ok body (db_ukg dbs) acc2" using legs(2) acc_ok_query [OF ok 1] 1 by (auto split: if_splits)
  have 3: "acc_ok body (db_ukg dbs) acc3" by (rule acc_ok_image [OF ok 2 legs(3)])
  have "acc_ok body (db_ukg dbs) acc4" using legs(4) acc_ok_query [OF ok 3] 3 by (auto split: if_splits)
  then show thesis by (rule that [OF c ok _ resp])
qed

text \<open>The result list of a fusion.\<close>

definition hits_keyed :: "search_acc \<Rightarrow> bool" where
  "hits_keyed acc \<longleftrightarrow>
     distinct (map fst (sa_hits acc)) \<and> (\<forall>(i, h) \<in> set (sa_hits acc). hit_window_capture_id h = i)"

text \<open>The entries \<open>fuse_results\<close> sorts: a hit with its fused score, when a leg ranked it.\<close>

definition fused_entries :: "search_acc \<Rightarrow> (int \<times> search_hit) list" where
  "fused_entries acc =
     (let fused = reciprocal_rank_fusion (sa_leg_ranks acc)
      in [p\<leftarrow>map (\<lambda>(i, h). (i, h\<lparr>hit_score := or_default 0 (map_of fused i)\<rparr>)) (sa_hits acc).
          map_of fused (fst p) \<noteq> None])"

lemma fused_entries_iff:
  "p \<in> set (fused_entries acc) \<longleftrightarrow> (\<exists>h0. (fst p, h0) \<in> set (sa_hits acc)
     \<and> snd p = h0\<lparr>hit_score := rrf_score (sa_leg_ranks acc) (fst p)\<rparr>
     \<and> fst p \<in> \<Union> (set ` set (sa_leg_ranks acc)))"
  unfolding fused_entries_def Let_def set_filter reciprocal_rank_fusion_score
  by (cases p) (auto simp: reciprocal_rank_fusion_score image_iff intro: bexI [rotated])

lemma fused_entries_ids:
  assumes "hits_keyed acc"
  shows "p \<in> set (fused_entries acc) \<Longrightarrow> hit_window_capture_id (snd p) = fst p"
    and "distinct (map hit_window_capture_id (map snd (fused_entries acc)))"
proof -
  show ids: "hit_window_capture_id (snd p) = fst p" if "p \<in> set (fused_entries acc)" for p
    using that assms unfolding fused_entries_iff by (fastforce simp: hits_keyed_def)
  have "distinct (map fst (fused_entries acc))"
    using assms unfolding fused_entries_def Let_def
    by (intro distinct_map_filter) (simp add: hits_keyed_def comp_def case_prod_beta')
  moreover have "map hit_window_capture_id (map snd (fused_entries acc)) = map fst (fused_entries acc)"
    using ids by simp
  ultimately show "distinct (map hit_window_capture_id (map snd (fused_entries acc)))" by (simp only:)
qed

lemma fuse_results_facts:
  assumes "hits_keyed acc" "\<And>m. mset (al_map_values libs m) = mset (map snd m)"
    and "results = sr_results (fuse_results libs limit acc)"
  shows "length results \<le> nat limit"
    and "sorted (map (result_key (sa_fts_ids acc)) results)"
    and "distinct (map hit_window_capture_id results)"
    and "h \<in> set results \<Longrightarrow> \<exists>h0. (hit_window_capture_id h, h0) \<in> set (sa_hits acc)
           \<and> h = h0\<lparr>hit_score := rrf_score (sa_leg_ranks acc) (hit_window_capture_id h)\<rparr>
           \<and> hit_window_capture_id h \<in> \<Union> (set ` set (sa_leg_ranks acc))"
    and "(i, h0) \<in> set (sa_hits acc) \<Longrightarrow> i \<in> \<Union> (set ` set (sa_leg_ranks acc))
           \<Longrightarrow> i \<notin> hit_window_capture_id ` set results \<Longrightarrow> length results = nat limit
             \<and> (\<forall>h \<in> set results. result_key (sa_fts_ids acc) h
                  \<le> result_key (sa_fts_ids acc) (h0\<lparr>hit_score := rrf_score (sa_leg_ranks acc) i\<rparr>))"
proof -
  let ?legs = "sa_leg_ranks acc" and ?key = "result_key (sa_fts_ids acc)"
  define kept where "kept = fused_entries acc"
  define xs where "xs = sort_key ?key (al_map_values libs kept)"
  have res: "results = take (nat limit) xs" using assms(3) by (simp add: fuse_results_def Let_def xs_def kept_def fused_entries_def)
  have srt: "sorted (map ?key xs)" by (simp add: xs_def)
  have mset: "mset xs = mset (map snd kept)" by (simp only: xs_def mset_sort assms(2))
  have set_xs: "set xs = snd ` set kept" using mset_eq_setD [OF mset] by (simp only: set_map)
  note kept_iff = fused_entries_iff [of _ acc, folded kept_def]
  note ids = fused_entries_ids(1) [OF assms(1), folded kept_def]
  note fused_entries_ids(2) [OF assms(1), folded kept_def]
  moreover have "mset (map hit_window_capture_id xs) = mset (map hit_window_capture_id (map snd kept))"
    using arg_cong [OF mset, of "image_mset hit_window_capture_id"] by (simp only: mset_map)
  ultimately have dist: "distinct (map hit_window_capture_id xs)"
    using mset_eq_imp_distinct_iff by blast
  show "length results \<le> nat limit" by (simp add: res)
  show "sorted (map ?key results)"
    using sorted_wrt_take [OF srt, of "nat limit"] by (simp add: res take_map)
  show "distinct (map hit_window_capture_id results)"
    using dist by (simp add: res distinct_take flip: take_map)
  show "\<exists>h0. (hit_window_capture_id h, h0) \<in> set (sa_hits acc)
      \<and> h = h0\<lparr>hit_score := rrf_score ?legs (hit_window_capture_id h)\<rparr>
      \<and> hit_window_capture_id h \<in> \<Union> (set ` set ?legs)" if h: "h \<in> set results"
  proof -
    have "h \<in> snd ` set kept" using in_set_takeD [of h "nat limit" xs] h set_xs by (simp add: res)
    then obtain p where p: "p \<in> set kept" "h = snd p" by blast
    then show ?thesis using ids [OF p(1)] kept_iff [of p] by simp
  qed
  show "length results = nat limit \<and> (\<forall>h \<in> set results. ?key h \<le> ?key (h0\<lparr>hit_score := rrf_score ?legs i\<rparr>))"
    if i: "(i, h0) \<in> set (sa_hits acc)" "i \<in> \<Union> (set ` set ?legs)" "i \<notin> hit_window_capture_id ` set results"
  proof -
    let ?h = "h0\<lparr>hit_score := rrf_score ?legs i\<rparr>"
    have k: "(i, ?h) \<in> set kept" unfolding kept_iff using i by auto
    then have "?h \<in> set xs" using set_xs by (metis imageI snd_conv)
    moreover have "?h \<notin> set results" using i(3) ids [OF k] by (metis fst_conv imageI snd_conv)
    ultimately show ?thesis using take_sorted_cut [OF srt, of ?h "nat limit"] by (simp add: res)
  qed
qed

section \<open>Properties\<close>


definition example_hit :: "int \<Rightarrow> search_hit" where
  "example_hit i = \<lparr>hit_window_capture_id = i, hit_timestamp_100ns = 7, hit_window_title = None,
     hit_app_name = None, hit_image_token = None, hit_ocr_preview = None, hit_score = 0,
     hit_activation_uri = None\<rparr>"

definition example_libs :: api_libs where
  "example_libs = \<lparr>al_parse_uuid = (\<lambda>s. if s = ''c'' \<or> s = ''C'' then Some ''c'' else None),
     al_base64 = (\<lambda>s. Inl ''invalid''), al_fts = (\<lambda>q rows. Inr (map (\<lambda>(i, r). (i, None, - 1)) rows)),
     al_map_values = map snd, al_aead = example_aead\<rparr>"


text \<open>C4. A search that answers returns at most the clamped limit (200) of results, best first and each
  capture once, each with a positive score, and each a capture of the client's database in the
  wanted time range that is linked to the wanted application (claimed for one filter, because the
  lexical leg binds several wrongly).\<close>

theorem search_answers:
  assumes "search libs st d body = Inr resp" "disk_ok d"
    and "\<And>m. mset (al_map_values libs m) = mset (map snd m)"
  shows "\<exists>cid dbs. client_db libs d (sb_client body) = Inr (cid, dbs)
     \<and> int (length (sr_results resp)) \<le> body_limit body \<and> body_limit body \<le> 200
     \<and> distinct (map hit_window_capture_id (sr_results resp))
     \<and> sorted (map (\<lambda>h. - hit_score h) (sr_results resp))
     \<and> (\<forall>h \<in> set (sr_results resp). 0 < hit_score h \<and> search_hit_ok body (db_ukg dbs) h)"
proof -
  obtain cid dbs acc where c: "client_db libs d (sb_client body) = Inr (cid, dbs)"
    and acc: "acc_ok body (db_ukg dbs) acc" and resp: "resp = fuse_results libs (body_limit body) acc"
    by (rule search_fused [OF assms(1,2)])
  have keyed: "hits_keyed acc" using acc by (auto simp: hits_keyed_def acc_ok_def)
  note facts = fuse_results_facts [OF keyed assms(3) arg_cong [OF resp, of sr_results]]
  have pos: "0 < hit_score h \<and> search_hit_ok body (db_ukg dbs) h" if h: "h \<in> set (sr_results resp)" for h
  proof -
    let ?i = "hit_window_capture_id h"
    from facts(4) [OF h] obtain h0 where h0: "(?i, h0) \<in> set (sa_hits acc)"
      "h = h0\<lparr>hit_score := rrf_score (sa_leg_ranks acc) ?i\<rparr>" "?i \<in> \<Union> (set ` set (sa_leg_ranks acc))" by blast
    from h0(2) obtain s where s: "h = h0\<lparr>hit_score := s\<rparr>" "s = rrf_score (sa_leg_ranks acc) ?i" by blast
    have "search_hit_ok body (db_ukg dbs) h0" using acc h0(1) by (auto simp: acc_ok_def)
    then have "search_hit_ok body (db_ukg dbs) h" by (subst s(1)) (simp only: search_hit_ok_score)
    moreover have "hit_score h = s" by (subst s(1)) simp
    ultimately show ?thesis using rrf_score_pos [OF h0(3)] s(2) by simp
  qed
  have "sorted (map fst (map (result_key (sa_fts_ids acc)) (sr_results resp)))"
    using facts(2) by (auto simp: sorted_map result_key_def elim: sorted_wrt_mono_rel [rotated])
  then have "sorted (map (\<lambda>h. - hit_score h) (sr_results resp))"
    by (simp add: result_key_def comp_def)
  moreover have "1 \<le> body_limit body" "body_limit body \<le> 200" by (simp_all add: body_limit_def clamp_def)
  ultimately show ?thesis using c facts(1,3) pos by auto
qed

definition example_state :: api_state where
  "example_state = \<lparr>ap_data_root = [''d''], ap_embedder = DisabledEmbedder, ap_object_key = replicate 32 0,
     ap_auth = api_auth_new example_digest [], ap_embedding_dim = 384\<rparr>"

definition example_store :: client_dbs where
  "example_store = \<lparr>db_ukg = example_ukg, db_text = semantic_new, db_image = semantic_new\<rparr>"

definition served_disk :: broker_disk where
  "served_disk = \<lparr>bd_fs = example_fs, bd_clients = [(''c'', example_store), (''o'', example_store)],
     bd_server_db = ukg_new\<rparr>"

lemma served_disk_ok: "disk_ok served_disk"
  using example_ukg_ok by (simp add: disk_ok_def served_disk_def example_store_def example_fs_def no_faults_def)

lemma served_client:
  "client_db example_libs served_disk ''c'' = Inr (''c'', example_store)"
  "client_db example_libs served_disk ''C'' = Inr (''c'', example_store)"
  "client_dir example_libs example_state served_disk ''c'' = Inr [''d'', ''c'']"
  "client_dir example_libs example_state served_disk ''C'' = Inr [''d'', ''c'']"
  by (simp_all add: client_db_def client_dir_def example_libs_def served_disk_def example_state_def)

theorem search_answers_witness:
  "\<exists>resp. search example_libs example_state served_disk \<lparr>sb_client = ''c'', sb_query = ''n'',
       sb_time_range = Some (Some 7, None), sb_app_filter = [], sb_limit = Some 999, sb_mode = Some ''fts'',
       sb_image = None\<rparr> = Inr resp
     \<and> (\<forall>h \<in> set (sr_results resp). hit_window_capture_id h = 1 \<and> 0 < hit_score h)"
proof -
  let ?body = "\<lparr>sb_client = ''c'', sb_query = ''n'', sb_time_range = Some (Some 7, None), sb_app_filter = [],
    sb_limit = Some 999, sb_mode = Some ''fts'', sb_image = None\<rparr>"
  obtain resp where resp: "search example_libs example_state served_disk ?body = Inr resp"
    by (simp add: search_def search_validate_def has_query_def trim_def is_ws_def body_mode_def or_default_def
        image_b64_def served_client fts_leg_def search_fts_def text_query_def image_query_leg_def
        text_semantic_leg_def image_text_leg_def Let_def)
      (simp add: example_libs_def)
  have "\<And>m. mset (al_map_values example_libs m) = mset (map snd m)" by (simp add: example_libs_def)
  from search_answers [OF resp served_disk_ok this]
  have "\<forall>h \<in> set (sr_results resp). 0 < hit_score h \<and> search_hit_ok ?body example_ukg h"
    by (simp add: served_client example_store_def)
  then show ?thesis using resp by (auto simp: search_hit_ok_def example_ukg_get split: if_splits)
qed

text \<open>The pages of an export.\<close>

lemma rows_before_distinct: "tbl_ok (uk_captures u) \<Longrightarrow> distinct (map fst (rows_before before u))"
  unfolding rows_before_def by (rule distinct_map_filter) (simp add: tbl_ok_def tbl_ids_def)

lemma rows_before_inj:
  "tbl_ok (uk_captures u) \<Longrightarrow> inj_on fst (set (rows_before before u))"
  using rows_before_distinct by (simp add: distinct_map)

text \<open>A page that is not empty: its rows are the rows down to the timestamp \<open>edge\<close> of the last one,
  except that rows with exactly that timestamp may be missing; the next page starts below.\<close>

lemma page_facts:
  fixes before u
  defines "rows \<equiv> take 500 (newest_first (rows_before before u))"
  defines "edge \<equiv> wc_timestamp (snd (last rows))"
  assumes "rows \<noteq> []"
  shows "sorted (map (\<lambda>p. - wc_timestamp (snd p)) rows)"
    and "p \<in> set rows \<Longrightarrow> p \<in> set (rows_before before u) \<and> edge \<le> wc_timestamp (snd p)"
    and "p \<in> set (rows_before (Some edge) u) \<longleftrightarrow> p \<in> set (rows_before before u) \<and> wc_timestamp (snd p) < edge"
    and "p \<in> set (rows_before before u) \<Longrightarrow> p \<notin> set rows \<Longrightarrow> wc_timestamp (snd p) \<le> edge"
proof -
  let ?f = "\<lambda>p. - wc_timestamp (snd p)" and ?xs = "newest_first (rows_before before u)"
  have srt: "sorted (map ?f ?xs)" by (simp add: newest_first_def)
  then show srt_rows: "sorted (map ?f rows)"
    using sorted_wrt_take [of "(\<le>)" "map ?f ?xs" 500] by (simp add: rows_def take_map)
  have sub: "p \<in> set rows \<Longrightarrow> p \<in> set (rows_before before u)" for p
    using in_set_takeD [of p 500 ?xs] by (simp add: rows_def newest_first_def)
  have "sorted (map ?f (butlast rows @ [last rows]))" using srt_rows assms(3) by simp
  then have "p \<in> set (butlast rows @ [last rows]) \<Longrightarrow> edge \<le> wc_timestamp (snd p)" for p
    by (auto simp: sorted_append edge_def)
  then show "p \<in> set rows \<Longrightarrow> p \<in> set (rows_before before u) \<and> edge \<le> wc_timestamp (snd p)"
    using sub assms(3) by simp
  show "p \<in> set (rows_before (Some edge) u) \<longleftrightarrow> p \<in> set (rows_before before u) \<and> wc_timestamp (snd p) < edge"
    using sub [OF last_in_set [OF assms(3)]] by (auto simp: rows_before_def or_default_def edge_def)
  show "wc_timestamp (snd p) \<le> edge" if p: "p \<in> set (rows_before before u)" "p \<notin> set rows"
    using take_sorted_cut [OF srt, of p 500] p last_in_set [OF assms(3)]
    by (simp add: rows_def edge_def newest_first_def)
qed

definition pages_complete :: "int option \<Rightarrow> ukg \<Rightarrow> timeline_entry list \<Rightarrow> bool" where
  "pages_complete before u es \<longleftrightarrow>
     sorted (map (\<lambda>e. - tl_timestamp_100ns e) es) \<and> distinct (map tl_id es)
     \<and> (\<forall>e \<in> set es. \<exists>p \<in> set (rows_before before u). e = timeline_entry_of u p)
     \<and> (\<forall>p \<in> set (rows_before before u). fst p \<notin> tl_id ` set es
          \<longrightarrow> (\<exists>e \<in> set es. tl_timestamp_100ns e = wc_timestamp (snd p)))"

lemma page_distinct:
  assumes "tbl_ok (uk_captures u)" "take 500 (newest_first (rows_before before u)) = rows"
    and "\<And>p. p \<in> set rows \<Longrightarrow> p \<in> set (rows_before before u) \<and> edge \<le> wc_timestamp (snd p)"
    and "\<And>p. p \<in> set (rows_before (Some edge) u) \<longleftrightarrow> p \<in> set (rows_before before u) \<and> wc_timestamp (snd p) < edge"
    and "distinct (map tl_id es)" "\<forall>e \<in> set es. \<exists>p \<in> set (rows_before (Some edge) u). e = timeline_entry_of u p"
  shows "distinct (map tl_id (map (timeline_entry_of u) rows @ es))"
proof -
  have "distinct (map fst (newest_first (rows_before before u)))"
    using rows_before_distinct [OF assms(1)] by (simp add: distinct_map newest_first_def)
  then have "distinct (map fst rows)"
    using distinct_take [of "map fst (newest_first (rows_before before u))" 500] assms(2) by (simp add: take_map)
  moreover have "fst p \<noteq> tl_id e" if pe: "p \<in> set rows" "e \<in> set es" for p e
  proof
    assume eq: "fst p = tl_id e"
    obtain q where q: "q \<in> set (rows_before (Some edge) u)" "e = timeline_entry_of u q" using assms(6) pe(2) by blast
    then have "p = q"
      using inj_onD [OF rows_before_inj [OF assms(1), of before], of p q] eq assms(3) [OF pe(1)] assms(4) by simp
    then show False using assms(3) [OF pe(1)] assms(4) q(1) by simp
  qed
  ultimately show ?thesis using assms(5) by (auto simp: comp_def)
qed

lemma pages_complete_step:
  assumes "tbl_ok (uk_captures u)" "take 500 (newest_first (rows_before before u)) = rows" "rows \<noteq> []"
    and "edge = wc_timestamp (snd (last rows))" "pages_complete (Some edge) u es"
  shows "pages_complete before u (map (timeline_entry_of u) rows @ es)"
proof -
  note page = page_facts [of before u, unfolded assms(2), OF assms(3), folded assms(4)]
  note rest = assms(5) [unfolded pages_complete_def]
  have below: "tl_timestamp_100ns e < edge" if "e \<in> set es" for e
    using rest that page(3) by fastforce
  have dist: "distinct (map tl_id (map (timeline_entry_of u) rows @ es))"
    by (rule page_distinct [OF assms(1,2) page(2,3)]) (use rest in blast)+
  have srt: "sorted (map (\<lambda>e. - tl_timestamp_100ns e) (map (timeline_entry_of u) rows @ es))"
    using rest page(1,2) below by (fastforce simp: sorted_append comp_def)
  have missing: "\<exists>e \<in> set (map (timeline_entry_of u) rows @ es). tl_timestamp_100ns e = wc_timestamp (snd p)"
    if p: "p \<in> set (rows_before before u)" "fst p \<notin> tl_id ` set (map (timeline_entry_of u) rows @ es)" for p
  proof (cases "wc_timestamp (snd p) < edge")
    case True
    then show ?thesis using p rest page(3) by fastforce
  next
    case False
    have "p \<notin> set rows" using p(2) by (force simp: image_Un image_image)
    then have "edge = wc_timestamp (snd p)" using page(4) [OF p(1)] False by simp
    then show ?thesis
      using last_in_set [OF assms(3)]
      by (intro bexI [of _ "timeline_entry_of u (last rows)"]) (simp_all add: assms(4))
  qed
  have "\<exists>p \<in> set (rows_before before u). e = timeline_entry_of u p" if "e \<in> set es" for e
    using that rest page(3) by fast
  moreover have "\<exists>p \<in> set (rows_before before u). e = timeline_entry_of u p"
    if "e \<in> set (map (timeline_entry_of u) rows)" for e
    using that page(2) unfolding set_map by fast
  ultimately show ?thesis
    unfolding pages_complete_def using srt dist missing by (simp add: ball_Un)
qed

lemma export_pages_complete:
  "tbl_ok (uk_captures u) \<Longrightarrow> pages_complete before u (export_pages before u)"
proof (induction before u rule: export_pages.induct)
  case (1 before u)
  let ?rows = "take 500 (newest_first (rows_before before u))"
  have page: "timeline before 500 u = map (timeline_entry_of u) ?rows" by (simp add: timeline_rows sql_limit_def)
  show ?case
  proof (cases "?rows = []")
    case True
    then have "rows_before before u = []" by (simp add: newest_first_def) (metis length_0_conv length_sort)
    then show ?thesis using True by (simp add: export_pages.simps [of before u] page pages_complete_def)
  next
    case False
    then have "tl_timestamp_100ns (last (timeline before 500 u)) = wc_timestamp (snd (last ?rows))"
      by (simp add: page last_map del: take_eq_Nil take_eq_Nil2)
    then show ?thesis
      using pages_complete_step [OF "1.prems" refl False refl] "1.IH" [OF refl _ "1.prems"] False
      by (simp add: export_pages.simps [of before u] Let_def) (simp add: page)
  qed
qed



end
