(* ===== verification/Live_Stream.thy ===== *)
theory Live_Stream
  imports Api_Safety
begin

text \<open>
  The live stream of \<open>precall-api/src/routes.rs\<close>: what a subscriber receives while the broker
  keeps inserting captures, and the panic button.
\<close>

section \<open>One tick\<close>

definition pending_ids :: "int \<Rightarrow> ukg \<Rightarrow> int list" where
  "pending_ids l u = sort [i\<leftarrow>capture_ids u. l < i]"

definition readable :: "ukg \<Rightarrow> bool" where
  "readable u \<longleftrightarrow> (\<forall>p \<in> set (tbl_rows (uk_captures u)). live_row_of p \<noteq> None)"

lemma live_row_id: "live_row_of p = Some r \<Longrightarrow> lr_window_capture_id r = fst p"
  by (cases p) (auto split: option.splits)

lemma map_sort_key: "map f (sort_key f xs) = sort (map f xs)"
  by (rule properties_for_sort [symmetric]) (simp_all add: mset_map)

lemma live_rows_ids:
  assumes "readable u"
  shows "map lr_window_capture_id (live_rows l u) = take 50 (pending_ids l u)"
proof -
  let ?ps = "take 50 (sort_key fst [p\<leftarrow>tbl_rows (uk_captures u). l < fst p])"
  have "set ?ps \<subseteq> set (tbl_rows (uk_captures u))"
    using set_take_subset [of 50 "sort_key fst [p\<leftarrow>tbl_rows (uk_captures u). l < fst p]"] by auto
  then have all: "\<forall>p \<in> set ?ps. live_row_of p \<noteq> None"
    using assms unfolding readable_def by blast
  then have "map lr_window_capture_id (map the (map live_row_of ?ps)) = map fst ?ps"
    using live_row_id by (auto intro!: map_cong)
  moreover have "live_rows l u = map the (map live_row_of ?ps)"
    using all by (simp add: live_rows_def Let_def list_all_iff)
  moreover have "map fst ?ps = take 50 (pending_ids l u)"
    by (simp add: take_map [symmetric] map_sort_key pending_ids_def capture_ids_def tbl_ids_def filter_map comp_def)
  ultimately show ?thesis by simp
qed

lemma foldl_max_sorted: "sorted (l # ids) \<Longrightarrow> foldl max l ids = last (l # ids)" for l :: int
  by (induction ids arbitrary: l) (auto simp: max_absorb2)

lemma tick_facts:
  assumes "ukg_ok u" "readable u" "live_tick (Some u) l = (rows, l1)"
  defines "ids \<equiv> map lr_window_capture_id rows"
  shows "sorted_wrt (<) ids" "set ids = {i \<in> set (capture_ids u). l < i \<and> i \<le> l1}" "l \<le> l1"
    and "l1 = l \<or> l1 \<in> set (capture_ids u)"
    and "i \<in> set (capture_ids u) \<Longrightarrow> l1 < i \<Longrightarrow> length ids = 50"
proof -
  let ?all = "pending_ids l u"
  have tick: "rows = live_rows l u" "l1 = foldl (\<lambda>l r. max l (lr_window_capture_id r)) l rows"
    using assms(3) by (auto simp: live_tick_def Let_def)
  have ids: "ids = take 50 ?all" using live_rows_ids [OF assms(2)] by (simp add: ids_def tick(1))
  have l1: "l1 = foldl max l ids" by (simp add: ids_def tick(2) foldl_map)
  have mem: "i \<in> set ?all \<longleftrightarrow> i \<in> set (capture_ids u) \<and> l < i" for i by (auto simp: pending_ids_def)
  have srt: "sorted (map (\<lambda>i. i) ?all)" by (simp add: pending_ids_def)
  have "distinct ?all" using ukg_ok_captures(1) [OF assms(1)] by (simp add: pending_ids_def capture_ids_def tbl_ok_def)
  then show str: "sorted_wrt (<) ids"
    using srt by (simp add: ids strict_sorted_iff sorted_wrt_take)
  have sub: "\<forall>i \<in> set ids. i \<in> set (capture_ids u) \<and> l < i" using mem by (auto simp: ids dest: in_set_takeD)
  have "sorted (l # ids)" using str sub by (auto simp: strict_sorted_imp_sorted less_imp_le)
  then have l1': "l1 = last (l # ids)" unfolding l1 by (rule foldl_max_sorted)
  show "l \<le> l1" using l1' sub by (cases ids rule: rev_cases) auto
  show "l1 = l \<or> l1 \<in> set (capture_ids u)" using l1' sub by (cases ids rule: rev_cases) auto
  have upto: "i \<le> l1" if "i \<in> set ids" for i
    using that str l1' by (cases ids rule: rev_cases) (auto simp: sorted_wrt_append less_imp_le)
  have out: "length ids = 50 \<and> l1 \<le> i" if i: "i \<in> set ?all" "i \<notin> set ids" for i
  proof -
    from take_sorted_cut [OF srt, of i 50] i have cut: "length ids = 50" "\<forall>j \<in> set ids. j \<le> i" by (simp_all add: ids)
    then have "l1 \<in> set ids" using l1' by (cases ids rule: rev_cases) auto
    then show ?thesis using cut by blast
  qed
  have "i \<in> set ids" if i: "i \<in> set (capture_ids u)" "l < i" "i \<le> l1" for i
  proof (rule ccontr)
    assume no: "i \<notin> set ids"
    with out [of i] i mem have "length ids = 50" "i = l1" by auto
    then show False using no l1' by (cases ids rule: rev_cases) auto
  qed
  then show "set ids = {i \<in> set (capture_ids u). l < i \<and> i \<le> l1}" using sub upto by auto
  show "length ids = 50" if "i \<in> set (capture_ids u)" "l1 < i"
    using out [of i] upto [of i] mem that \<open>l \<le> l1\<close> by force
qed

section \<open>The stream\<close>

text \<open>How the database evolves under the stream: any operation of the store except the panic
  button, in any order and number.\<close>

definition quiet_step :: "ukg \<Rightarrow> ukg \<Rightarrow> bool" where
  "quiet_step u u' \<longleftrightarrow> ukg_step u u' \<and> u' \<noteq> purge_all u"

definition grown :: "ukg \<Rightarrow> ukg \<Rightarrow> bool" where
  "grown u u' \<longleftrightarrow> ukg_ok u' \<and> readable u'
     \<and> (\<exists>new. capture_ids u' = capture_ids u @ new \<and> (\<forall>i \<in> set new. \<forall>j \<in> set (capture_ids u). j < i))"

lemma grown_refl: "ukg_ok u \<Longrightarrow> readable u \<Longrightarrow> grown u u"
  by (simp add: grown_def)

lemma grown_trans: "grown u v \<Longrightarrow> grown v x \<Longrightarrow> grown u x"
  unfolding grown_def by (elim conjE exE) (auto intro!: exI)

lemma grown_ok: "grown u u' \<Longrightarrow> ukg_ok u' \<and> readable u'"
  by (simp add: grown_def)

lemma grown_ids:
  assumes "grown u u'" "j \<in> set (capture_ids u)" "i \<le> j"
  shows "i \<in> set (capture_ids u') \<longleftrightarrow> i \<in> set (capture_ids u)"
  using assms by (force simp: grown_def)

lemma grown_sub: "grown u u' \<Longrightarrow> set (capture_ids u) \<subseteq> set (capture_ids u')"
  by (auto simp: grown_def)

lemma grown_same:
  assumes "ukg_ok u'" "readable u" "uk_captures u' = uk_captures u"
  shows "grown u u'"
  using assms by (simp add: grown_def readable_def capture_ids_def)

lemma grown_mark:
  assumes "ukg_ok u'" "readable u" "uk_captures u' = tbl_map f (uk_captures u)"
    and "\<And>i r. wc_name (f i r) = wc_name r \<and> wc_window_title (f i r) = wc_window_title r"
  shows "grown u u'"
proof -
  have "live_row_of (i, f i r) \<noteq> None \<longleftrightarrow> live_row_of (i, r) \<noteq> None" for i r
    using assms(4) by (simp split: option.splits)
  then have "readable u'" using assms(2,3) by (auto simp: readable_def tbl_map_def simp del: live_row_of.simps)
  moreover have "capture_ids u' = capture_ids u" using assms(3) by (simp add: capture_ids_def)
  ultimately show ?thesis using assms(1) by (simp add: grown_def)
qed

lemma grown_insert:
  assumes "ukg_ok u" "readable u" "insert_capture rec u = (r, u')"
  shows "grown u u'"
proof (cases "find_capture_by_token (wcr_image_token rec) u")
  case (Some i)
  then show ?thesis using insert_capture_known assms grown_refl by fastforce
next
  case None
  have below: "\<forall>j \<in> set (capture_ids u). j < tbl_seq (uk_captures u) + 1"
    using ukg_ok_captures(1) [OF assms(1)] by (auto simp: tbl_ok_def capture_ids_def)
  show ?thesis
  proof (rule insert_capture_fresh [OF assms(1) None])
    fix v assume v: "insert_capture rec u = (Inr (tbl_seq (uk_captures u) + 1), v)" "ukg_ok v"
      "uk_captures v = snd (tbl_insert (capture_row_of rec) (uk_captures u))"
    then have "readable v" using assms(2) by (auto simp: readable_def tbl_insert_def capture_row_of_def)
    then show "grown u u'"
      using v assms(3) below by (auto simp: grown_def capture_ids_def tbl_ids_insert)
  qed
qed

lemma grown_step:
  assumes "ukg_ok u" "readable u" "quiet_step u u'"
  shows "grown u u'"
proof -
  have step: "ukg_step u u'" and quiet: "u' \<noteq> purge_all u" using assms(3) by (simp_all add: quiet_step_def)
  have ok: "ukg_ok u'" by (rule ukg_step_ok [OF assms(1) step])
  note same = grown_same [OF ok assms(2)] and mark = grown_mark [OF ok assms(2)]
  show ?thesis
    using step
  proof (rule ukg_stepE)
    show "insert_capture rec u = (r, u') \<Longrightarrow> grown u u'" for rec r
      by (rule grown_insert [OF assms(1,2)])
    show "attach_topic wc title score u = (r, u') \<Longrightarrow> grown u u'" for wc title score r
      by (rule same) (auto simp: attach_topic_def Let_def split: sum.splits prod.splits if_splits)
    show "u' = mark_processed wc u \<Longrightarrow> grown u u'" for wc
      by (rule mark [where f = "\<lambda>i r. if i = wc then r\<lparr>wc_is_processed := 1\<rparr> else r"])
        (simp_all add: mark_processed_def)
    show "u' = mark_all_unprocessed u \<Longrightarrow> grown u u'"
      by (rule mark [where f = "\<lambda>i r. r\<lparr>wc_is_processed := 0\<rparr>"]) (simp_all add: mark_all_unprocessed_def)
  qed (rule same; use quiet in \<open>auto simp: touch_client_def add_app_dwell_def add_web_dwell_def set_config_def
      reset_image_embedding_states_def set_image_embedding_state_def touch_enrich_attempt_def split: if_splits\<close>)+
qed

lemma grown_steps:
  assumes "quiet_step\<^sup>*\<^sup>* u u'" "ukg_ok u" "readable u"
  shows "grown u u'"
  using assms
proof (induction rule: rtranclp_induct)
  case base
  then show ?case by (simp add: grown_refl)
next
  case (step v x)
  then have "grown u v" by simp
  then show ?case using grown_step [OF _ _ step(2)] grown_ok grown_trans by blast
qed

lemma successively_grown:
  assumes "successively quiet_step\<^sup>*\<^sup>* us" "us \<noteq> []" "ukg_ok (hd us)" "readable (hd us)"
  shows "successively grown us \<and> (\<forall>u \<in> set us. ukg_ok u \<and> readable u)"
  using assms
proof (induction us)
  case (Cons u us)
  show ?case
  proof (cases us)
    case (Cons v vs)
    have g: "grown u v" using Cons.prems(1,3,4) Cons by (auto intro: grown_steps)
    then show ?thesis using Cons.IH Cons.prems Cons grown_ok [OF g] by simp
  qed (use Cons.prems in simp)
qed simp

lemma successively_last:
  assumes "successively grown (u # us)" "ukg_ok u" "readable u"
  shows "grown u (last (u # us))"
  using assms
proof (induction us arbitrary: u)
  case (Cons v us)
  have v: "grown u v" using Cons.prems(1) by simp
  have "grown v (last (v # us))"
    by (rule Cons.IH) (use Cons.prems(1) v in \<open>simp_all add: grown_def\<close>)
  from grown_trans [OF v this] show ?case by simp
qed (simp add: grown_refl)

lemma live_loop_ids:
  assumes "successively grown us" "us \<noteq> []" "\<forall>u \<in> set us. ukg_ok u \<and> readable u"
    and "live_loop (map Some us) l = (sent, l')"
  shows "sorted_wrt (<) (map lr_window_capture_id sent)
     \<and> lr_window_capture_id ` set sent = {i \<in> set (capture_ids (last us)). l < i \<and> i \<le> l'} \<and> l \<le> l'
     \<and> (l' = l \<or> l' \<in> set (capture_ids (last us)))"
  using assms
proof (induction us arbitrary: l sent l')
  case (Cons u us)
  obtain rows l1 where t: "live_tick (Some u) l = (rows, l1)" by (cases "live_tick (Some u) l")
  have ok: "ukg_ok u" "readable u" using Cons.prems(3) by simp_all
  note tick = tick_facts [OF ok t, unfolded set_map]
  show ?case
  proof (cases "us = []")
    case True
    then show ?thesis using Cons.prems(4) t tick by auto
  next
    case False
    obtain more l2 where m: "live_loop (map Some us) l1 = (more, l2)" by (cases "live_loop (map Some us) l1")
    have sent: "sent = rows @ more" "l' = l2" using Cons.prems(4) t m by simp_all
    have rest: "successively grown us" "\<forall>u \<in> set us. ukg_ok u \<and> readable u"
      using Cons.prems(1,3) False by (auto simp: successively_Cons)
    note IH = Cons.IH [OF rest(1) False rest(2) m]
    have later: "grown u (last us)" using successively_last [OF Cons.prems(1) ok] False by simp
    have same: "i \<in> set (capture_ids (last us)) \<longleftrightarrow> i \<in> set (capture_ids u)" if "l < i" "i \<le> l1" for i
      using tick(4) grown_ids [OF later _ that(2)] that by auto
    have "lr_window_capture_id ` set sent = {i \<in> set (capture_ids u). l < i \<and> i \<le> l1}
        \<union> {i \<in> set (capture_ids (last us)). l1 < i \<and> i \<le> l2}"
      using IH tick(2) by (simp add: sent image_Un)
    then have set: "lr_window_capture_id ` set sent = {i \<in> set (capture_ids (last us)). l < i \<and> i \<le> l'}"
      using IH tick(3) same by (auto simp: sent)
    have "\<forall>x \<in> set (map lr_window_capture_id rows). \<forall>y \<in> set (map lr_window_capture_id more). x < y"
      using IH tick(2) by fastforce
    then have "sorted_wrt (<) (map lr_window_capture_id sent)"
      using IH tick(1) by (simp add: sent sorted_wrt_append)
    then show ?thesis
      using IH tick(3,4) grown_sub [OF later] False set by (auto simp: sent)
  qed
qed simp

text \<open>A tick whose page leaves out a waiting capture took fifty older ones; one tick is enough for the
  first fifty, and otherwise the next tick has fifty fewer before that capture.\<close>

lemma tick_delivers:
  assumes "ukg_ok u" "readable u" "live_tick (Some u) l = (rows, l1)" "i \<in> set (capture_ids u)" "l < i"
    and "card {j \<in> set (capture_ids u). l < j \<and> j \<le> i} \<le> 50"
  shows "i \<in> lr_window_capture_id ` set rows"
proof (rule ccontr)
  note tick = tick_facts [OF assms(1-3), unfolded set_map]
  assume out: "i \<notin> lr_window_capture_id ` set rows"
  then have "l1 < i" "length rows = 50" using tick(2,5) assms(4,5) by force+
  moreover have "distinct (map lr_window_capture_id rows)" using tick(1) by (simp add: strict_sorted_iff)
  ultimately have "card (insert i (lr_window_capture_id ` set rows)) = 51"
    using out by (simp add: card_insert_if distinct_card flip: set_map)
  moreover have "insert i (lr_window_capture_id ` set rows) \<subseteq> {j \<in> set (capture_ids u). l < j \<and> j \<le> i}"
    using tick(2) assms(4,5) \<open>l1 < i\<close> by auto
  then have "card (insert i (lr_window_capture_id ` set rows)) \<le> card {j \<in> set (capture_ids u). l < j \<and> j \<le> i}"
    by (intro card_mono) simp_all
  ultimately show False using assms(6) by simp
qed

lemma tick_backlog:
  assumes "ukg_ok u" "readable u" "live_tick (Some u) l = (rows, l1)" "i \<in> set (capture_ids u)" "l1 < i"
    and later: "grown u v"
  shows "card {j \<in> set (capture_ids u). l < j \<and> j \<le> i}
       = 50 + card {j \<in> set (capture_ids v). l1 < j \<and> j \<le> i}"
proof -
  note tick = tick_facts [OF assms(1-3), unfolded set_map]
  have "length rows = 50" using tick(5) assms(4,5) by force
  moreover have "distinct (map lr_window_capture_id rows)" using tick(1) by (simp add: strict_sorted_iff)
  ultimately have "card (lr_window_capture_id ` set rows) = 50" by (simp add: distinct_card flip: set_map)
  moreover have "{j \<in> set (capture_ids v). l1 < j \<and> j \<le> i} = {j \<in> set (capture_ids u). l1 < j \<and> j \<le> i}"
    using grown_ids [OF later assms(4)] by blast
  then have "{j \<in> set (capture_ids u). l < j \<and> j \<le> i}
      = lr_window_capture_id ` set rows \<union> {j \<in> set (capture_ids v). l1 < j \<and> j \<le> i}"
    using tick(2,3) assms(5) by auto
  moreover have "lr_window_capture_id ` set rows \<inter> {j \<in> set (capture_ids v). l1 < j \<and> j \<le> i} = {}"
    using tick(2) by auto
  ultimately show ?thesis by (simp add: card_Un_disjoint)
qed

lemma live_loop_delivers:
  assumes "successively grown (u # us)" "\<forall>u \<in> set (u # us). ukg_ok u \<and> readable u"
    and "live_loop (map Some (u # us)) l = (sent, l')"
    and "i \<in> set (capture_ids u)" "l < i"
    and "card {j \<in> set (capture_ids u). l < j \<and> j \<le> i} \<le> 50 * length (u # us)"
  shows "i \<in> lr_window_capture_id ` set sent"
  using assms
proof (induction us arbitrary: u l sent l')
  case (Nil u)
  obtain l1 where t: "live_tick (Some u) l = (sent, l1)" using Nil.prems(3) by (auto split: prod.splits)
  show ?case by (rule tick_delivers [OF _ _ t Nil.prems(4,5)]) (use Nil.prems(2,6) in simp_all)
next
  case (Cons v us u)
  obtain rows l1 where t: "live_tick (Some u) l = (rows, l1)" by (cases "live_tick (Some u) l")
  obtain more l2 where m: "live_loop (map Some (v # us)) l1 = (more, l2)" by (cases "live_loop (map Some (v # us)) l1")
  have sent: "sent = rows @ more" using Cons.prems(3) t m by (simp split: prod.splits)
  have ok: "ukg_ok u" "readable u" using Cons.prems(2) by simp_all
  have later: "grown u v" using Cons.prems(1) by simp
  show ?case
  proof (cases "i \<le> l1")
    case True
    then show ?thesis using tick_facts(2) [OF ok t] Cons.prems(4,5) by (auto simp: sent)
  next
    case False
    then have "card {j \<in> set (capture_ids v). l1 < j \<and> j \<le> i} \<le> 50 * length (v # us)"
      using tick_backlog [OF ok t Cons.prems(4) _ later] Cons.prems(6) by simp
    from Cons.IH [OF _ _ m _ _ this] show ?thesis
      using Cons.prems(1,2,4) False grown_sub [OF later] by (auto simp: sent)
  qed
qed

section \<open>Properties\<close>

text \<open>C5. The live stream loses nothing: while the database evolves by any operations of the store
  except the panic button, what a subscriber gets is strictly increasing in the capture id and is
  exactly the captures between the id it started from and the id it has reached; and a capture
  that was there at the first tick with at most 50 pending captures per tick up to it has been
  sent after that many ticks.\<close>

theorem live_stream_complete:
  assumes "successively quiet_step\<^sup>*\<^sup>* us" "us \<noteq> []" "ukg_ok (hd us)" "readable (hd us)"
    and "live_loop (map Some us) l = (sent, l')"
  shows "sorted_wrt (<) (map lr_window_capture_id sent)
     \<and> lr_window_capture_id ` set sent = {i \<in> set (capture_ids (last us)). l < i \<and> i \<le> l'}
     \<and> (\<forall>i \<in> set (capture_ids (hd us)).
          l < i \<and> card {j \<in> set (capture_ids (hd us)). l < j \<and> j \<le> i} \<le> 50 * length us
          \<longrightarrow> i \<in> lr_window_capture_id ` set sent)"
proof -
  note grow = successively_grown [OF assms(1-4)]
  obtain u vs where us: "us = u # vs" using assms(2) by (cases us) auto
  note ids = live_loop_ids [OF _ assms(2) _ assms(5)]
  show ?thesis
    using ids grow live_loop_delivers [of u vs l sent l'] assms(5) by (auto simp: us)
qed

lemma example_readable: "readable example_ukg"
  by (simp add: readable_def example_ukg_rows capture_row_of_def)

theorem live_stream_complete_witness:
  "lr_window_capture_id ` set (fst (live_loop [Some example_ukg, Some (set_config ''k'' ''v'' example_ukg)] 0)) = {1}"
proof -
  let ?us = "[example_ukg, set_config ''k'' ''v'' example_ukg]"
  have "capture_ids (purge_all example_ukg) = []"
    by (simp add: purge_all_def capture_ids_def tbl_ids_def tbl_delete_all_def)
  then have "quiet_step example_ukg (set_config ''k'' ''v'' example_ukg)"
    using ukg_step.config [of example_ukg "''k''" "''v''"]
    by (auto simp: quiet_step_def set_config_def capture_ids_def tbl_ids_def example_ukg_rows dest!: arg_cong [of _ _ capture_ids])
  then have steps: "successively quiet_step\<^sup>*\<^sup>* ?us" by auto
  obtain sent l' where run: "live_loop (map Some ?us) 0 = (sent, l')" by (metis prod.exhaust)
  have ids: "set (capture_ids (last ?us)) = {1}" "set (capture_ids (hd ?us)) = {1}"
    by (simp_all add: set_config_def capture_ids_def tbl_ids_def example_ukg_rows)
  have "ukg_ok (hd ?us)" "readable (hd ?us)" using example_ukg_ok example_readable by simp_all
  note stream = live_stream_complete [OF steps _ this run, simplified ids]
  have "{j \<in> {1}. 0 < j \<and> j \<le> (1 :: int)} = {1}" by auto
  then have "1 \<in> lr_window_capture_id ` set sent" using stream [THEN conjunct2, THEN conjunct2] by simp
  moreover have "lr_window_capture_id ` set sent \<subseteq> {1}" using stream by auto
  ultimately show ?thesis using run by auto
qed

text \<open>C10. The panic button of a client: with the client named by its canonical id the request answers
  204, every capture of the client is gone and every file of its object directory too, while other
  clients and all other files are as before. What it does not reach is the client's vector stores.
  With the same id written differently (a UUID parses in upper case) it answers 204 as well and
  deletes the captures, but every object stays.\<close>

theorem wipe_scope:
  assumes "al_parse_uuid libs client = Some cid" "map_of (bd_clients d) cid = Some dbs"
    and "no_faults (bd_fs d)" "plain_component client" "plain_component cid"
    and "wipe_client libs st d client = (r, d')"
  shows "r = Inr 204 \<and> capture_ids (db_ukg (client_dbs_of cid d')) = []
     \<and> (\<forall>p. fs_files (bd_fs d') p =
          (if path_starts_with p (ap_data_root st @ [cid, ''objects'', client]) then None else fs_files (bd_fs d) p))
     \<and> (\<forall>other. other \<noteq> cid \<longrightarrow> client_dbs_of other d' = client_dbs_of other d)
     \<and> db_text (client_dbs_of cid d') = db_text dbs \<and> db_image (client_dbs_of cid d') = db_image dbs
     \<and> (client \<noteq> cid \<longrightarrow> (\<forall>date token ext. media_ext ext \<longrightarrow>
          (let p = ap_data_root st @ [cid, ''objects''] @ key_path cid date token ext
           in fs_files (bd_fs d') p = fs_files (bd_fs d) p)))"
proof -
  let ?dir = "ap_data_root st @ [cid, ''objects'', client]"
  let ?fs = "bd_fs d\<lparr>fs_files := (\<lambda>p. if path_starts_with p ?dir then None else fs_files (bd_fs d) p)\<rparr>"
  have pc: "path_components [client] = [client]"
    using assms(4) by (simp add: path_components_def plain_component_def)
  have run: "r = Inr 204" "d' = put_dbs cid (dbs\<lparr>db_ukg := purge_all (db_ukg dbs)\<rparr>) (d\<lparr>bd_fs := ?fs\<rparr>)"
    using assms(1-3,6)
    by (simp_all add: wipe_client_def client_dir_def api_objects_def object_store_encrypted_def object_store_open_def
        fs_create_dir_all_def no_faults_def purge_client_def pc client_db_def Let_def)
  have dbs: "client_dbs_of cid d' = dbs\<lparr>db_ukg := purge_all (db_ukg dbs)\<rparr>" by (simp add: run(2))
  have others: "client_dbs_of other d' = client_dbs_of other d" if "other \<noteq> cid" for other
    using put_dbs_other [OF that] by (simp add: run(2) client_dbs_of_def)
  have files: "bd_fs d' = ?fs" by (simp add: run(2))
  have "capture_ids (purge_all (db_ukg dbs)) = []"
    by (simp add: purge_all_def capture_ids_def tbl_ids_def tbl_delete_all_def)
  moreover have "\<not> path_starts_with (ap_data_root st @ [cid, ''objects''] @ key_path cid date token ext) ?dir"
    if "client \<noteq> cid" "media_ext ext" for date token ext
    using that key_path_components [OF assms(5) that(2)]
    by (cases date) (auto simp: path_starts_with_def)
  ultimately show ?thesis
    using run(1) others by (simp add: dbs files Let_def)
qed

theorem wipe_scope_witness:
  "\<exists>d1 d2. wipe_client example_libs example_state served_disk ''c'' = (Inr 204, d1)
     \<and> wipe_client example_libs example_state served_disk ''C'' = (Inr 204, d2)
     \<and> capture_ids (db_ukg (client_dbs_of ''c'' d1)) = []
     \<and> client_dbs_of ''o'' d1 = client_dbs_of ''o'' served_disk
     \<and> (\<forall>date token. fs_files (bd_fs d2) ([''d'', ''c'', ''objects''] @ key_path ''c'' date token ''jpg'')
          = fs_files (bd_fs served_disk) ([''d'', ''c'', ''objects''] @ key_path ''c'' date token ''jpg''))"
proof -
  have root: "ap_data_root example_state = [''d'']" "media_ext ''jpg''"
    by (simp_all add: example_state_def media_ext_def)
  obtain r1 d1 where 1: "wipe_client example_libs example_state served_disk ''c'' = (r1, d1)" by (metis prod.exhaust)
  obtain r2 d2 where 2: "wipe_client example_libs example_state served_disk ''C'' = (r2, d2)" by (metis prod.exhaust)
  have "al_parse_uuid example_libs ''c'' = Some ''c''" "al_parse_uuid example_libs ''C'' = Some ''c''"
    by (simp_all add: example_libs_def)
  moreover have "map_of (bd_clients served_disk) ''c'' = Some example_store" "no_faults (bd_fs served_disk)"
    by (simp_all add: served_disk_def example_fs_def no_faults_def)
  moreover have "plain_component ''c''" "plain_component ''C''"
    by (simp_all add: plain_component_def clean_def clean_char_def ascii_alnum_def)
  moreover have "''C'' \<noteq> ''c''" by simp
  ultimately have
    w1: "r1 = Inr 204 \<and> capture_ids (db_ukg (client_dbs_of ''c'' d1)) = []
       \<and> client_dbs_of ''o'' d1 = client_dbs_of ''o'' served_disk"
    and w2: "r2 = Inr 204" "\<forall>date token ext. media_ext ext \<longrightarrow>
          (let p = ap_data_root example_state @ [''c'', ''objects''] @ key_path ''c'' date token ext
           in fs_files (bd_fs d2) p = fs_files (bd_fs served_disk) p)"
    using wipe_scope [OF _ _ _ _ _ 1, of "''c''" example_store]
      wipe_scope [OF _ _ _ _ _ 2, of "''c''" example_store] by (simp, blast, blast)
  have "fs_files (bd_fs d2) ([''d'', ''c'', ''objects''] @ key_path ''c'' date token ''jpg'')
      = fs_files (bd_fs served_disk) ([''d'', ''c'', ''objects''] @ key_path ''c'' date token ''jpg'')" for date token
    using w2(2) [rule_format, OF root(2), of date token] by (simp add: root(1) Let_def)
  then show ?thesis using 1 2 w1 w2(1) by blast
qed

text \<open>A subscriber that spells the id of a known client in another way is accepted, but its stream
  looks at a database of its own, which the request creates and no capture ever reaches.\<close>

lemma live_ws_other_spelling:
  assumes "al_parse_uuid libs client = Some cid" "map_of (bd_clients d) cid = Some dbs"
    and "map_of (bd_clients d) client = None"
  shows "\<exists>d'. live_ws libs d client = (Inr (), d') \<and> live_db d' client = Some ukg_new
     \<and> (\<forall>other. other \<noteq> client \<longrightarrow> map_of (bd_clients d') other = map_of (bd_clients d) other)"
  using assms
  by (simp add: live_ws_def client_db_def live_db_def put_dbs_def client_dbs_of_def update_conv)

end
