(* ===== verification/Headless_Stream.thy ===== *)
theory Headless_Stream
  imports Ingest_Safety
begin

text \<open>
  The headless client's program (\<open>precall-mock/src/lib.rs\<close> and \<open>main.rs\<close>): its hello, its
  synthetic captures, the stream it sends, and what becomes of a stream in the broker's stores.
  The JPEG encoder is an argument (raw RGB bytes, width, height).
\<close>

section \<open>Synthetic captures\<close>

text \<open>The three bytes of the pixel at column \<open>x\<close> of row \<open>y\<close>.\<close>

definition synth_pixel :: "u32 \<Rightarrow> u32 \<Rightarrow> u64 \<Rightarrow> u32 \<Rightarrow> u32 \<Rightarrow> bytes" where
  "synth_pixel width height seed x y =
     [ucast ((ucast x * 255 div ucast (max width 1)) XOR seed),
      ucast ((ucast y * 255 div ucast (max height 1)) XOR drop_bit 8 seed),
      ucast seed * 31 XOR ucast x XOR ucast y]"

definition synthesize_jpeg :: "(bytes \<Rightarrow> u32 \<Rightarrow> u32 \<Rightarrow> bytes) \<Rightarrow> u32 \<Rightarrow> u32 \<Rightarrow> u64 \<Rightarrow> bytes" where
  "synthesize_jpeg enc width height seed =
     enc (concat (map (\<lambda>y. concat (map (\<lambda>x. synth_pixel width height seed (word_of_nat x) (word_of_nat y))
            [0..<unat width])) [0..<unat height])) width height"

definition show_u64 :: "u64 \<Rightarrow> string" where
  "show_u64 n = dec_digits (unat n)"

definition backslash :: string where
  "backslash = [CHR 0x5C]"

definition sample_meta :: "u64 \<Rightarrow> string \<Rightarrow> window_capture_record" where
  "sample_meta client_frame token =
     \<lparr>wcr_name = ''Precall test page '' @ show_u64 client_frame,
      wcr_image_token = token,
      wcr_is_foreground = True,
      wcr_window_id = i64_wrap (0x1000 + sint client_frame),
      wcr_window_bounds = ''0,0,1280,720'',
      wcr_window_title = ''Kerberos ticket '' @ show_u64 client_frame @ '' - Precall mock'',
      wcr_properties = None,
      wcr_timestamp_100ns = 133000000000000000 + client_frame * 5 * 10000000,
      wcr_activation_uri = Some (''precall://relaunch/'' @ show_u64 client_frame),
      wcr_activity_id = None,
      wcr_fallback_uri = None,
      wcr_apps =
        [\<lparr>app_windows_app_id = None, app_icon_uri = None, app_name = ''precall-mock.exe'',
          app_path = Some (''C:'' @ backslash @ ''Precall'' @ backslash @ ''precall-mock.exe''),
          app_properties = None\<rparr>],
      wcr_files =
        [\<lparr>file_path = ''C:'' @ backslash @ ''docs'' @ backslash @ ''spec-'' @ show_u64 client_frame @ ''.txt'',
          file_name = ''spec-'' @ show_u64 client_frame @ ''.txt'', file_extension = Some ''txt'',
          file_kind = Some ''document'', file_type = None, file_properties = None,
          file_object_id = None, file_volume_id = None\<rparr>],
      wcr_webs =
        [\<lparr>web_domain = ''example.test'', web_uri = ''https://example.test/page/'' @ show_u64 client_frame,
          web_icon_uri = None, web_properties = None\<rparr>],
      wcr_regions =
        [\<lparr>sreg_region_kind = ''text_block'',
          sreg_ocr_text = Some (''The Kerberos V5 protocol page '' @ show_u64 client_frame
            @ '' mentions tickets and realms''),
          sreg_bounds = ''0,0,1280,720''\<rparr>]\<rparr>"

section \<open>The program (main.rs)\<close>

definition mock_hello_of :: "uuid \<Rightarrow> string \<Rightarrow> auth_method \<Rightarrow> string \<Rightarrow> client_hello" where
  "mock_hello_of client_id hostname auth version =
     \<lparr>ch_protocol_version = PROTOCOL_VERSION, ch_client_id = client_id, ch_hostname = hostname,
      ch_auth = auth,
      ch_capabilities =
        \<lparr>cap_displays = [\<lparr>di_surface_id = 0, di_width = 1280, di_height = 720, di_origin_x = 0,
                          di_origin_y = 0\<rparr>],
         cap_channels = all_channels,
         cap_codec_ids = [RDPGFX_CODECID_JPEG],
         cap_capture_interval_ms = 5000,
         cap_client_build = ''precall-mock/'' @ version\<rparr>\<rparr>"

definition stream_token :: "u64 \<Rightarrow> string" where
  "stream_token i = ''mock-img-'' @ pad0 4 (show_u64 i)"

definition stream_capture :: "(bytes \<Rightarrow> u32 \<Rightarrow> u32 \<Rightarrow> bytes) \<Rightarrow> u64 \<Rightarrow> bytes \<times> window_capture_record" where
  "stream_capture enc i = (synthesize_jpeg enc 1280 720 i, sample_meta i (stream_token i))"

text \<open>The loop of \<open>stream\<close> behind the connection, without its sleeps and its output.\<close>

definition mock_stream ::
  "(capture_batch \<Rightarrow> string + bytes) \<Rightarrow> (control_message \<Rightarrow> string + bytes) \<Rightarrow> (bytes \<Rightarrow> u32 \<Rightarrow> u32 \<Rightarrow> bytes)
     \<Rightarrow> u64 \<Rightarrow> (connection, proto_error, unit) action" where
  "mock_stream ser ser_ctrl enc count =
     act_bind
       (act_for (\<lambda>i _.
          act_bind (case stream_capture enc i of (jpeg, meta) \<Rightarrow> mock_send_capture ser jpeg meta)
            (\<lambda>_. mock_heartbeat ser_ctrl (i + 1) 0))
          (map word_of_nat [0..<unat count]) ())
       (\<lambda>_. mock_close ser_ctrl)"

section \<open>The captures on the wire\<close>

text \<open>
  \<open>carries env caps fs\<close>: the frames \<open>fs\<close> carry the captures \<open>caps\<close>, each as a frame of PDUs and
  one of metadata, with any control frames between them.
\<close>

inductive carries :: "session_env \<Rightarrow> (bytes \<times> window_capture_record) list \<Rightarrow> mux_frame list \<Rightarrow> bool"
  for env :: session_env where
  carries_nothing: "carries env [] []"
| carries_capture:
    "channel g = GfxRdp \<Longrightarrow> gfx_iter (payload g) = map Inr (mock_frame_pdus fid ts jpeg)
      \<Longrightarrow> channel m = PcMeta
      \<Longrightarrow> se_parse_batch env (payload m) = Inr \<lparr>cb_client_id = se_client env, cb_seq = seq, cb_captures = [meta]\<rparr>
      \<Longrightarrow> carries env caps fs \<Longrightarrow> carries env ((jpeg, meta) # caps) (g # m # fs)"
| carries_control: "channel f = PcCtrl \<Longrightarrow> carries env caps fs \<Longrightarrow> carries env caps (f # fs)"

lemma carries_append: "carries env caps fs \<Longrightarrow> carries env caps' fs' \<Longrightarrow> carries env (caps @ caps') (fs @ fs')"
  by (induction rule: carries.induct) (auto intro: carries.intros)

text \<open>\<open>transmits env caps m\<close>: when the sending action \<open>m\<close> succeeds, it has put frames on the wire that
  carry \<open>caps\<close>.\<close>

definition transmits :: "session_env \<Rightarrow> (bytes \<times> window_capture_record) list \<Rightarrow> (connection, proto_error, unit) action \<Rightarrow> bool" where
  "transmits env caps m \<longleftrightarrow>
     (\<forall>c c'. conn_client_id c = se_client env \<longrightarrow> m c = (Inr (), c') \<longrightarrow>
        conn_client_id c' = se_client env
        \<and> (\<exists>fs. mux_encode_all fs (conn_wire c) = Inr (conn_wire c') \<and> carries env caps fs))"

lemma transmits_return: "transmits env [] (act_return ())"
  using carries_nothing by (force simp: transmits_def act_return_def)

lemma transmits_bind:
  assumes "transmits env caps m" "transmits env caps' (f ())"
  shows "transmits env (caps @ caps') (act_bind m f)"
  unfolding transmits_def
proof (intro allI impI)
  fix c c' assume id: "conn_client_id c = se_client env" and run: "act_bind m f c = (Inr (), c')"
  then obtain c1 where c1: "m c = (Inr (), c1)" "f () c1 = (Inr (), c')"
    by (auto simp: act_bind_def split: prod.splits sum.splits)
  obtain fs where fs: "conn_client_id c1 = se_client env" "mux_encode_all fs (conn_wire c) = Inr (conn_wire c1)"
    "carries env caps fs" using assms(1) id c1(1) unfolding transmits_def by blast
  obtain fs' where "conn_client_id c' = se_client env" "mux_encode_all fs' (conn_wire c1) = Inr (conn_wire c')"
    "carries env caps' fs'" using assms(2) fs(1) c1(2) unfolding transmits_def by blast
  then show "conn_client_id c' = se_client env
      \<and> (\<exists>fs. mux_encode_all fs (conn_wire c) = Inr (conn_wire c') \<and> carries env (caps @ caps') fs)"
    using fs carries_append by (force simp: mux_encode_all_append)
qed

lemma transmits_for:
  "(\<And>x. x \<in> set xs \<Longrightarrow> transmits env (g x) (f x)) \<Longrightarrow> transmits env (concat (map g xs)) (act_for (\<lambda>x _. f x) xs ())"
  by (induction xs) (auto intro: transmits_return transmits_bind)

lemma transmits_control: "transmits env [] (send_mux PcCtrl pl)"
  unfolding transmits_def
proof (intro allI impI)
  fix c c' assume "conn_client_id c = se_client env" "send_mux PcCtrl pl c = (Inr (), c')"
  moreover have "carries env [] [\<lparr>channel = PcCtrl, payload = pl\<rparr>]"
    by (simp add: carries_control carries_nothing)
  ultimately show "conn_client_id c' = se_client env
      \<and> (\<exists>fs. mux_encode_all fs (conn_wire c) = Inr (conn_wire c') \<and> carries env [] fs)"
    by (auto simp: send_mux_encode intro!: exI [of _ "[\<lparr>channel = PcCtrl, payload = pl\<rparr>]"])
qed

lemma transmits_printed:
  assumes "\<And>c. m c = (case printed of Inl e \<Rightarrow> (Inl (err e), c) | Inr pl \<Rightarrow> send_mux PcCtrl pl c)"
  shows "transmits env [] m"
proof (cases printed)
  case (Inl e)
  then show ?thesis by (simp add: transmits_def assms)
next
  case (Inr pl)
  then have "m = send_mux PcCtrl pl" by (intro ext) (simp add: assms)
  then show ?thesis by (simp add: transmits_control)
qed

lemma transmits_heartbeat: "transmits env [] (mock_heartbeat ser sent queue)"
  by (rule transmits_printed) (simp add: mock_heartbeat_def)

lemma transmits_close: "transmits env [] (mock_close ser)"
  by (rule transmits_printed) (simp add: mock_close_def)

lemma mock_gfx_length:
  "length jpeg \<le> length (foldl (\<lambda>dst p. gfx_encode p dst) [] (mock_frame_pdus fid ts jpeg))"
  by (simp add: mock_frame_pdus_def length_gfx_encode GFX_HEADER_LEN_def)

lemma transmits_capture:
  assumes json: "\<And>b pl. ser b = Inr pl \<Longrightarrow> se_parse_batch env pl = Inr b"
  shows "transmits env [(jpeg, meta)] (mock_send_capture ser jpeg meta)"
  unfolding transmits_def
proof (intro allI impI)
  fix c c' assume client: "conn_client_id c = se_client env" and sent: "mock_send_capture ser jpeg meta c = (Inr (), c')"
  let ?fid = "conn_frame_id c + 1"
  let ?gfx = "foldl (\<lambda>dst p. gfx_encode p dst) [] (mock_frame_pdus ?fid (wcr_timestamp_100ns meta) jpeg)"
  let ?batch = "\<lparr>cb_client_id = conn_client_id c, cb_seq = conn_seq c + 1, cb_captures = [meta]\<rparr>"
  let ?g = "\<lparr>channel = GfxRdp, payload = ?gfx\<rparr>"
  from sent obtain pl w where g: "mux_encode ?g (conn_wire c) = Inr w" and ser: "ser ?batch = Inr pl"
    and m: "send_mux PcMeta pl (c\<lparr>conn_frame_id := ?fid, conn_wire := w, conn_seq := conn_seq c + 1\<rparr>) = (Inr (), c')"
    by (auto simp: mock_send_capture_def Let_def send_mux_def split: sum.splits)
  have "length ?gfx \<le> MAX_MUX_PAYLOAD" using g by (simp add: mux_encode_Inr)
  then have "gfx_iter ?gfx = map Inr (mock_frame_pdus ?fid (wcr_timestamp_100ns meta) jpeg)"
    using mock_gfx_length le_trans by (intro mock_frame_iter) blast
  then have "carries env [(jpeg, meta)] [?g, \<lparr>channel = PcMeta, payload = pl\<rparr>]"
    using json [OF ser] client by (intro carries_capture carries_nothing) simp_all
  with g m client show "conn_client_id c' = se_client env
      \<and> (\<exists>fs. mux_encode_all fs (conn_wire c) = Inr (conn_wire c') \<and> carries env [(jpeg, meta)] fs)"
    by (auto simp: send_mux_encode intro!: exI [of _ "[?g, \<lparr>channel = PcMeta, payload = pl\<rparr>]"])
qed

abbreviation mock_send_all ::
  "(capture_batch \<Rightarrow> string + bytes) \<Rightarrow> (bytes \<times> window_capture_record) list \<Rightarrow> (connection, proto_error, unit) action" where
  "mock_send_all ser caps \<equiv> act_for (\<lambda>(jpeg, meta) _. mock_send_capture ser jpeg meta) caps ()"

lemma transmits_all:
  assumes "\<And>b pl. ser b = Inr pl \<Longrightarrow> se_parse_batch env pl = Inr b"
  shows "transmits env caps (mock_send_all ser caps)"
proof -
  have "transmits env (concat (map (\<lambda>p. [p]) caps)) (act_for (\<lambda>p _. case p of (jpeg, meta) \<Rightarrow> mock_send_capture ser jpeg meta) caps ())"
    by (rule transmits_for) (auto split: prod.splits intro!: transmits_capture assms)
  then show ?thesis by (simp add: case_prod_beta')
qed

lemma transmits_stream:
  assumes "\<And>b pl. ser b = Inr pl \<Longrightarrow> se_parse_batch env pl = Inr b"
  shows "transmits env (map (stream_capture enc) (map word_of_nat [0..<unat count])) (mock_stream ser ser_ctrl enc count)"
proof -
  have one: "transmits env [stream_capture enc i]
      (act_bind (case stream_capture enc i of (jpeg, meta) \<Rightarrow> mock_send_capture ser jpeg meta)
        (\<lambda>_. mock_heartbeat ser_ctrl (i + 1) 0))" for i
    using transmits_bind [OF transmits_capture [OF assms] transmits_heartbeat, of ser]
    by (simp add: stream_capture_def)
  have "transmits env (concat (map (\<lambda>i. [stream_capture enc i]) (map word_of_nat [0..<unat count])) @ [])
      (mock_stream ser ser_ctrl enc count)"
    unfolding mock_stream_def by (intro transmits_bind transmits_for one transmits_close)
  then show ?thesis by (simp add: concat_map_singleton comp_def)
qed

section \<open>The captures in the stores\<close>

lemma carried_captures_run:
  assumes "carries env caps fs" "no_faults (ss_fs s)" "ukg_ok (ss_ukg s)" "ss_pending s = []"
  obtains s' where "act_for (\<lambda>f _. handle_frame env f) fs () s = (Inr (), s')"
    "(se_objects env, ss_fs s') =
       put_all env (paired env (ss_draws s) (map snd caps) (map (jpeg_frame \<circ> fst) caps)) (se_objects env, ss_fs s)"
    "ss_ukg s' = insert_all (map snd caps) (ss_ukg s)" "ss_pending s' = []"
    "length (ss_live s') = length (ss_live s) + length caps"
  using assms
proof (induction arbitrary: s thesis rule: carries.induct)
  case carries_nothing
  show ?case by (rule carries_nothing(1) [of s]) (use carries_nothing(4) in \<open>simp_all add: act_return_def insert_all_def\<close>)
next
  case (carries_control f caps fs)
  have "handle_frame env f s = (Inr (), s)"
    using carries_control(1)
    by (auto simp: handle_frame_def handle_ctrl_def act_return_def split: sum.splits control_message.splits)
  then have skip: "act_for (\<lambda>f _. handle_frame env f) (f # fs) () s = act_for (\<lambda>f _. handle_frame env f) fs () s"
    by (simp add: act_bind_def)
  show ?case using carries_control(3) [OF _ carries_control(5-7)] carries_control(4) unfolding skip by blast
next
  case (carries_capture g fid ts jpeg m seq meta caps fs)
  define s1 where "s1 = fold gfx_event (mock_frame_pdus fid ts jpeg) s"
  have s1: "handle_frame env g s = (Inr (), s1)" "ss_pending s1 = [jpeg_frame jpeg]" "ss_fs s1 = ss_fs s"
    "ss_ukg s1 = ss_ukg s" "ss_draws s1 = ss_draws s" "ss_live s1 = ss_live s"
    using carries_capture(1,2,10) by (simp_all add: handle_frame_def handle_gfx_pdus s1_def mock_frame_events push_pending_def)
  have nf1: "no_faults (ss_fs s1)" "ukg_ok (ss_ukg s1)" using carries_capture(8,9) s1 by simp_all
  obtain s2 where s2: "act_for (\<lambda>rec _. store_capture env rec) [meta] () s1 = (Inr (), s2)"
    "(se_objects env, ss_fs s2) =
       put_all env (paired env (ss_draws s1) [meta] (ss_pending s1)) (se_objects env, ss_fs s1)"
    "ss_ukg s2 = insert_all [meta] (ss_ukg s1)" "ss_pending s2 = drop (length [meta]) (ss_pending s1)"
    "ss_frames s2 = ss_frames s1"
    "ss_draws s2 = ss_draws s1 + min (length [meta]) (length (ss_pending s1))"
    "length (ss_live s2) = length (ss_live s1) + length [meta]"
    by (rule store_captures_run [OF nf1])
  have m: "handle_frame env m s1 = (Inr (), s2)"
    using carries_capture(3,4) s2(1) by (auto simp: handle_frame_def handle_meta_def)
  have nf2: "no_faults (ss_fs s2)" "ukg_ok (ss_ukg s2)" "ss_pending s2 = []"
    using no_faults_put_all [OF nf1(1)] s2(2) later_insert_all [OF nf1(2)]
    by (metis snd_conv, simp add: s2(3) later_captures_def, simp add: s2(4) s1(2))
  obtain s3 where s3: "act_for (\<lambda>f _. handle_frame env f) fs () s2 = (Inr (), s3)"
    "(se_objects env, ss_fs s3) =
       put_all env (paired env (ss_draws s2) (map snd caps) (map (jpeg_frame \<circ> fst) caps)) (se_objects env, ss_fs s2)"
    "ss_ukg s3 = insert_all (map snd caps) (ss_ukg s2)" "ss_pending s3 = []"
    "length (ss_live s3) = length (ss_live s2) + length caps"
    by (rule carries_capture(6) [OF _ nf2])
  show ?case
  proof (rule carries_capture(7) [of s3])
    show "act_for (\<lambda>f _. handle_frame env f) (g # m # fs) () s = (Inr (), s3)"
      using s1(1) m s3(1) by (simp add: act_bind_def)
    show "(se_objects env, ss_fs s3) =
        put_all env (paired env (ss_draws s) (map snd ((jpeg, meta) # caps))
          (map (jpeg_frame \<circ> fst) ((jpeg, meta) # caps))) (se_objects env, ss_fs s)"
      using s2(2,6) s3(2) s1 by simp
  qed (use s1 s2 s3 in \<open>auto simp: insert_all_def\<close>)
qed

text \<open>Where a capture and its frame are kept.\<close>

definition kept_capture :: "session_env \<Rightarrow> session_state \<Rightarrow> bytes \<times> window_capture_record \<Rightarrow> bool" where
  "kept_capture env s p \<longleftrightarrow>
     (case p of (jpeg, meta) \<Rightarrow>
        obj_get (se_objects env) (se_client env)
          (key_path (se_client env) (ymd_from_filetime (timestamp_i64 meta)) (wcr_image_token meta) ''jpg'')
          (wcr_image_token meta) (ss_fs s) = Inr jpeg
        \<and> (\<exists>wc. tbl_get wc (uk_captures (ss_ukg s)) = Some (capture_row_of meta)))"

lemma carried_captures_are_kept:
  assumes "mux_encode_all fs' [] = Inr (concat chunks)" "carries env caps fs'"
    and "store_ready (se_client env) (se_objects env, fs)" "\<And>n. length (se_nonce env n) = 12" "ukg_ok u"
    and "distinct (map (\<lambda>(jpeg, meta). store_path (se_client env) (capture_key meta (jpeg_frame jpeg))) caps)"
    and "distinct (map (wcr_image_token \<circ> snd) caps)"
    and "\<forall>(jpeg, meta) \<in> set caps. find_capture_by_token (wcr_image_token meta) u = None"
  obtains s where "session_loop env chunks (session_start fs u) = (Inr (), s)"
    "\<forall>p \<in> set caps. kept_capture env s p"
proof -
  have fed: "feed_all mux_decode chunks = (fs', [], None)"
    by (rule mux.feed_all_drained [OF mux_drain_encoded [OF assms(1)]])
  let ?s0 = "session_start fs u"
  let ?q = "map (jpeg_frame \<circ> fst) caps"
  have nf: "no_faults (ss_fs ?s0)" "ukg_ok (ss_ukg ?s0)" "ss_pending ?s0 = []"
    using assms(3,5) by (simp_all add: session_start_def store_ready_def)
  obtain s where s: "act_for (\<lambda>f _. handle_frame env f) fs' () ?s0 = (Inr (), s)"
    "(se_objects env, ss_fs s) =
       put_all env (paired env (ss_draws ?s0) (map snd caps) ?q) (se_objects env, ss_fs ?s0)"
    "ss_ukg s = insert_all (map snd caps) (ss_ukg ?s0)"
    by (rule carried_captures_run [OF assms(2) nf])
  have run: "session_loop env chunks ?s0 = (Inr (), s)"
    using fed s(1) by (simp add: session_loop_def act_bind_def act_return_def)
  have dist: "distinct (map (\<lambda>(rec, f). store_path (se_client env) (capture_key rec f)) (zip (map snd caps) ?q))"
    using assms(6) by (simp add: zip_map_map zip_same_conv_map comp_def case_prod_beta')
  have files: "(se_objects env, ss_fs s) = put_all env (paired env 0 (map snd caps) ?q) (se_objects env, fs)"
    using s(2) by (simp add: session_start_def)
  have "kept_capture env s (jpeg, meta)" if in_caps: "(jpeg, meta) \<in> set caps" for jpeg meta
  proof -
    obtain i where i: "i < length caps" "caps ! i = (jpeg, meta)"
      using in_caps by (metis in_set_conv_nth)
    have "\<exists>wc. tbl_get wc (uk_captures (insert_all (map snd caps) u)) = Some (capture_row_of meta)"
      using assms(5,7,8) in_caps
      by (intro insert_all_stored) (auto simp: comp_def rev_image_eqI)
    then show ?thesis
      using paired_read [OF assms(3,4) dist _ _ files, of i] i s(3)
      by (simp add: kept_capture_def jpeg_frame_def frame_ext_def session_start_def)
  qed
  then show ?thesis using run by (intro that) auto
qed

section \<open>The tokens of a stream\<close>

text \<open>The digits of a number determine it.\<close>

definition digits_value :: "string \<Rightarrow> nat" where
  "digits_value s = foldl (\<lambda>n c. 10 * n + (of_char c - 48)) 0 s"

lemma digits_value_dec: "digits_value (dec_digits n) = n"
proof (induction n rule: dec_digits.induct)
  case (1 n)
  then show ?case
    by (cases "n < 10") (simp_all add: digits_value_def dec_digits.simps [of n])
qed

lemma digits_value_zeros: "digits_value (replicate k (CHR ''0'') @ s) = digits_value s"
  by (induction k) (simp_all add: digits_value_def)

lemma show_u64_inj: "show_u64 i = show_u64 j \<longleftrightarrow> i = j"
  unfolding show_u64_def by (metis digits_value_dec word_unat_eq_iff)

lemma stream_token_inj: "stream_token i = stream_token j \<longleftrightarrow> i = j"
proof
  assume "stream_token i = stream_token j"
  then have "digits_value (pad0 4 (show_u64 i)) = digits_value (pad0 4 (show_u64 j))"
    by (simp add: stream_token_def)
  then show "i = j" by (simp add: pad0_def digits_value_zeros show_u64_def digits_value_dec word_unat_eq_iff)
qed simp

lemma clean_char_digit: "digit_or_sign c \<Longrightarrow> clean_char c"
  by (auto simp: digit_or_sign_def clean_char_def ascii_alnum_def Let_def)

lemma clean_stream_token: "clean (stream_token i) = stream_token i"
proof -
  have "\<forall>c \<in> set (pad0 4 (show_u64 i)). clean_char c"
    using clean_char_digit dec_digits_chars by (auto simp: pad0_def show_u64_def clean_char_def ascii_alnum_def)
  then show ?thesis
    by (simp add: stream_token_def clean_def clean_char_def ascii_alnum_def)
qed

lemma key_path_token:
  assumes "plain_component client" "media_ext ext"
  shows "last (key_path client date token ext) = clean token @ ''.'' @ ext"
  using assms by (cases date) (simp add: key_path_components)

lemma stream_paths_distinct:
  assumes "plain_component client" "distinct is"
  shows "distinct (map (\<lambda>(jpeg, meta). store_path client (capture_key meta (jpeg_frame jpeg)))
    (map (stream_capture enc) is))"
proof -
  have "inj_on (\<lambda>i. store_path client (capture_key (snd (stream_capture enc i)) (jpeg_frame (fst (stream_capture enc i))))) (set is)"
  proof (rule inj_onI)
    fix i j
    assume eq: "store_path client (capture_key (snd (stream_capture enc i)) (jpeg_frame (fst (stream_capture enc i))))
      = store_path client (capture_key (snd (stream_capture enc j)) (jpeg_frame (fst (stream_capture enc j))))"
    have "last (store_path client (capture_key (snd (stream_capture enc k)) (jpeg_frame (fst (stream_capture enc k)))))
      = stream_token k @ ''.jpg''" for k
      using key_path_token [OF assms(1), of "''jpg''"]
      by (simp add: stream_capture_def store_path_def capture_key_def sample_meta_def frame_ext_def jpeg_frame_def
          media_ext_def clean_stream_token)
    with eq show "i = j" by (metis append_same_eq stream_token_inj)
  qed
  then show ?thesis using assms(2) by (simp add: distinct_map comp_def case_prod_beta)
qed

lemma stream_tokens: "map (wcr_image_token \<circ> snd) (map (stream_capture enc) is) = map stream_token is"
  by (simp add: stream_capture_def sample_meta_def)

lemma stream_tokens_distinct: "distinct is \<Longrightarrow> distinct (map stream_token is)"
  by (simp add: distinct_map inj_on_def stream_token_inj)

lemma stream_indices_distinct: "distinct (map word_of_nat [0..<unat (count :: u64)] :: u64 list)"
proof -
  have "i = j" if "i < unat count" "j < unat count" "word_of_nat i = (word_of_nat j :: u64)" for i j
    using that unsigned_less [of count] by (metis of_nat_inverse less_trans)
  then show ?thesis by (auto simp: distinct_map inj_on_def)
qed

end
