(* ===== verification/End_To_End.thy ===== *)
theory End_To_End
  imports Live_Stream Headless_Stream
begin

text \<open>
  The parts composed: the headless client (\<open>precall-mock-client\<close>) sends captures, the broker
  (\<open>precall-broker\<close>) stores them, and the HTTP server (\<open>precall-api\<close>) serves the screenshots.
\<close>

section \<open>The API server on the broker's disk\<close>

text \<open>The two servers share the data root, the object key and the cipher.\<close>

definition same_deployment :: "broker \<Rightarrow> api_libs \<Rightarrow> api_state \<Rightarrow> bool" where
  "same_deployment b libs st \<longleftrightarrow>
     bc_encrypt_at_rest (br_config b) \<and> ap_data_root st = bc_data_root (br_config b)
     \<and> ap_object_key st = br_object_key b \<and> al_aead libs = br_aead b"

text \<open>The object store and the environment of a session on an encrypted deployment.\<close>

definition client_objects :: "broker \<Rightarrow> uuid \<Rightarrow> object_store" where
  "client_objects b cid =
     \<lparr>os_root = store_dir (br_config b) cid @ [''objects''],
      os_cipher = Some \<lparr>env_aead = br_aead b, env_key = br_object_key b\<rparr>\<rparr>"

definition conn_session :: "broker \<Rightarrow> conn_env \<Rightarrow> uuid \<Rightarrow> session_env" where
  "conn_session b ce cid = (ce_session ce)\<lparr>se_client := cid, se_objects := client_objects b cid\<rparr>"

lemma conn_session_fields [simp]:
  "se_client (conn_session b ce cid) = cid" "se_objects (conn_session b ce cid) = client_objects b cid"
  "se_nonce (conn_session b ce cid) = se_nonce (ce_session ce)"
  "se_parse_batch (conn_session b ce cid) = se_parse_batch (ce_session ce)"
  by (simp_all add: conn_session_def)

lemma accepted_session:
  assumes "check_hello sha256 (br_auth b) hello = Inr who" "disk_ok d" "bc_encrypt_at_rest (br_config b)"
    and "accept_hello sha256 b sid now hello d = (reply, r, d1)"
  shows "r = Inr (client_objects b (ch_client_id hello))" "\<exists>w. reply = Welcome w"
    and "db_ukg (client_dbs_of (ch_client_id hello) d1)
       = touch_client (ch_client_id hello) (ch_hostname hello) (sint now) (db_ukg (client_dbs_of (ch_client_id hello) d))"
  using assms
  by (auto simp: accept_hello_def open_store_def Let_def object_store_encrypted_def object_store_open_def
      fs_create_dir_all_def disk_ok_def no_faults_def client_objects_def)

lemma served_snapshot:
  assumes "same_deployment b libs st" "al_parse_uuid libs cid = Some cid"
    and "map_of (bd_clients d) cid = Some dbs" "no_faults (bd_fs d)"
    and "tbl_get wc (uk_captures (db_ukg dbs)) = Some (capture_row_of meta)"
    and stored: "obj_get (client_objects b cid) cid
           (key_path cid (ymd_from_filetime (timestamp_i64 meta)) (wcr_image_token meta) ''jpg'')
           (wcr_image_token meta) (bd_fs d) = Inr jpeg"
  shows "snapshot libs st d wc cid = Inr (''image/jpeg'', jpeg)"
proof -
  let ?key = "key_path cid (ymd_from_filetime (timestamp_i64 meta)) (wcr_image_token meta) ''jpg''"
  have "obj_exists (client_objects b cid) ?key (bd_fs d)"
    using stored by (auto simp: obj_exists_def obj_get_def Let_def fs_read_def rbind_Inr_iff
        split: if_splits option.splits)
  moreover have "api_objects libs st (ap_data_root st @ [cid]) d = Inr (client_objects b cid)"
    using assms(1,4) by (simp add: api_objects_def object_store_encrypted_def object_store_open_def
        fs_create_dir_all_def no_faults_def same_deployment_def client_objects_def store_dir_def)
  ultimately show ?thesis
    using assms(2,3,5) stored
    by (simp add: snapshot_def client_db_def client_dir_def image_token_def capture_timestamp_def
        capture_row_of_def Let_def)
qed

text \<open>What a connection that sent a list of captures leaves for the API to serve.\<close>

definition served :: "api_libs \<Rightarrow> api_state \<Rightarrow> broker_disk \<Rightarrow> uuid \<Rightarrow> bytes \<times> window_capture_record \<Rightarrow> bool" where
  "served libs st d cid p \<longleftrightarrow>
     (case p of (jpeg, meta) \<Rightarrow>
        \<exists>wc. tbl_get wc (uk_captures (db_ukg (client_dbs_of cid d))) = Some (capture_row_of meta)
             \<and> snapshot libs st d wc cid = Inr (''image/jpeg'', jpeg))"

lemma kept_served:
  assumes "same_deployment b libs st" "al_parse_uuid libs cid = Some cid" "no_faults fs"
    and "kept_capture (conn_session b ce cid) s p" "fs = ss_fs s"
    and d': "d' = put_dbs cid (dbs\<lparr>db_ukg := ss_ukg s\<rparr>) (d\<lparr>bd_fs := fs\<rparr>)"
  shows "served libs st d' cid p"
proof -
  obtain jpeg meta wc where p: "p = (jpeg, meta)" "tbl_get wc (uk_captures (ss_ukg s)) = Some (capture_row_of meta)"
    and got: "obj_get (client_objects b cid) cid (key_path cid (ymd_from_filetime (timestamp_i64 meta)) (wcr_image_token meta) ''jpg'')
        (wcr_image_token meta) (bd_fs d') = Inr jpeg"
    using assms(4,5) by (cases p) (auto simp: kept_capture_def d')
  have "map_of (bd_clients d') cid = Some (dbs\<lparr>db_ukg := ss_ukg s\<rparr>)"
    by (simp add: d' put_dbs_def update_conv')
  from served_snapshot [OF assms(1,2) this _ _ got]
  have "snapshot libs st d' wc cid = Inr (''image/jpeg'', jpeg)" using p(2) assms(3) by (simp add: d')
  then show ?thesis using p by (auto simp: served_def d')
qed

lemma carried_captures_served:
  fixes cid :: uuid and b :: broker and ce :: conn_env
  defines "env \<equiv> conn_session b ce cid"
  assumes wire: "mux_encode_all fs [] = Inr (rest @ concat chunks)" "carries env caps fs"
    and hello: "read_limited_json (ce_parse_hello ce) hello_bytes = Inr (hello, rest)" "ch_client_id hello = cid"
      "check_hello sha256 (br_auth b) hello = Inr who"
    and disk: "disk_ok d" "plain_component cid" "\<And>n. length (se_nonce (ce_session ce) n) = 12"
      "aead_correct (br_aead b)" "same_deployment b libs st" "al_parse_uuid libs cid = Some cid"
    and new: "distinct (map (\<lambda>(jpeg, meta). store_path cid (capture_key meta (jpeg_frame jpeg))) caps)"
      "distinct (map (wcr_image_token \<circ> snd) caps)"
      "\<forall>(jpeg, meta) \<in> set caps. find_capture_by_token (wcr_image_token meta) (db_ukg (client_dbs_of cid d)) = None"
    and conn: "handle_conn sha256 b ce hello_bytes chunks d = (reply, r, d')"
  shows "(\<exists>w. reply = Welcome w) \<and> r = Inr () \<and> (\<forall>p \<in> set caps. served libs st d' cid p)"
proof -
  obtain rep ro d1 where a: "accept_hello sha256 b (ce_session_id ce) (ce_now ce) hello d = (rep, ro, d1)"
    by (metis prod.exhaust)
  have "bc_encrypt_at_rest (br_config b)" using disk(5) by (simp add: same_deployment_def)
  note acc = accepted_session [OF hello(3) disk(1) this a, unfolded hello(2)]
  note safe = accept_hello_safe [OF disk(1) a, unfolded hello(2)]
  let ?u = "db_ukg (client_dbs_of cid d1)"
  have ready: "store_ready (se_client env) (se_objects env, bd_fs d1)" "ukg_ok ?u" "\<And>n. length (se_nonce env n) = 12"
    using disk safe(1,2) disk_ok_dbs
    by (simp_all add: store_ready_def env_def client_objects_def sound_store_def disk_ok_def only_client_def)
  have "find_capture_by_token t ?u = find_capture_by_token t (db_ukg (client_dbs_of cid d))" for t
    by (simp add: acc(3) find_capture_by_token_def touch_client_def)
  then obtain s where s: "session_loop env (rest # chunks) (session_start (bd_fs d1) ?u) = (Inr (), s)"
    "\<forall>p \<in> set caps. kept_capture env s p"
    using carried_captures_are_kept [OF _ wire(2) ready(1,3,2), of "rest # chunks"] wire(1) new
    by (auto simp: env_def)
  have d': "reply = rep" "r = Inr ()" "d' = put_dbs cid (client_dbs_of cid d1\<lparr>db_ukg := ss_ukg s\<rparr>) (d1\<lparr>bd_fs := ss_fs s\<rparr>)"
    using hello(1,2) conn a s(1) acc(1) by (simp_all add: handle_conn_def Let_def env_def conn_session_def)
  have "no_faults (ss_fs s)"
    using handle_conn_safe [OF disk(1) hello(1) _ conn] hello(2) disk(2) d'(3) by (simp add: only_client_def disk_ok_def)
  then have "\<forall>p \<in> set caps. served libs st d' cid p"
    using kept_served [OF disk(5,6) _ _ refl d'(3)] s(2) by (auto simp: env_def)
  then show ?thesis using d'(1,2) acc(2) by auto
qed

section \<open>Properties\<close>

text \<open>End to end: whatever captures the headless client sends in a session that the broker accepts,
  and however the transport cuts its bytes, the session ends without error and the API then serves
  every screenshot, byte for byte and as a JPEG, under the id of its capture. Assumed are a JSON
  library that parses what it printed, new and distinct tokens with distinct keys, a correct cipher,
  a disk without faults, encryption at rest and an API server on the same data and key.\<close>

lemma screenshots_served:
  assumes "mock_send_all ser caps (mock_session_new (ch_client_id hello)) = (Inr (), c)"
    and "\<And>b pl. ser b = Inr pl \<Longrightarrow> se_parse_batch (ce_session ce) pl = Inr b"
    and "read_limited_json (ce_parse_hello ce) hello_bytes = Inr (hello, rest)"
    and "rest @ concat chunks = conn_wire c"
    and "check_hello sha256 (br_auth b) hello = Inr who"
    and "disk_ok d" "plain_component (ch_client_id hello)" "\<And>n. length (se_nonce (ce_session ce) n) = 12"
    and "aead_correct (br_aead b)" "same_deployment b libs st"
    and "al_parse_uuid libs (ch_client_id hello) = Some (ch_client_id hello)"
    and "distinct (map (\<lambda>(jpeg, meta). store_path (ch_client_id hello) (capture_key meta (jpeg_frame jpeg))) caps)"
    and "distinct (map (wcr_image_token \<circ> snd) caps)"
    and "\<forall>(jpeg, meta) \<in> set caps.
           find_capture_by_token (wcr_image_token meta) (db_ukg (client_dbs_of (ch_client_id hello) d)) = None"
    and "handle_conn sha256 b ce hello_bytes chunks d = (reply, r, d')"
  shows "r = Inr () \<and> (\<forall>(jpeg, meta) \<in> set caps. \<exists>wc.
      tbl_get wc (uk_captures (db_ukg (client_dbs_of (ch_client_id hello) d'))) = Some (capture_row_of meta)
      \<and> snapshot libs st d' wc (ch_client_id hello) = Inr (''image/jpeg'', jpeg))"
proof -
  let ?env = "conn_session b ce (ch_client_id hello)"
  have "transmits ?env caps (mock_send_all ser caps)" by (rule transmits_all) (simp add: assms(2))
  then obtain fs where "mux_encode_all fs [] = Inr (rest @ concat chunks)" "carries ?env caps fs"
    using assms(1) unfolding transmits_def assms(4) by (force simp: mock_session_new_def)
  from carried_captures_served [OF this assms(3) refl assms(5-15)]
  show ?thesis by (auto simp: served_def)
qed

lemma psk_hello_accepted:
  assumes "psk \<in> set psks"
  shows "\<exists>who. check_hello sha256 (authenticator_new sha256 psks certs ntlm any)
    (mock_hello_of cid host (Psk psk) version) = Inr who"
proof -
  have "psks \<noteq> []" "list_ex (\<lambda>d. ct_eq d (sha256 (str_bytes psk))) (map (\<lambda>t. sha256 (str_bytes t)) psks)"
    using assms by (auto simp: list_ex_iff ct_eq_iff intro!: bexI [of _ psk])
  then show ?thesis by (simp add: check_hello_def mock_hello_of_def authenticator_new_def Let_def)
qed


text \<open>JSON libraries for the witness: a batch of the stream is printed as its number.\<close>

definition stream_batch :: "u64 \<Rightarrow> capture_batch" where
  "stream_batch n = \<lparr>cb_client_id = ''c'', cb_seq = n, cb_captures = [sample_meta (n - 1) (stream_token (n - 1))]\<rparr>"

definition print_stream_batch :: "capture_batch \<Rightarrow> string + bytes" where
  "print_stream_batch b = (if b = stream_batch (cb_seq b) then Inr (le_bytes 8 (cb_seq b)) else Inl ''no JSON'')"

definition stream_conn :: conn_env where
  "stream_conn = example_conn
     \<lparr>ce_parse_hello := (\<lambda>_. Inr (mock_hello_of ''c'' ''MOCKBOX'' (Psk ''key'') ''1'')),
      ce_session := example_session\<lparr>se_parse_batch := (\<lambda>pl. Inr (stream_batch (le_word pl)))\<rparr>\<rparr>"

text \<open>The session of the witness writes two captures; its bytes arrive in one chunk.\<close>

lemma stream_sends_two:
  "\<exists>c. mock_stream print_stream_batch (\<lambda>_. Inr []) (\<lambda>_ _ _. [255, 216]) 2 (mock_session_new ''c'') = (Inr (), c)"
proof -
  have two: "map word_of_nat [0..<2] = [0, 1 :: u64]" by (simp add: upt_rec)
  have b: "\<lparr>cb_client_id = ''c'', cb_seq = 1, cb_captures = [sample_meta 0 (stream_token 0)]\<rparr> = stream_batch 1"
    "\<lparr>cb_client_id = ''c'', cb_seq = 2, cb_captures = [sample_meta 1 (stream_token 1)]\<rparr> = stream_batch 2"
    by (simp_all add: stream_batch_def)
  have p: "print_stream_batch (stream_batch n) = Inr (le_bytes 8 n)" for n
    by (simp_all add: print_stream_batch_def) (simp_all add: stream_batch_def)
  show ?thesis
    by (simp add: mock_stream_def two act_bind_def act_return_def stream_capture_def synthesize_jpeg_def
        mock_send_capture_def mock_heartbeat_def mock_close_def Let_def send_mux_def mux_encode_def
        mock_session_new_def mock_frame_pdus_def length_gfx_encode GFX_HEADER_LEN_def MAX_MUX_PAYLOAD_def b p)
qed


text \<open>C11. The servers fit together: once the broker has started on a data root with encryption at rest,
  the API started on the same root comes up with the broker's 32-byte object key, whatever key it
  would have drawn itself, and changes no file; so what one seals the other opens.\<close>

theorem servers_share_key:
  assumes "length fresh = 32" "broker_new sha256 a lossy fresh cfg fs = (Returned (Inr b), fs1)"
    and "bc_encrypt_at_rest cfg" "ac_data_root cli = bc_data_root cfg" "al_aead libs = a"
  shows "\<exists>st. api_start sha256 lossy fresh2 svc cli fs1 = (Returned (Inr st), fs1)
     \<and> same_deployment b libs st \<and> length (ap_object_key st) = 32"
proof -
  obtain k where k: "load_or_create_key lossy fresh (bc_data_root cfg) fs = (Returned (Inr k), fs1)"
    and b: "br_config b = cfg" "br_object_key b = k" "br_aead b = a"
    using assms(2) by (auto simp: broker_new_def split: sum.splits prod.splits outcome.splits)
  from object_key_is_stable [OF assms(1) k]
  have "length k = 32" "load_or_create_key lossy fresh2 (bc_data_root cfg) fs1 = (Returned (Inr k), fs1)" by blast+
  then show ?thesis using assms(3-5) by (simp add: api_start_def same_deployment_def b)
qed

theorem servers_share_key_witness:
  "\<exists>b fs1. broker_new example_digest example_aead (\<lambda>_. []) (replicate 32 1) example_config example_fs
       = (Returned (Inr b), fs1)
     \<and> (\<forall>svc. \<exists>st. api_start example_digest (\<lambda>_. []) (replicate 32 2) svc
         \<lparr>ac_data_root = [''d''], ac_tokens = [], ac_ai_url = None, ac_embedding_dim = 384\<rparr> fs1 = (Returned (Inr st), fs1)
       \<and> ap_object_key st = br_object_key b)"
proof -
  have cfg: "bc_encrypt_at_rest example_config" "bc_data_root example_config = [''d'']"
    by (simp_all add: example_config_def config_of_args_def)
  obtain b fs1 where b: "broker_new example_digest example_aead (\<lambda>_. []) (replicate 32 1) example_config example_fs
      = (Returned (Inr b), fs1)"
    by (simp add: broker_new_def load_or_create_key_def fs_create_dir_all_def fs_write_def example_fs_def Let_def)
  have "al_aead example_libs = example_aead" by (simp add: example_libs_def)
  from servers_share_key [OF _ b cfg(1) _ this, of "\<lparr>ac_data_root = [''d''], ac_tokens = [], ac_ai_url = None,
      ac_embedding_dim = 384\<rparr>" "replicate 32 2"]
  show ?thesis using b by (auto simp: cfg same_deployment_def)
qed

end
