(* ===== verification/Client_Safety.thy ===== *)
theory Client_Safety
  imports Client_Run
begin

text \<open>
  What the capture client guarantees: nothing of an excluded process or a protected window and
  nothing while paused is sent as a capture, what a capture puts on the wire, how long it waits
  before it reconnects, and what an enrollment leaves for the next run.
\<close>

section \<open>What a session puts on the wire\<close>

definition sends :: "channel_id set \<Rightarrow> connection \<Rightarrow> connection \<Rightarrow> bool" where
  "sends cs c c' \<longleftrightarrow>
     (\<exists>fs. mux_encode_all fs (conn_wire c) = Inr (conn_wire c') \<and> (\<forall>f \<in> set fs. channel f \<in> cs))"

lemma sends_refl: "conn_wire c' = conn_wire c \<Longrightarrow> sends cs c c'"
  by (auto simp: sends_def intro: exI [of _ "[]"])

lemma sends_trans:
  assumes "sends cs c d" "sends cs d e"
  shows "sends cs c e"
proof -
  obtain fs gs where "mux_encode_all fs (conn_wire c) = Inr (conn_wire d)" "\<forall>f \<in> set fs. channel f \<in> cs"
    "mux_encode_all gs (conn_wire d) = Inr (conn_wire e)" "\<forall>f \<in> set gs. channel f \<in> cs"
    using assms by (auto simp: sends_def)
  then show ?thesis
    unfolding sends_def by (intro exI [of _ "fs @ gs"]) (auto simp: mux_encode_all_append)
qed

lemma sends_mux: "send_mux ch pl c = (r, c') \<Longrightarrow> ch \<in> cs \<Longrightarrow> sends cs c c'"
proof (cases "mux_encode \<lparr>channel = ch, payload = pl\<rparr> (conn_wire c)")
  case (Inr w)
  then show "send_mux ch pl c = (r, c') \<Longrightarrow> ch \<in> cs \<Longrightarrow> sends cs c c'"
    by (auto simp: send_mux_def sends_def intro: exI [of _ "[\<lparr>channel = ch, payload = pl\<rparr>]"])
qed (auto simp: send_mux_def sends_refl)

lemma sends_audio: "send_audio ser pcm channels rate c = (r, c') \<Longrightarrow> PcAudio \<in> cs \<Longrightarrow> sends cs c c'"
  by (auto simp: send_audio_def split: sum.splits intro: sends_refl sends_mux)

lemma sends_ctrl: "send_ctrl ser msg c = (r, c') \<Longrightarrow> PcCtrl \<in> cs \<Longrightarrow> sends cs c c'"
  by (auto simp: send_ctrl_def split: sum.splits intro: sends_refl sends_mux)

section \<open>Blocked captures\<close>

lemma ascii_lower_idem: "ascii_lower (ascii_lower c) = ascii_lower c"
  by (auto simp: ascii_lower_def Let_def of_char_of)

lemma to_lowercase_idem [simp]: "to_lowercase (to_lowercase s) = to_lowercase s"
  by (simp add: to_lowercase_def ascii_lower_idem)

lemma process_name_lower: "to_lowercase (wm_process_name (foreground_meta os)) = wm_process_name (foreground_meta os)"
  by (auto simp: foreground_meta_def Let_def to_lowercase_def ascii_lower_idem split: option.splits)

text \<open>The window asked not to be captured, or its process is on the user's list (in any case).\<close>

definition tick_blocked :: "string list \<Rightarrow> tick_env \<Rightarrow> bool" where
  "tick_blocked processes te \<longleftrightarrow>
     (\<exists>a. wo_affinity (te_os te) = Some a \<and> a \<noteq> 0)
     \<or> (\<exists>p \<in> set processes. to_lowercase p = wm_process_name (foreground_meta (te_os te)))"

lemma blocked_check:
  assumes "tick_blocked processes te \<or> paused"
  shows "check paused (Some (foreground_meta (te_os te))) (exclusions_new processes domains)
     (is_protected_window (wo_affinity (te_os te))) \<noteq> None"
  using assms process_name_lower
  by (auto simp: tick_blocked_def check_def is_protected_window_def process_excluded_def exclusions_new_def
      list_ex_iff Let_def)

lemma blocked_tick:
  assumes "tick_blocked processes te \<or> cs_paused s"
    and "capture_tick cfg (exclusions_new processes domains) te s = (go, s')"
  shows "cs_conn s' = cs_conn s \<and> cs_paused s' = cs_paused s"
proof -
  obtain reason where "check (cs_paused s) (Some (foreground_meta (te_os te))) (exclusions_new processes domains)
      (is_protected_window (wo_affinity (te_os te))) = Some reason"
    using blocked_check [OF assms(1)] by blast
  then show ?thesis
    using assms(2) by (auto simp: capture_tick_def Let_def split: option.splits if_splits)
qed

definition resumes :: "client_json \<Rightarrow> session_event \<Rightarrow> bool" where
  "resumes js e \<longleftrightarrow> (\<exists>i until. e = Inbound i \<and> next_ctrl (cj_parse_ctrl js) i = Inr (Some (Resume until)))"

lemma quiet_session_step:
  assumes "session_step cfg (exclusions_new processes domains) js e s = (go, s')"
    and "\<And>te. e = Tick te \<Longrightarrow> tick_blocked processes te \<or> cs_paused s"
  shows "sends {PcAudio, PcCtrl} (cs_conn s) (cs_conn s')"
    and "cs_paused s \<Longrightarrow> \<not> resumes js e \<Longrightarrow> cs_paused s'"
proof -
  have "sends {PcAudio, PcCtrl} (cs_conn s) (cs_conn s') \<and> (cs_paused s \<longrightarrow> \<not> resumes js e \<longrightarrow> cs_paused s')"
  proof (cases e)
    case (Frame f)
    then show ?thesis using assms(1) by (cases f) (auto intro: sends_refl)
  next
    case (Audio pcm channels rate)
    then show ?thesis
      using assms(1) by (auto simp: after_send_def split: if_splits intro: sends_refl sends_audio [OF prod.collapse [symmetric]])
  next
    case (Tick te)
    then show ?thesis
      using blocked_tick [OF assms(2) assms(1) [unfolded Tick session_step.simps]] by (auto intro: sends_refl)
  next
    case HeartbeatTick
    then show ?thesis using assms(1) by (auto simp: after_send_def intro: sends_ctrl [OF prod.collapse [symmetric]])
  next
    case (Inbound i)
    then show ?thesis
      using assms(1)
      by (auto simp: handle_control_def resumes_def intro!: sends_refl
          split: sum.splits option.splits control_message.splits)
  qed (use assms(1) in \<open>auto intro: sends_refl\<close>)
  then show "sends {PcAudio, PcCtrl} (cs_conn s) (cs_conn s')"
    "cs_paused s \<Longrightarrow> \<not> resumes js e \<Longrightarrow> cs_paused s'" by blast+
qed

lemma quiet_session_run:
  assumes "(\<forall>te. Tick te \<in> set es \<longrightarrow> tick_blocked processes te) \<or> cs_paused s \<and> (\<forall>e \<in> set es. \<not> resumes js e)"
  shows "sends {PcAudio, PcCtrl} (cs_conn s)
           (cs_conn (session_run cfg (exclusions_new processes domains) js es s))"
  using assms
proof (induction es arbitrary: s)
  case (Cons e es)
  let ?ex = "exclusions_new processes domains"
  obtain go s1 where st: "session_step cfg ?ex js e s = (go, s1)" by (cases "session_step cfg ?ex js e s")
  have "tick_blocked processes te \<or> cs_paused s" if "e = Tick te" for te using that Cons.prems by auto
  note step = quiet_session_step [OF st this]
  show ?case
  proof (cases go)
    case True
    have "sends {PcAudio, PcCtrl} (cs_conn s1) (cs_conn (session_run cfg ?ex js es s1))"
      by (rule Cons.IH) (use Cons.prems step(2) in auto)
    then show ?thesis using st True sends_trans [OF step(1)] by simp
  next
    case False
    then show ?thesis using st step(1) by simp
  qed
qed (simp add: sends_refl)

section \<open>Reconnecting\<close>

lemma run_sleeps:
  assumes "run cfg ex js cid as b s = (sleeps, b', s')" "500 \<le> b" "b \<le> 30000"
  shows "length sleeps = length [a\<leftarrow>as. a = ConnectFailed] \<and> (\<forall>w \<in> set sleeps. 500 \<le> w \<and> w \<le> 30000)"
  using assms
proof (induction as arbitrary: b s sleeps)
  case (Cons a as)
  show ?case
  proof (cases a)
    case ConnectFailed
    obtain sl where sl: "run cfg ex js cid as (next_backoff b) s = (sl, b', s')" "sleeps = b # sl"
      using Cons.prems(1) ConnectFailed by (auto split: prod.splits)
    have "500 \<le> next_backoff b" "next_backoff b \<le> 30000" using Cons.prems(2) by (simp_all add: next_backoff_def)
    from Cons.IH [OF sl(1) this] show ?thesis using Cons.prems(2,3) sl(2) ConnectFailed by simp
  next
    case (ConnectedSession es)
    then show ?thesis using Cons.IH [of 500] Cons.prems(1) by simp
  qed
qed simp

lemma run_failures:
  assumes "b \<le> 30000"
  shows "run cfg ex js cid (replicate n ConnectFailed @ as) b s =
     (case run cfg ex js cid as (min (b * 2 ^ n) 30000) s of
        (sleeps, r) \<Rightarrow> (map (\<lambda>k. min (b * 2 ^ k) 30000) [0..<n] @ sleeps, r))"
  using assms
proof (induction n arbitrary: b)
  case (Suc n)
  have step: "min (next_backoff b * 2 ^ k) 30000 = min (b * 2 ^ Suc k) 30000" for k
  proof (cases "b * 2 \<le> 30000")
    case True
    then show ?thesis by (simp add: next_backoff_def ac_simps)
  next
    case False
    moreover have "30000 * 1 \<le> (30000 :: nat) * 2 ^ k" by (intro mult_le_mono) simp_all
    moreover have "30000 * 1 \<le> (b * 2) * 2 ^ k" using False by (intro mult_le_mono) simp_all
    ultimately show ?thesis by (simp add: next_backoff_def ac_simps min_def)
  qed
  have "next_backoff b \<le> 30000" by (simp add: next_backoff_def)
  from Suc.IH [OF this] have tail: "run cfg ex js cid (replicate n ConnectFailed @ as) (next_backoff b) s =
      (case run cfg ex js cid as (min (b * 2 ^ Suc n) 30000) s of
         (sleeps, r) \<Rightarrow> (map (\<lambda>k. min (b * 2 ^ Suc k) 30000) [0..<n] @ sleeps, r))"
    by (simp only: step)
  have "map (\<lambda>k. min (b * 2 ^ k) 30000) [0..<Suc n] = b # map (\<lambda>k. min (b * 2 ^ Suc k) 30000) [0..<n]"
    using Suc.prems by (simp only: upt_conv_Cons [of 0 "Suc n"] map_Suc_upt [symmetric]) (simp add: comp_def)
  then show ?case using tail by (simp del: power_Suc upt_Suc split: prod.splits)
qed (simp add: min_absorb1 split: prod.splits)

section \<open>Enrollment\<close>

lemma act_bind_Inr:
  "act_bind m f s = (Inr b, t) \<longleftrightarrow> (\<exists>a s'. m s = (Inr a, s') \<and> f a s' = (Inr b, t))"
  by (auto simp: act_bind_def split: prod.splits sum.splits)

text \<open>A value that was set is read back up to its first zero character.\<close>

lemma reg_set_get:
  "reg_set n v reg = (Inr (), reg') \<Longrightarrow> no_nul v \<Longrightarrow> reg_get m reg' = (if m = n then Some v else reg_get m reg)"
  by (auto simp: reg_set_def reg_get_def split: if_splits)

lemma reg_set_other: "reg_set n v reg = (Inr (), reg') \<Longrightarrow> m \<noteq> n \<Longrightarrow> reg_get m reg' = reg_get m reg"
  by (auto simp: reg_set_def reg_get_def split: if_splits)

definition storable :: "client_config \<Rightarrow> bool" where
  "storable cfg \<longleftrightarrow> no_nul (cc_server cfg) \<and> no_nul (cc_server_name cfg)
     \<and> pred_option no_nul (cc_fingerprint cfg) \<and> pred_option no_nul (cc_psk cfg)
     \<and> pred_option no_nul (cc_client_id cfg)"

lemma set_opt_get:
  "set_opt n v reg = (Inr (), reg') \<Longrightarrow> pred_option no_nul v \<Longrightarrow> reg_get m reg' = (if m = n then or_else v (reg_get m reg) else reg_get m reg)"
  by (auto simp: set_opt_def or_else_def reg_set_get split: option.splits)

lemma persist_run:
  assumes "persist cfg reg = (Inr (), reg')" "storable cfg"
  shows "reg_get ''Server'' reg' = Some (cc_server cfg)" "reg_get ''ServerName'' reg' = Some (cc_server_name cfg)"
    and "reg_get ''Fingerprint'' reg' = or_else (cc_fingerprint cfg) (reg_get ''Fingerprint'' reg)"
    and "reg_get ''Psk'' reg' = or_else (cc_psk cfg) (reg_get ''Psk'' reg)"
    and "reg_get ''ClientId'' reg' = or_else (cc_client_id cfg) (reg_get ''ClientId'' reg)"
proof -
  have ok: "no_nul (cc_server cfg)" "no_nul (cc_server_name cfg)" "pred_option no_nul (cc_fingerprint cfg)"
    "pred_option no_nul (cc_psk cfg)" "pred_option no_nul (cc_client_id cfg)"
    using assms(2) by (simp_all add: storable_def)
  obtain r1 r2 r3 r4 where "reg_set ''Server'' (cc_server cfg) reg = (Inr (), r1)"
    "reg_set ''ServerName'' (cc_server_name cfg) r1 = (Inr (), r2)"
    "set_opt ''Fingerprint'' (cc_fingerprint cfg) r2 = (Inr (), r3)"
    "set_opt ''Psk'' (cc_psk cfg) r3 = (Inr (), r4)" "set_opt ''ClientId'' (cc_client_id cfg) r4 = (Inr (), reg')"
    using assms(1) by (auto simp: persist_def act_bind_Inr)
  note get = reg_set_get [OF this(1) ok(1)] reg_set_get [OF this(2) ok(2)] set_opt_get [OF this(3) ok(3)]
    set_opt_get [OF this(4) ok(4)] set_opt_get [OF this(5) ok(5)]
  show "reg_get ''Server'' reg' = Some (cc_server cfg)" "reg_get ''ServerName'' reg' = Some (cc_server_name cfg)"
    "reg_get ''Fingerprint'' reg' = or_else (cc_fingerprint cfg) (reg_get ''Fingerprint'' reg)"
    "reg_get ''Psk'' reg' = or_else (cc_psk cfg) (reg_get ''Psk'' reg)"
    "reg_get ''ClientId'' reg' = or_else (cc_client_id cfg) (reg_get ''ClientId'' reg)"
    by (simp_all add: get)
qed

lemma resolve_run:
  assumes "resolve parse_uuid env fresh cfg reg = (Inr cfg', reg')"
  shows "cc_fingerprint cfg' = or_else (cc_fingerprint cfg) (reg_get ''Fingerprint'' reg)"
    and "cc_psk cfg' = or_else (cc_psk cfg) (or_else (reg_get ''Psk'' reg) env)"
    and "cc_client_id cfg' = Some (case or_else (cc_client_id cfg) (Option.bind (reg_get ''ClientId'' reg) parse_uuid) of
           Some cid \<Rightarrow> cid | None \<Rightarrow> fresh)"
    and "name \<noteq> ''ClientId'' \<Longrightarrow> reg_get name reg' = reg_get name reg"
proof -
  let ?known = "or_else (cc_client_id cfg) (Option.bind (reg_get ''ClientId'' reg) parse_uuid)"
  have "cc_fingerprint cfg' = or_else (cc_fingerprint cfg) (reg_get ''Fingerprint'' reg)
      \<and> cc_psk cfg' = or_else (cc_psk cfg) (or_else (reg_get ''Psk'' reg) env)
      \<and> cc_client_id cfg' = Some (case ?known of Some cid \<Rightarrow> cid | None \<Rightarrow> fresh)
      \<and> (name \<noteq> ''ClientId'' \<longrightarrow> reg_get name reg' = reg_get name reg)"
  proof (cases ?known)
    case None
    then obtain "reg_set ''ClientId'' fresh reg = (Inr (), reg')"
      using assms by (auto simp: resolve_def Let_def split: prod.splits sum.splits)
    then show ?thesis using assms None reg_set_other [of "''ClientId''" fresh reg reg' name] by (auto simp: resolve_def Let_def)
  next
    case (Some cid)
    then show ?thesis using assms by (auto simp: resolve_def Let_def)
  qed
  then show "cc_fingerprint cfg' = or_else (cc_fingerprint cfg) (reg_get ''Fingerprint'' reg)"
    "cc_psk cfg' = or_else (cc_psk cfg) (or_else (reg_get ''Psk'' reg) env)"
    "cc_client_id cfg' = Some (case ?known of Some cid \<Rightarrow> cid | None \<Rightarrow> fresh)"
    "name \<noteq> ''ClientId'' \<Longrightarrow> reg_get name reg' = reg_get name reg"
    by blast+
qed

section \<open>Properties\<close>


definition example_os :: window_os where
  "example_os = \<lparr>wo_hwnd = 3, wo_title = encode_utf16 ''w'', wo_rect = \<lparr>wb_left = 0, wb_top = 0, wb_right = 9, wb_bottom = 9\<rparr>,
     wo_pid = 5, wo_process = Some (Some (encode_utf16 ''/bin/Vault.exe''), 0, None), wo_window_aumid = None, wo_affinity = None,
     wo_edits = [Some (''Address bar'', Some ''https://bank.example/login'')], wo_shell = []\<rparr>"

definition example_ocr :: winrt where
  "example_ocr = \<lparr>wr_engine = False, wr_bitmap = (\<lambda>w h. Inr ()), wr_copy = (\<lambda>b. Inr ()),
     wr_recognize = (\<lambda>b. Inl ''language pack'')\<rparr>"

definition example_tick :: tick_env where
  "example_tick = \<lparr>te_os = example_os, te_jpeg = (\<lambda>rgb w h q. Inr rgb), te_ocr = example_ocr, te_token = ''t'',
     te_now = 7, te_print_batch = (\<lambda>b. Inr [1])\<rparr>"

definition example_client :: client_state where
  "example_client = \<lparr>cs_conn = connection_new ''c'', cs_paused = False,
     cs_counters = \<lparr>ct_frames_sent = 0, ct_frames_skipped_unchanged = 0, ct_frames_skipped_privacy = 0\<rparr>,
     cs_last_hash = 0, cs_latest_frame = Some \<lparr>cf_bgra = [1, 2, 3, 4], cf_width = 1, cf_height = 1, cf_dirty_regions = 1\<rparr>,
     cs_pending = []\<rparr>"

definition example_json :: client_json where
  "example_json = \<lparr>cj_audio = (\<lambda>_ _. Inr [2]), cj_print_ctrl = (\<lambda>_. Inr [3]), cj_parse_ctrl = (\<lambda>_. Inr Pause)\<rparr>"

lemma example_process: "wm_process_name (foreground_meta example_os) = ''vault.exe''"
  by code_simp


text \<open>C13. What a capture tick puts on the wire: when the client is not paused, the window is not
  protected, its process not excluded and the frame new, exactly two frames go out, the RDPGFX
  frame with the JPEG of the pixels and a batch with the one record of the window, with the same
  timestamp; the frame is consumed and counted. This holds whatever domains the user excluded,
  and the record carries the address of the browser page: the domain list is never enforced,
  because the check looks at addresses that \<open>foreground_meta\<close> never fills in.\<close>

theorem capture_tick_sends:
  assumes "cs_latest_frame s = Some frame" "cheap_hash (cf_bgra frame) \<noteq> cs_last_hash s \<or> cf_dirty_regions frame \<noteq> 0"
    and "\<not> cs_paused s" "wo_affinity (te_os te) = None \<or> wo_affinity (te_os te) = Some 0"
    and "\<not> process_excluded (exclusions_new processes domains) (wm_process_name (foreground_meta (te_os te)))"
    and "te_jpeg te (bgra_to_rgb (cf_bgra frame)) (cf_width frame) (cf_height frame) 80 = Inr jpeg"
    and "91 + length jpeg \<le> MAX_MUX_PAYLOAD"
    and "te_print_batch te \<lparr>cb_client_id = conn_client_id (cs_conn s), cb_seq = conn_seq (cs_conn s) + 1,
           cb_captures = [window_record cfg te frame]\<rparr> = Inr pl"
    and "length pl \<le> MAX_MUX_PAYLOAD"
  shows "\<exists>s'. capture_tick cfg (exclusions_new processes domains) te s = (True, s')
     \<and> mux_encode_all
          [\<lparr>channel = GfxRdp, payload = client_frame_bytes (conn_surface_id (cs_conn s)) (conn_frame_id (cs_conn s) + 1)
              jpeg (cf_width frame) (cf_height frame) (te_now te)\<rparr>,
           \<lparr>channel = PcMeta, payload = pl\<rparr>] (conn_wire (cs_conn s)) = Inr (conn_wire (cs_conn s'))
     \<and> cs_latest_frame s' = None
     \<and> ct_frames_sent (cs_counters s') = ct_frames_sent (cs_counters s) + 1
     \<and> wcr_timestamp_100ns (window_record cfg te frame) = te_now te
     \<and> (wo_pid (te_os te) \<noteq> 0 \<longrightarrow> wcr_webs (window_record cfg te frame) = browser_url (wo_edits (te_os te)))"
proof -
  have pid: "wm_pid (foreground_meta os) = wo_pid os" "wm_urls (foreground_meta os) = []" for os
    by (simp_all add: foreground_meta_def Let_def split: option.splits prod.splits)
  have "check (cs_paused s) (Some (foreground_meta (te_os te))) (exclusions_new processes domains)
      (is_protected_window (wo_affinity (te_os te))) = None"
    using assms(3-5) pid by (auto simp: check_def is_protected_window_def)
  then have tick: "capture_tick cfg (exclusions_new processes domains) te s = send_capture cfg te frame jpeg
      (s\<lparr>cs_latest_frame := None, cs_last_hash := cheap_hash (cf_bgra frame)\<rparr>)"
    using assms(1,2,6) by (auto simp: capture_tick_def encode_jpeg_def Let_def)
  show ?thesis
    using assms(7-9)
    by (simp add: tick send_capture_def send_frame_def send_meta_def send_mux_def mux_encode_def Let_def
        length_client_frame_bytes count_sent_def window_record_def pid)
qed

theorem capture_tick_sends_witness:
  "\<exists>s'. capture_tick client_config_default (exclusions_new [] [''bank.example'']) example_tick example_client = (True, s')
     \<and> map web_domain (wcr_webs (window_record client_config_default example_tick
           \<lparr>cf_bgra = [1, 2, 3, 4], cf_width = 1, cf_height = 1, cf_dirty_regions = 1\<rparr>)) = [''bank.example'']
     \<and> domain_excluded (exclusions_new [] [''bank.example'']) ''bank.example''
     \<and> ct_frames_sent (cs_counters s') = 1"
proof -
  let ?frame = "\<lparr>cf_bgra = [1, 2, 3, 4], cf_width = 1, cf_height = 1, cf_dirty_regions = 1\<rparr> :: capture_frame"
  have f: "cs_latest_frame example_client = Some ?frame" "\<not> cs_paused example_client"
    "ct_frames_sent (cs_counters example_client) = 0"
    by (simp_all add: example_client_def)
  have os: "te_os example_tick = example_os" "wo_affinity example_os = None" "wo_pid example_os \<noteq> 0"
    by (simp_all add: example_tick_def example_os_def)
  have ex: "\<not> process_excluded (exclusions_new [] [''bank.example'']) p" for p
    by (simp add: process_excluded_def exclusions_new_def Let_def)
  have jpeg: "te_jpeg example_tick (bgra_to_rgb (cf_bgra ?frame)) (cf_width ?frame) (cf_height ?frame) 80 = Inr [3, 2, 1]"
    by (simp add: example_tick_def)
  have print: "te_print_batch example_tick b = Inr [1]" for b by (simp add: example_tick_def)
  have len: "91 + length [3, 2, 1 :: u8] \<le> MAX_MUX_PAYLOAD" "length [1 :: u8] \<le> MAX_MUX_PAYLOAD"
    by (simp_all add: MAX_MUX_PAYLOAD_def)
  obtain s' where s': "capture_tick client_config_default (exclusions_new [] [''bank.example'']) example_tick example_client = (True, s')"
    "ct_frames_sent (cs_counters s') = 1"
    "wcr_webs (window_record client_config_default example_tick ?frame) = browser_url (wo_edits example_os)"
    using capture_tick_sends [OF f(1) _ f(2) _ ex jpeg len(1) print len(2), of client_config_default] f(3) os by auto
  have "map web_domain (browser_url (wo_edits example_os)) = [''bank.example'']" by code_simp
  moreover have "domain_excluded (exclusions_new [] [''bank.example'']) ''bank.example''" by code_simp
  ultimately show ?thesis using s' by auto
qed

text \<open>C15. Reconnecting backs off: one sleep per failed attempt and none after a session, each between
  half a second and 30 seconds; in a row of failures the \<open>k\<close>-th sleep is 500 ms doubled \<open>k\<close> times,
  at most 30 s; and after any session, however short, the next attempt comes at once and the
  backoff starts again.\<close>

theorem reconnect_backoff:
  assumes "run cfg ex js cid as 500 s = (sleeps, b, s')"
  shows "length sleeps = length [a\<leftarrow>as. a = ConnectFailed]
     \<and> (\<forall>w \<in> set sleeps. 500 \<le> w \<and> w \<le> 30000)
     \<and> (\<forall>n es rest. as = replicate n ConnectFailed @ ConnectedSession es # rest \<longrightarrow>
          (\<exists>s1 more. run cfg ex js cid rest 500 s1 = (more, b, s')
             \<and> sleeps = map (\<lambda>k. min (500 * 2 ^ k) 30000) [0..<n] @ more))"
proof (intro conjI allI impI)
  fix n es rest assume as: "as = replicate n ConnectFailed @ ConnectedSession es # rest"
  let ?s1 = "session_run cfg ex js es (session_state_of cid s)"
  obtain more r where more: "run cfg ex js cid rest 500 ?s1 = (more, r)" by (metis prod.exhaust)
  have "run cfg ex js cid as 500 s = (map (\<lambda>k. min (500 * 2 ^ k) 30000) [0..<n] @ more, r)"
    by (simp only: as run_failures [of 500, simplified] run.simps more prod.case)
  then show "\<exists>s1 more. run cfg ex js cid rest 500 s1 = (more, b, s')
      \<and> sleeps = map (\<lambda>k. min (500 * 2 ^ k) 30000) [0..<n] @ more"
    using assms more by (intro exI [of _ ?s1] exI [of _ more]) simp
qed (use run_sleeps [OF assms] in simp_all)

theorem reconnect_backoff_witness:
  "fst (run client_config_default (exclusions_new [] []) example_json ''c''
     (replicate 8 ConnectFailed @ [ConnectedSession [], ConnectFailed]) 500 example_client)
   = [500, 1000, 2000, 4000, 8000, 16000, 30000, 30000, 500]"
proof -
  obtain sleeps b s' where run: "run client_config_default (exclusions_new [] []) example_json ''c''
     (replicate 8 ConnectFailed @ [ConnectedSession [], ConnectFailed]) 500 example_client = (sleeps, b, s')"
    by (metis prod.exhaust)
  from reconnect_backoff [OF run] obtain s1 more where
    "run client_config_default (exclusions_new [] []) example_json ''c'' [ConnectFailed] 500 s1 = (more, b, s')"
    "sleeps = map (\<lambda>k. min (500 * 2 ^ k) 30000) [0..<8] @ more" by blast
  then show ?thesis by (auto simp: run upt_rec)
qed

text \<open>C14. An enrollment is what the next run without arguments starts from: server, server name, pinned
  fingerprint, token and the client identity are the enrolled ones, and the identity stays the
  same from then on, whatever new one the next run would draw. (No value may contain a zero
  character: the registry gives values back up to the first one.) The exclusion lists of the enrollment
  are not stored: the next run has the built-in ones.\<close>

theorem enrollment_survives:
  assumes "run_config parse_uuid env fresh a reg = (Inr cfg, reg1)" "persist cfg reg1 = (Inr (), reg2)"
    and "cc_client_id cfg = Some cid" "parse_uuid cid = Some cid" "cc_psk cfg \<noteq> None" "storable cfg"
  defines "no_args \<equiv> \<lparr>ra_server = None, ra_server_name = None, ra_fingerprint = None, ra_psk = None,
     ra_capture_interval_ms = None, ra_audio = False, ra_no_ocr = False, ra_exclude_processes = [],
     ra_exclude_domains = [], ra_as_service = False\<rparr>"
  shows "enroll parse_uuid env fresh a reg = (Inr (), reg2)
     \<and> (\<exists>cfg'. run_config parse_uuid env2 fresh2 no_args reg2 = (Inr cfg', reg2)
          \<and> cc_server cfg' = cc_server cfg \<and> cc_server_name cfg' = cc_server_name cfg
          \<and> cc_fingerprint cfg' = cc_fingerprint cfg \<and> cc_psk cfg' = cc_psk cfg \<and> cc_client_id cfg' = Some cid
          \<and> cc_excluded_processes cfg' = cc_excluded_processes client_config_default
          \<and> cc_excluded_domains cfg' = [])"
proof -
  note res = resolve_run [OF assms(1) [unfolded run_config_def]]
  note per = persist_run [OF assms(2,6)]
  have "reg_get ''Fingerprint'' reg2 = cc_fingerprint cfg"
    using res(1) res(4) [of "''Fingerprint''"] per(3) by (auto simp: or_else_def split: option.splits)
  moreover have "reg_get ''Psk'' reg2 = cc_psk cfg" "reg_get ''ClientId'' reg2 = Some cid"
    using per(4,5) assms(3,5) by (auto simp: or_else_def split: option.splits)
  ultimately have "\<exists>cfg'. run_config parse_uuid env2 fresh2 no_args reg2 = (Inr cfg', reg2)
          \<and> cc_server cfg' = cc_server cfg \<and> cc_server_name cfg' = cc_server_name cfg
          \<and> cc_fingerprint cfg' = cc_fingerprint cfg \<and> cc_psk cfg' = cc_psk cfg \<and> cc_client_id cfg' = Some cid
          \<and> cc_excluded_processes cfg' = cc_excluded_processes client_config_default
          \<and> cc_excluded_domains cfg' = []"
    using per(1,2) assms(4,5)
    by (auto simp: run_config_def resolve_def args_config_def client_config_default_def no_args_def or_else_def Let_def)
  then show ?thesis using assms(1,2) by (simp add: enroll_def act_bind_def)
qed

theorem enrollment_survives_witness:
  "\<exists>reg2 cfg'. enroll (\<lambda>s. Some s) None ''id1'' \<lparr>ra_server = Some ''10.0.0.1:3390'', ra_server_name = None,
       ra_fingerprint = None, ra_psk = Some ''k'', ra_capture_interval_ms = None, ra_audio = False, ra_no_ocr = False,
       ra_exclude_processes = [''vault.exe''], ra_exclude_domains = [], ra_as_service = False\<rparr>
       \<lparr>reg_windows = True, reg_values = Map.empty, reg_create_rc = 0, reg_set_rc = 0\<rparr> = (Inr (), reg2)
     \<and> run_config (\<lambda>s. Some s) None ''id2'' \<lparr>ra_server = None, ra_server_name = None,
       ra_fingerprint = None, ra_psk = None, ra_capture_interval_ms = None, ra_audio = False, ra_no_ocr = False,
       ra_exclude_processes = [], ra_exclude_domains = [], ra_as_service = False\<rparr> reg2 = (Inr cfg', reg2)
     \<and> cc_client_id cfg' = Some ''id1'' \<and> cc_server cfg' = ''10.0.0.1:3390''
     \<and> ''vault.exe'' \<notin> set (cc_excluded_processes cfg')"
proof -
  let ?a = "\<lparr>ra_server = Some ''10.0.0.1:3390'', ra_server_name = None,
       ra_fingerprint = None, ra_psk = Some ''k'', ra_capture_interval_ms = None, ra_audio = False, ra_no_ocr = False,
       ra_exclude_processes = [''vault.exe''], ra_exclude_domains = [], ra_as_service = False\<rparr>"
  let ?reg = "\<lparr>reg_windows = True, reg_values = Map.empty, reg_create_rc = 0, reg_set_rc = 0\<rparr> :: registry"
  obtain cfg reg1 where run: "run_config (\<lambda>s. Some s) None ''id1'' ?a ?reg = (Inr cfg, reg1)"
    and cfg: "cc_client_id cfg = Some ''id1''" "cc_psk cfg \<noteq> None" "cc_server cfg = ''10.0.0.1:3390''"
      "reg_windows reg1 \<and> reg_create_rc reg1 = 0 \<and> reg_set_rc reg1 = 0"
      "cc_fingerprint cfg = None" "cc_psk cfg = Some ''k''" "storable cfg"
    by (simp add: run_config_def resolve_def args_config_def client_config_default_def or_else_def reg_get_def
        reg_set_def storable_def no_nul_def Let_def)
  obtain reg2 where per: "persist cfg reg1 = (Inr (), reg2)"
    using cfg by (auto simp: persist_def act_bind_Inr reg_set_def set_opt_def)
  from enrollment_survives [OF run per cfg(1) refl cfg(2,7), of None "''id2''"] cfg(3)
  show ?thesis by (auto simp: client_config_default_def)
qed

end
