(* ===== verification/Client_Connect.thy ===== *)
theory Client_Connect
  imports Client_Run
begin

text \<open>
  \<open>Connection::connect\<close> of the capture client (\<open>precall-client/src/session.rs\<close>): what it checks
  before it sends anything, the hello it sends, and what it makes of the answer. Name and address
  parsing, the web PKI, the TLS exchange and JSON are fields of the environment.
\<close>

section \<open>Errors (lib.rs)\<close>

datatype client_error =
    CeWindows string
  | CeIo string
  | CeProto proto_error
  | CeTls string
  | CeJson string
  | CeImage string
  | CeConfig string

section \<open>Connecting\<close>

text \<open>\<open>cn_web_pki\<close> is the verdict of rustls with the web's root certificates on a certificate for a
  server name, \<open>cn_tls\<close> how the rest of the TLS exchange ends; \<open>cn_answer\<close> are the bytes the
  server sends after the hello. A JSON value is the list of an object's fields.\<close>

record connect_env =
  cn_fresh_id :: uuid
  cn_addr_ok :: "string \<Rightarrow> bool"
  cn_tcp :: "string + unit"
  cn_name_ok :: "string \<Rightarrow> bool"
  cn_web_pki :: "string \<Rightarrow> bytes \<Rightarrow> bool"
  cn_tls :: "string + unit"
  cn_cert :: bytes
  cn_message :: bytes
  cn_signature :: bytes
  cn_computer_name :: "string option"
  cn_host_name :: "string option"
  cn_build :: string
  cn_print_hello :: "client_hello \<Rightarrow> string + bytes"
  cn_answer :: bytes
  cn_parse_value :: "bytes \<Rightarrow> string + (string \<times> string) list"
  cn_as_hello :: "(string \<times> string) list \<Rightarrow> server_hello option"

text \<open>How a server's certificate is judged: by a pin, or by the web's roots.\<close>

datatype trust =
    Pinned bytes
  | WebRoots

text \<open>\<open>pinned_client_config\<close>: TLS 1.3 only, with the pinning verifier.\<close>

definition pinned_client_config :: "string \<Rightarrow> (string + trust) outcome" where
  "pinned_client_config fingerprint =
     (case pinned_cert_verifier_new fingerprint of
        Panicked \<Rightarrow> Panicked
      | Returned (Inl e) \<Rightarrow> Returned (Inl e)
      | Returned (Inr pin) \<Rightarrow> Returned (Inr (Pinned pin)))"

definition choose_trust :: "client_config \<Rightarrow> (client_error + trust) outcome" where
  "choose_trust cfg =
     (case cc_fingerprint cfg of
        None \<Rightarrow> Returned (Inr WebRoots)
      | Some fp \<Rightarrow>
          (case pinned_client_config fp of
             Panicked \<Rightarrow> Panicked
           | Returned (Inl e) \<Rightarrow> Returned (Inl (CeConfig e))
           | Returned (Inr t) \<Rightarrow> Returned (Inr t)))"

definition tls_connect :: "(bytes \<Rightarrow> bytes) \<Rightarrow> connect_env \<Rightarrow> trust \<Rightarrow> string \<Rightarrow> client_error + unit" where
  "tls_connect sha256 ce t server_name =
     (let trusted =
            (case t of
               Pinned pin \<Rightarrow>
                 is_ok (verify_server_cert sha256 pin (cn_cert ce))
                 \<and> is_ok (verify_tls13_signature (cn_message ce) (cn_cert ce) (cn_signature ce))
             | WebRoots \<Rightarrow> cn_web_pki ce server_name (cn_cert ce))
      in if \<not> trusted then Inl (CeIo ''invalid peer certificate'')
         else case cn_tls ce of Inl e \<Rightarrow> Inl (CeIo e) | Inr _ \<Rightarrow> Inr ())"

definition host_name :: "connect_env \<Rightarrow> string" where
  "host_name ce =
     (case or_else (cn_computer_name ce) (cn_host_name ce) of Some h \<Rightarrow> h | None \<Rightarrow> ''precall-client'')"

text \<open>The reply of the server.\<close>

definition read_answer :: "connect_env \<Rightarrow> client_error + server_hello" where
  "read_answer ce =
     (case read_limited_json (cn_parse_value ce) (cn_answer ce) of
        Inl e \<Rightarrow> Inl (CeProto e)
      | Inr (value, rest) \<Rightarrow>
          (case cn_as_hello ce value of
             Some h \<Rightarrow> Inr h
           | None \<Rightarrow> Inl (CeConfig (refusal_error value))))"

text \<open>The result is the connection and what was written on the TLS stream.\<close>

definition connect ::
  "(bytes \<Rightarrow> bytes) \<Rightarrow> connect_env \<Rightarrow> client_config \<Rightarrow> (client_error + server_hello \<times> connection) outcome \<times> bytes" where
  "connect sha256 ce cfg =
     (let client_id = (case cc_client_id cfg of Some i \<Rightarrow> i | None \<Rightarrow> cn_fresh_id ce) in
      if \<not> cn_addr_ok ce (cc_server cfg) then
        (Returned (Inl (CeConfig (''bad server address '' @ [CHR 0x22] @ cc_server cfg @ [CHR 0x22]))), [])
      else case cn_tcp ce of
        Inl e \<Rightarrow> (Returned (Inl (CeIo e)), [])
      | Inr _ \<Rightarrow>
          (case choose_trust cfg of
             Panicked \<Rightarrow> (Panicked, [])
           | Returned (Inl e) \<Rightarrow> (Returned (Inl e), [])
           | Returned (Inr t) \<Rightarrow>
               if \<not> cn_name_ok ce (cc_server_name cfg) then
                 (Returned (Inl (CeConfig ''bad server_name'')), [])
               else case tls_connect sha256 ce t (cc_server_name cfg) of
                 Inl e \<Rightarrow> (Returned (Inl e), [])
               | Inr _ \<Rightarrow>
                   (case write_limited_json (cn_print_hello ce) []
                           (client_hello_of client_id (host_name ce) (cc_psk cfg)
                              (cc_capture_interval_ms cfg) (cn_build ce)) of
                      Inl e \<Rightarrow> (Returned (Inl (CeProto e)), [])
                    | Inr wire \<Rightarrow>
                        (case read_answer ce of
                           Inl e \<Rightarrow> (Returned (Inl e), wire)
                         | Inr hello \<Rightarrow> (Returned (Inr (hello, connection_new client_id)), wire)))))"

section \<open>Lemmas\<close>

text \<open>What \<open>connect\<close> requires of the server before it writes.\<close>

definition server_trusted :: "(bytes \<Rightarrow> bytes) \<Rightarrow> connect_env \<Rightarrow> client_config \<Rightarrow> bool" where
  "server_trusted sha256 ce cfg \<longleftrightarrow>
     (case cc_fingerprint cfg of
        None \<Rightarrow> cn_web_pki ce (cc_server_name cfg) (cn_cert ce)
      | Some fp \<Rightarrow> pinned_cert_verifier_new fp = Returned (Inr (sha256 (cn_cert ce))))"

lemma trusted_server:
  assumes "choose_trust cfg = Returned (Inr t)" "tls_connect sha256 ce t (cc_server_name cfg) = Inr ()"
  shows "server_trusted sha256 ce cfg"
  using assms
  by (cases "cc_fingerprint cfg")
    (auto simp: choose_trust_def pinned_client_config_def tls_connect_def server_trusted_def verify_server_cert_def Let_def
      split: outcome.splits sum.splits if_splits)

lemma connect_writes:
  assumes "connect sha256 ce cfg = (r, wire)" "wire \<noteq> []"
  shows "server_trusted sha256 ce cfg"
    "write_limited_json (cn_print_hello ce) []
       (client_hello_of (case cc_client_id cfg of Some i \<Rightarrow> i | None \<Rightarrow> cn_fresh_id ce) (host_name ce) (cc_psk cfg)
          (cc_capture_interval_ms cfg) (cn_build ce)) = Inr wire"
  using assms trusted_server [of cfg _ sha256 ce]
  by (auto simp: connect_def Let_def split: if_splits sum.splits outcome.splits)

lemma write_limited_json_nonempty: "write_limited_json ser [] v = Inr w \<Longrightarrow> w \<noteq> []"
  by (auto simp: write_limited_json_def le_bytes_4 split: sum.splits if_splits)

lemma connect_succeeds:
  assumes "connect sha256 ce cfg = (Returned (Inr (hello, c)), wire)"
  shows "wire \<noteq> []" "read_answer ce = Inr hello"
    "c = connection_new (case cc_client_id cfg of Some i \<Rightarrow> i | None \<Rightarrow> cn_fresh_id ce)"
  using assms
  by (auto simp: connect_def Let_def split: if_splits sum.splits outcome.splits dest!: write_limited_json_nonempty)

section \<open>Properties\<close>

text \<open>C7. The pre-shared key goes to nobody but the server the configuration trusts: \<open>connect\<close> writes
  nothing before the server has shown a certificate with the pinned digest or, when no fingerprint
  is configured, one that the web's roots vouch for; then it writes exactly the hello with the
  configured key and identity. A session comes about only so, and only from an answer that is a
  server hello; with a malformed pin nothing is ever written, whatever the server shows.\<close>

theorem connect_discloses_to_trusted:
  assumes "connect sha256 ce cfg = (r, wire)"
  shows "(wire \<noteq> [] \<longrightarrow> server_trusted sha256 ce cfg
       \<and> write_limited_json (cn_print_hello ce) []
           (client_hello_of (case cc_client_id cfg of Some i \<Rightarrow> i | None \<Rightarrow> cn_fresh_id ce) (host_name ce)
              (cc_psk cfg) (cc_capture_interval_ms cfg) (cn_build ce)) = Inr wire)
     \<and> (\<forall>hello c. r = Returned (Inr (hello, c)) \<longrightarrow> wire \<noteq> [] \<and> read_answer ce = Inr hello
           \<and> conn_client_id c = (case cc_client_id cfg of Some i \<Rightarrow> i | None \<Rightarrow> cn_fresh_id ce))
     \<and> (\<forall>fp. cc_fingerprint cfg = Some fp \<and> (\<nexists>pin. pinned_cert_verifier_new fp = Returned (Inr pin)) \<longrightarrow> wire = [])"
proof (intro conjI allI impI)
  assume "wire \<noteq> []"
  from connect_writes [OF assms this]
  show "server_trusted sha256 ce cfg" and "write_limited_json (cn_print_hello ce) []
      (client_hello_of (case cc_client_id cfg of Some i \<Rightarrow> i | None \<Rightarrow> cn_fresh_id ce) (host_name ce)
         (cc_psk cfg) (cc_capture_interval_ms cfg) (cn_build ce)) = Inr wire" by blast+
next
  fix hello c assume "r = Returned (Inr (hello, c))"
  from connect_succeeds [OF assms [unfolded this]]
  show "wire \<noteq> []" "read_answer ce = Inr hello"
    "conn_client_id c = (case cc_client_id cfg of Some i \<Rightarrow> i | None \<Rightarrow> cn_fresh_id ce)"
    by (simp_all add: connection_new_def)
next
  fix fp assume "cc_fingerprint cfg = Some fp \<and> (\<nexists>pin. pinned_cert_verifier_new fp = Returned (Inr pin))"
  then show "wire = []" using connect_writes(1) [OF assms] by (auto simp: server_trusted_def)
qed

definition example_server_hello :: server_hello where
  "example_server_hello =
     \<lparr>sh_session_id = ''s'', sh_accepted_channels = [GfxRdp], sh_server_time_100ns = 1,
      sh_heartbeat_interval_ms = 30000, sh_max_frame_bytes = 0\<rparr>"

definition example_connect :: connect_env where
  "example_connect =
     \<lparr>cn_fresh_id = ''f'', cn_addr_ok = (\<lambda>_. True), cn_tcp = Inr (), cn_name_ok = (\<lambda>_. True),
      cn_web_pki = (\<lambda>_ _. False), cn_tls = Inr (), cn_cert = [7], cn_message = [], cn_signature = [],
      cn_computer_name = None, cn_host_name = Some ''h'', cn_build = ''1'',
      cn_print_hello = (\<lambda>_. Inr [9]), cn_answer = [1, 0, 0, 0, 5],
      cn_parse_value = (\<lambda>_. Inr []), cn_as_hello = (\<lambda>_. Some example_server_hello)\<rparr>"

definition example_pin :: "bytes \<Rightarrow> bytes" where
  "example_pin m = take 32 (m @ replicate 32 0)"

theorem connect_discloses_to_trusted_witness:
  "(\<exists>c. connect example_pin example_connect (client_config_default\<lparr>cc_fingerprint := Some (hex_lower (example_pin [7]))\<rparr>)
      = (Returned (Inr (example_server_hello, c)), [1, 0, 0, 0, 9]) \<and> conn_client_id c = ''f'')
   \<and> snd (connect example_pin example_connect (client_config_default\<lparr>cc_fingerprint := Some (hex_lower (example_pin [8]))\<rparr>)) = []"
proof -
  let ?cfg = "\<lambda>b. client_config_default\<lparr>cc_fingerprint := Some (hex_lower (example_pin [b]))\<rparr>"
  have pin: "pinned_cert_verifier_new (hex_lower (example_pin [b])) = Returned (Inr (example_pin [b]))" for b
    by (rule pin_of_fingerprint) (simp add: example_pin_def)
  have differ: "example_pin [7] \<noteq> example_pin [8]" by (simp add: example_pin_def)
  have "\<exists>c. connect example_pin example_connect (?cfg 7) = (Returned (Inr (example_server_hello, c)), [1, 0, 0, 0, 9])"
    by (simp add: connect_def choose_trust_def pinned_client_config_def pin tls_connect_def verify_server_cert_def
        verify_tls13_signature_def example_connect_def write_limited_json_def read_answer_def read_limited_json_def
        MAX_HANDSHAKE_PAYLOAD_def le_bytes_4 le_word.simps client_config_default_def)
  then obtain c where c: "connect example_pin example_connect (?cfg 7) = (Returned (Inr (example_server_hello, c)), [1, 0, 0, 0, 9])"
    by blast
  have "conn_client_id c = ''f''"
    using connect_discloses_to_trusted [OF c] by (simp add: client_config_default_def example_connect_def)
  moreover obtain r wire where w: "connect example_pin example_connect (?cfg 8) = (r, wire)" by (metis prod.exhaust)
  have "\<not> server_trusted example_pin example_connect (?cfg 8)"
    using differ by (simp add: server_trusted_def pin example_connect_def)
  with connect_discloses_to_trusted [OF w] have "wire = []" by blast
  ultimately show ?thesis using c w by simp
qed

end
