(* ===== verification/Client_Devices.thy ===== *)
theory Client_Devices
  imports Client_Connect
begin

text \<open>
  The threads of the capture client behind its channels: desktop duplication
  (\<open>precall-client/src/dxgi.rs\<close>), loopback audio (\<open>audio.rs\<close>), the bridges of \<open>run.rs\<close> and the
  Windows service host (\<open>service.rs\<close>). What a call of Windows answers is an argument; a thread is
  a function of the answers it gets, turn by turn, and its result is what it puts on its channel.
\<close>

section \<open>Desktop duplication (dxgi.rs)\<close>

record desktop_rect =
  dr_left :: u32
  dr_top :: u32
  dr_right :: u32
  dr_bottom :: u32

text \<open>The answers to the calls of \<open>Duplicator::new\<close>: the adapters until the enumeration fails, each
  with the desktop rectangle of the wanted output if it has one, and the results of the calls that
  create the device, its context, the duplication and the staging texture.\<close>

record dxgi_env =
  dx_factory :: "string + unit"
  dx_adapters :: "(string + desktop_rect) option list"
  dx_create_device :: "string + unit"
  dx_device :: bool
  dx_context :: bool
  dx_duplicate :: "string + unit"
  dx_create_staging :: "string + unit"
  dx_staging :: bool

record duplicator =
  du_width :: u32
  du_height :: u32

text \<open>The first adapter that has the output.\<close>

fun find_output :: "'o option list \<Rightarrow> 'o option" where
  "find_output [] = None"
| "find_output (Some out # as) = Some out"
| "find_output (None # as) = find_output as"

definition win_result :: "string + 'a \<Rightarrow> client_error + 'a" where
  "win_result r = (case r of Inl e \<Rightarrow> Inl (CeWindows e) | Inr a \<Rightarrow> Inr a)"

definition required :: "string \<Rightarrow> bool \<Rightarrow> client_error + unit" where
  "required msg present = (if present then Inr () else Inl (CeConfig msg))"

definition duplicator_new :: "dxgi_env \<Rightarrow> client_error + duplicator" where
  "duplicator_new dx =
     rbind (win_result (dx_factory dx)) (\<lambda>_.
     case find_output (dx_adapters dx) of
       None \<Rightarrow> Inl (CeConfig ''no DXGI adapter found'')
     | Some desc \<Rightarrow>
         rbind (win_result desc) (\<lambda>d.
         let w = dr_right d - dr_left d; h = dr_bottom d - dr_top d in
         rbind (win_result (dx_create_device dx)) (\<lambda>_.
         rbind (required ''D3D11CreateDevice returned no device'' (dx_device dx)) (\<lambda>_.
         rbind (required ''D3D11CreateDevice returned no context'' (dx_context dx)) (\<lambda>_.
         rbind (win_result (dx_duplicate dx)) (\<lambda>_.
         rbind (win_result (dx_create_staging dx)) (\<lambda>_.
         rbind (required ''staging texture allocation failed'' (dx_staging dx)) (\<lambda>_.
         Inr \<lparr>du_width = w, du_height = h\<rparr>))))))))"

text \<open>What \<open>AcquireNextFrame\<close> answers; an acquired frame comes with its resource (cast to a
  texture), the size of its metadata and the mapping of the staging copy: pitch and bytes.\<close>

datatype acquire =
    WaitTimeout
  | AcquireFailed string
  | Acquired "(string + unit) option" u32 "string + nat \<times> bytes"

text \<open>The size of the pixel buffer is computed in 32 bits.\<close>

definition frame_of :: "duplicator \<Rightarrow> u32 \<Rightarrow> nat \<times> bytes \<Rightarrow> capture_frame" where
  "frame_of du metadata_size mapped =
     \<lparr>cf_bgra =
        (let len = unat (du_width du * du_height du * 4);
             rows = copy_rows (unat (du_width du)) (unat (du_height du)) (fst mapped) (snd mapped)
         in take len (rows @ replicate (len - length rows) 0)),
      cf_width = du_width du, cf_height = du_height du, cf_dirty_regions = metadata_size\<rparr>"

text \<open>The frame that was acquired is released on every path out of the closure; the second component
  counts the frames that are held.\<close>

definition next_frame :: "duplicator \<Rightarrow> acquire \<Rightarrow> nat \<Rightarrow> (client_error + capture_frame option) \<times> nat" where
  "next_frame du answer held =
     (case answer of
        WaitTimeout \<Rightarrow> (Inr None, held)
      | AcquireFailed e \<Rightarrow> (Inl (CeWindows e), held)
      | Acquired resource metadata_size map_result \<Rightarrow>
          let held1 = held + 1;
              result =
                (case resource of
                   None \<Rightarrow> Inl (CeConfig ''frame resource empty'')
                 | Some cast \<Rightarrow>
                     rbind (win_result cast) (\<lambda>_.
                     rbind (win_result map_result) (\<lambda>m. Inr (frame_of du metadata_size m))))
          in (rbind result (\<lambda>f. Inr (Some f)), held1 - 1))"

text \<open>One turn of the capture thread: the answer to \<open>next_frame(100)\<close>, and what a recreation of the
  duplicator would meet. \<open>receiver\<close>: whether the receiving end is still there.\<close>

record capture_turn =
  tu_answer :: acquire
  tu_dxgi :: dxgi_env
  tu_receiver :: bool

fun capture_loop :: "duplicator \<Rightarrow> capture_turn list \<Rightarrow> nat \<Rightarrow> (client_error + capture_frame) list \<times> bool \<times> nat" where
  "capture_loop du [] held = ([], True, held)"
| "capture_loop du (t # ts) held =
     (case next_frame du (tu_answer t) held of
        (Inr (Some f), h) \<Rightarrow>
          if tu_receiver t then (case capture_loop du ts h of (ms, r) \<Rightarrow> (Inr f # ms, r)) else ([], False, h)
      | (Inr None, h) \<Rightarrow> capture_loop du ts h
      | (Inl e, h) \<Rightarrow>
          (case duplicator_new (tu_dxgi t) of
             Inr du' \<Rightarrow> capture_loop du' ts h
           | Inl e2 \<Rightarrow> (if tu_receiver t then [Inl e2] else [], False, h)))"

text \<open>The messages, whether the thread is still alive, and the number of held frames.\<close>

definition spawn_capture :: "dxgi_env \<Rightarrow> capture_turn list \<Rightarrow> (client_error + capture_frame) list \<times> bool \<times> nat" where
  "spawn_capture dx turns =
     (case duplicator_new dx of
        Inl e \<Rightarrow> ([Inl e], False, 0)
      | Inr du \<Rightarrow> capture_loop du turns 0)"

text \<open>The bridge to the runtime's channel (\<open>run.rs\<close>): it stops at the first error, and then the
  channel is closed.\<close>

fun bridge :: "(client_error + 'a) list \<Rightarrow> 'a list" where
  "bridge [] = []"
| "bridge (Inr f # ms) = f # bridge ms"
| "bridge (Inl e # ms) = []"

section \<open>Loopback audio (audio.rs)\<close>

record wave_format =
  wf_tag :: u16
  wf_channels :: u16
  wf_samples_per_sec :: u32
  wf_block_align :: u16
  wf_bits :: u16
  wf_sub_format :: "128 word"

record loopback =
  lb_block_align :: u16
  lb_channels :: u16
  lb_sample_rate :: u32
  lb_bits :: u16
  lb_float :: bool

definition loopback_float :: "wave_format \<Rightarrow> bool" where
  "loopback_float f =
     (if wf_tag f = 3 then True
      else if wf_tag f = 0xFFFE then wf_sub_format f = 0x0000000300000010800000aa00389b71
      else False)"

text \<open>The format and the results of the calls of \<open>Loopback::new\<close> before and after it is known. The
  block alignment is read after the format was freed: \<open>reread\<close> is what is found there.\<close>

definition loopback_new :: "string + unit \<Rightarrow> wave_format \<Rightarrow> string + unit \<Rightarrow> u16 \<Rightarrow> client_error + loopback" where
  "loopback_new opened f started reread =
     rbind (win_result opened) (\<lambda>_.
     rbind (win_result started) (\<lambda>_.
     Inr \<lparr>lb_block_align = reread, lb_channels = wf_channels f,
          lb_sample_rate = wf_samples_per_sec f, lb_bits = wf_bits f, lb_float = loopback_float f\<rparr>))"

text \<open>One round of the loop in \<open>pump\<close>: the next packet size, the buffer, its release.\<close>

record packet =
  pk_size :: "string + u32"
  pk_buffer :: "string + bytes option \<times> u32 \<times> u32"
  pk_release :: "string + unit"

definition packet_samples :: "loopback \<Rightarrow> bytes option \<times> u32 \<times> u32 \<Rightarrow> u16 list" where
  "packet_samples lb buffer =
     (case buffer of (data, nframes, flags) \<Rightarrow>
        let byte_len = unat nframes * unat (lb_block_align lb)
        in case data of
             None \<Rightarrow> []
           | Some d \<Rightarrow>
               if flags = 0 \<and> 0 < byte_len
               then pcm_packet (lb_float lb) (unat (lb_bits lb)) (take byte_len d)
               else [])"

fun pump :: "loopback \<Rightarrow> packet list \<Rightarrow> client_error + u16 list" where
  "pump lb [] = Inr []"
| "pump lb (p # ps) =
     rbind (win_result (pk_size p)) (\<lambda>frames.
     if frames = 0 then Inr []
     else
       rbind (win_result (pk_buffer p)) (\<lambda>buffer.
       rbind (win_result (pk_release p)) (\<lambda>_.
       rbind (pump lb ps) (\<lambda>rest. Inr (packet_samples lb buffer @ rest)))))"

record audio_chunk =
  ac_pcm16 :: "u16 list"
  ac_channels :: u16
  ac_sample_rate :: u32

text \<open>One turn of the audio thread: whether \<open>stop\<close> is set when it is looked at, the packets that
  \<open>pump\<close> meets, and whether the receiving end is still there.\<close>

record audio_turn =
  at_stop :: bool
  at_packets :: "packet list"
  at_receiver :: bool

fun audio_loop :: "loopback \<Rightarrow> audio_turn list \<Rightarrow> (client_error + audio_chunk) list" where
  "audio_loop lb [] = []"
| "audio_loop lb (t # ts) =
     (if at_stop t then []
      else case pump lb (at_packets t) of
             Inl e \<Rightarrow> (if at_receiver t then [Inl e] else [])
           | Inr pcm \<Rightarrow>
               if pcm = [] then audio_loop lb ts
               else if at_receiver t
               then Inr \<lparr>ac_pcm16 = pcm, ac_channels = lb_channels lb, ac_sample_rate = lb_sample_rate lb\<rparr>
                      # audio_loop lb ts
               else [])"

definition spawn_loopback ::
  "client_error + loopback \<Rightarrow> audio_turn list \<Rightarrow> (client_error + audio_chunk) list" where
  "spawn_loopback new turns =
     (case new of Inl e \<Rightarrow> [Inl e] | Inr lb \<Rightarrow> audio_loop lb turns)"

section \<open>The service host (service.rs)\<close>

datatype service_control = CtlStop | CtlShutdown | CtlInterrogate | CtlOther

datatype control_result = CtlNoError | CtlNotImplemented

text \<open>The handler: its answer, and whether the stop signal is sent.\<close>

fun service_control_handler :: "service_control \<Rightarrow> control_result \<times> bool" where
  "service_control_handler CtlStop = (CtlNoError, True)"
| "service_control_handler CtlShutdown = (CtlNoError, True)"
| "service_control_handler CtlInterrogate = (CtlNoError, False)"
| "service_control_handler CtlOther = (CtlNotImplemented, False)"

datatype service_state = ServiceRunning | ServiceStopped

record service_status =
  st_state :: service_state
  st_accepted :: "service_control list"
  st_exit_code :: u32

text \<open>\<open>run_service_inner\<close>: the result, the statuses reported, and the configuration that \<open>run\<close> gets.
  \<open>accepts n\<close> is the answer to the \<open>n\<close>-th report; how \<open>run\<close> ends is ignored.\<close>

definition run_service_inner ::
  "string + unit \<Rightarrow> (nat \<Rightarrow> string + unit) \<Rightarrow> string + unit \<Rightarrow> nat \<Rightarrow> (nat \<Rightarrow> client_config option)
     \<Rightarrow> (string + unit) \<times> service_status list \<times> client_config option" where
  "run_service_inner registered accepts runtime thread slots =
     (let running = \<lparr>st_state = ServiceRunning, st_accepted = [CtlStop, CtlShutdown], st_exit_code = 0\<rparr>;
          stopped = \<lparr>st_state = ServiceStopped, st_accepted = [], st_exit_code = 0\<rparr>
      in case registered of
           Inl e \<Rightarrow> (Inl e, [], None)
         | Inr _ \<Rightarrow>
             (case accepts 0 of
                Inl e \<Rightarrow> (Inl e, [running], None)
              | Inr _ \<Rightarrow>
                  (case runtime of
                     Inl e \<Rightarrow> (Inl e, [running], None)
                   | Inr _ \<Rightarrow> (accepts 1, [running, stopped], Some (service_config thread slots)))))"

text \<open>What \<open>install\<close> registers: the arguments of the service's command line; no account means
  Local System.\<close>

record service_info =
  si_name :: string
  si_display_name :: string
  si_auto_start :: bool
  si_executable_path :: string
  si_launch_arguments :: "string list"
  si_account_name :: "string option"

definition install :: "string \<Rightarrow> service_info" where
  "install exe_path =
     \<lparr>si_name = ''Precall'', si_display_name = ''Precall Capture Agent'', si_auto_start = True,
      si_executable_path = exe_path, si_launch_arguments = [''run'', ''--as-service''],
      si_account_name = None\<rparr>"

text \<open>\<open>run --as-service\<close>: the configuration is stashed on the main thread, and the dispatcher calls
  the service's main function on a thread of its own.\<close>

definition run_as_service ::
  "nat \<Rightarrow> nat \<Rightarrow> client_config \<Rightarrow> (nat \<Rightarrow> client_config option) \<Rightarrow> string + unit \<Rightarrow> (nat \<Rightarrow> string + unit) \<Rightarrow> string + unit
     \<Rightarrow> (string + unit) \<times> service_status list \<times> client_config option" where
  "run_as_service main_thread service_thread cfg slots registered accepts runtime =
     run_service_inner registered accepts runtime service_thread (stash_config main_thread cfg slots)"

text \<open>\<open>uninstall\<close> needs the manager and the service; that the service cannot be stopped is ignored.\<close>

definition uninstall :: "string + unit \<Rightarrow> string + unit \<Rightarrow> string + unit \<Rightarrow> string + unit \<Rightarrow> string + unit" where
  "uninstall manager opened stopped deleted =
     rbind manager (\<lambda>_. rbind opened (\<lambda>_. let ignored = stopped in deleted))"

section \<open>The command line (main.rs)\<close>

datatype client_cmd =
    CmdRun run_args
  | CmdInstallService
  | CmdUninstallService
  | CmdEnroll run_args

text \<open>What the program goes on to do: capture in the foreground or as a service with a configuration,
  or it is done.\<close>

datatype client_action =
    RunForeground client_config
  | RunService client_config
  | Enrolled client_config
  | Installed service_info
  | Uninstalled

definition client_main ::
  "(string \<Rightarrow> uuid option) \<Rightarrow> string option \<Rightarrow> uuid \<Rightarrow> string + string \<Rightarrow> (service_info \<Rightarrow> string + unit)
     \<Rightarrow> string + unit \<Rightarrow> client_cmd \<Rightarrow> registry \<Rightarrow> (string + client_action) \<times> registry" where
  "client_main parse_uuid env_psk fresh exe create_service removed cmd =
     (case cmd of
        CmdRun a \<Rightarrow>
          act_bind (run_config parse_uuid env_psk fresh a) (\<lambda>cfg.
          act_return (if ra_as_service a then RunService cfg else RunForeground cfg))
      | CmdEnroll a \<Rightarrow>
          act_bind (run_config parse_uuid env_psk fresh a) (\<lambda>cfg.
          act_bind (persist cfg) (\<lambda>_. act_return (Enrolled cfg)))
      | CmdInstallService \<Rightarrow>
          (\<lambda>reg. (rbind exe (\<lambda>abs. rbind (create_service (install abs)) (\<lambda>_. Inr (Installed (install abs)))), reg))
      | CmdUninstallService \<Rightarrow> (\<lambda>reg. (rbind removed (\<lambda>_. Inr Uninstalled), reg)))"

text \<open>Only an enrollment writes the settings: any other command leaves every value but the identity
  that a first run draws.\<close>

lemma client_main_settings:
  assumes "client_main parse_uuid env_psk fresh exe create_service removed cmd reg = (r, reg')"
    and "\<And>a. cmd \<noteq> CmdEnroll a" "name \<noteq> ''ClientId''"
  shows "reg_get name reg' = reg_get name reg"
proof -
  have set: "reg_get name reg2 = reg_get name reg1" if "reg_set ''ClientId'' v reg1 = (x, reg2)" for v x reg1 reg2
    using that assms(3) by (auto simp: reg_set_def reg_get_def split: if_splits)
  have "reg_get name reg2 = reg_get name reg" if "run_config parse_uuid env_psk fresh a reg = (x, reg2)" for a x reg2
    using that set by (auto simp: run_config_def resolve_def Let_def split: option.splits prod.splits sum.splits)
  then show ?thesis
    using assms(1,2)
    by (cases cmd) (auto simp: client_main_def act_bind_def act_return_def split: prod.splits sum.splits)
qed

section \<open>Lemmas\<close>

lemma next_frame_held: "snd (next_frame du a held) = held"
  by (simp add: next_frame_def Let_def split: acquire.splits)

definition good_answer :: "acquire \<Rightarrow> bool" where
  "good_answer a \<longleftrightarrow> (\<exists>size m. a = Acquired (Some (Inr ())) size (Inr m))"

definition whole_frame :: "capture_frame \<Rightarrow> bool" where
  "whole_frame f \<longleftrightarrow> length (cf_bgra f) = unat (cf_width f * cf_height f * 4)"

lemma next_frame_Some: "next_frame du a held = (Inr (Some f), h) \<Longrightarrow> good_answer a \<and> whole_frame f"
  by (auto simp: next_frame_def good_answer_def whole_frame_def frame_of_def Let_def win_result_def rbind_Inr_iff
      split: acquire.splits option.splits sum.splits)

lemma next_frame_good: "good_answer a \<Longrightarrow> \<exists>f. fst (next_frame du a held) = Inr (Some f)"
  by (auto simp: next_frame_def good_answer_def win_result_def)

lemma bridge_frames: "bridge (map Inr fs @ map Inl (take 1 es)) = fs"
  by (induction fs) (cases es, simp_all)+

text \<open>What the loop puts on its channel: frames, then at most one error, which ends the thread.\<close>

lemma capture_loop_delivers:
  assumes "capture_loop du ts held = (ms, alive, h)"
  shows "h = held \<and> (\<exists>fs es. ms = map Inr fs @ map Inl es \<and> length es \<le> 1 \<and> (alive \<longrightarrow> es = [])
     \<and> (\<forall>f \<in> set fs. whole_frame f)
     \<and> (alive \<longrightarrow> length fs = length [t\<leftarrow>ts. good_answer (tu_answer t)]))"
  using assms
proof (induction ts arbitrary: du ms)
  case Nil
  then show ?case by (auto intro!: exI [of _ "[]"])
next
  case (Cons t ts)
  obtain r k where n: "next_frame du (tu_answer t) held = (r, k)" by (cases "next_frame du (tu_answer t) held")
  then have k: "k = held" using next_frame_held [of du "tu_answer t" held] by simp
  have skip: ?case if "capture_loop du' ts held = (ms, alive, h)" "\<not> good_answer (tu_answer t)" for du'
    using Cons.IH [OF that(1)] that(2) by simp
  consider f where "r = Inr (Some f)" | "r = Inr None" | e where "r = Inl e"
    by (metis sum.exhaust option.exhaust)
  then show ?case
  proof cases
    case (1 f)
    note f = next_frame_Some [OF n [unfolded 1]]
    show ?thesis
    proof (cases "tu_receiver t")
      case True
      then obtain ms' where ms': "capture_loop du ts held = (ms', alive, h)" "ms = Inr f # ms'"
        using Cons.prems n 1 k by (auto split: prod.splits)
      obtain fs es where "h = held" "ms' = map Inr fs @ map Inl es" "length es \<le> 1" "alive \<longrightarrow> es = []"
        "\<forall>f \<in> set fs. whole_frame f" "alive \<longrightarrow> length fs = length [t\<leftarrow>ts. good_answer (tu_answer t)]"
        using Cons.IH [OF ms'(1)] by blast
      then show ?thesis using f ms'(2) by (intro conjI exI [of _ "f # fs"] exI [of _ es]) auto
    next
      case False
      then show ?thesis using Cons.prems n 1 k by (auto intro!: exI [of _ "[]"])
    qed
  next
    case 2
    then have "\<not> good_answer (tu_answer t)" using next_frame_good [of "tu_answer t" du held] n by auto
    then show ?thesis using skip [of du] Cons.prems n 2 k by simp
  next
    case (3 e)
    then have bad: "\<not> good_answer (tu_answer t)" using next_frame_good [of "tu_answer t" du held] n by auto
    show ?thesis
    proof (cases "duplicator_new (tu_dxgi t)")
      case (Inl e2)
      then show ?thesis using Cons.prems n 3 k
        by (cases "tu_receiver t") (auto intro!: exI [of _ "[]"] exI [of _ "[e2]"])
    next
      case (Inr du')
      then show ?thesis using skip [of du'] bad Cons.prems n 3 k by simp
    qed
  qed
qed

text \<open>A turn after which the audio thread goes on.\<close>

definition audio_turn_ok :: "loopback \<Rightarrow> audio_turn \<Rightarrow> u16 list \<Rightarrow> bool" where
  "audio_turn_ok lb t pcm \<longleftrightarrow>
     \<not> at_stop t \<and> pump lb (at_packets t) = Inr pcm \<and> (pcm \<noteq> [] \<longrightarrow> at_receiver t)"

lemma audio_loop_ok_Cons:
  assumes "audio_turn_ok lb t pcm"
  shows "concat (map ac_pcm16 (bridge (audio_loop lb (t # ts))))
     = pcm @ concat (map ac_pcm16 (bridge (audio_loop lb ts)))"
  using assms by (auto simp: audio_turn_ok_def)

lemma audio_loop_ends:
  assumes "\<nexists>pcm. audio_turn_ok lb t pcm"
  shows "bridge (audio_loop lb (t # ts)) = []"
  using assms by (auto simp: audio_turn_ok_def split: sum.splits)

lemma audio_loop_delivers:
  "\<exists>pcms. length pcms \<le> length ts
     \<and> (\<forall>i < length pcms. audio_turn_ok lb (ts ! i) (pcms ! i))
     \<and> concat (map ac_pcm16 (bridge (audio_loop lb ts))) = concat pcms
     \<and> (length pcms < length ts \<longrightarrow> (\<nexists>pcm. audio_turn_ok lb (ts ! length pcms) pcm))"
proof (induction ts)
  case (Cons t ts)
  then obtain pcms where ih: "length pcms \<le> length ts" "\<forall>i < length pcms. audio_turn_ok lb (ts ! i) (pcms ! i)"
    "concat (map ac_pcm16 (bridge (audio_loop lb ts))) = concat pcms"
    "length pcms < length ts \<longrightarrow> (\<nexists>pcm. audio_turn_ok lb (ts ! length pcms) pcm)" by blast
  show ?case
  proof (cases "\<exists>pcm. audio_turn_ok lb t pcm")
    case True
    then obtain pcm where "audio_turn_ok lb t pcm" by blast
    then show ?thesis
      using ih audio_loop_ok_Cons [of lb t pcm ts]
      by (intro exI [of _ "pcm # pcms"]) (auto simp: nth_Cons split: nat.splits)
  next
    case False
    then show ?thesis using audio_loop_ends [of lb t ts] by (intro exI [of _ "[]"]) simp
  qed
qed simp

lemma audio_chunks_nonempty: "\<forall>c \<in> set (bridge (audio_loop lb ts)). ac_pcm16 c \<noteq> []"
  by (induction ts) (auto split: sum.splits)

text \<open>What a pump that succeeds returns: the samples of the packets up to the first empty size.\<close>

lemma pump_samples:
  assumes "pump lb ps = Inr pcm"
  shows "pcm = concat (map (\<lambda>p. packet_samples lb (projr (pk_buffer p))) (takeWhile (\<lambda>p. pk_size p \<noteq> Inr 0) ps))"
  using assms
proof (induction ps arbitrary: pcm)
  case (Cons p ps)
  then show ?case
    by (cases "pk_size p"; cases "pk_buffer p")
      (auto simp: win_result_def rbind_Inr_iff split: if_splits sum.splits)
qed simp

section \<open>The threads\<close>

text \<open>The capture thread: whatever Windows answers, no frame stays acquired, what reaches the
  session are frames whose buffer has exactly the bytes of their dimensions, and at most one error,
  the last message, when the duplication can be had neither at the start nor after it was lost.
  While the thread lives every acquired frame has been delivered, also across recreations.\<close>

lemma capture_thread_delivers:
  assumes "spawn_capture dx turns = (ms, alive, held)"
  shows "held = 0 \<and> (\<forall>f \<in> set (bridge ms). whole_frame f)
     \<and> (ms = map Inr (bridge ms) \<or> (\<exists>e. ms = map Inr (bridge ms) @ [Inl e] \<and> \<not> alive))
     \<and> (alive \<longrightarrow> length (bridge ms) = length [t\<leftarrow>turns. good_answer (tu_answer t)])
     \<and> (\<not> is_ok (duplicator_new dx) \<longrightarrow> bridge ms = [])"
proof (cases "duplicator_new dx")
  case (Inl e)
  then show ?thesis using assms by (auto simp: spawn_capture_def)
next
  case (Inr du)
  then have "capture_loop du turns 0 = (ms, alive, held)" using assms by (simp add: spawn_capture_def)
  from capture_loop_delivers [OF this] obtain fs es where d: "held = 0" "ms = map Inr fs @ map Inl es" "length es \<le> 1"
    "alive \<longrightarrow> es = []" "\<forall>f \<in> set fs. whole_frame f"
    "alive \<longrightarrow> length fs = length [t\<leftarrow>turns. good_answer (tu_answer t)]" by blast
  have es: "es = [] \<or> (\<exists>e. es = [e])" using d(3) by (cases es) auto
  then have "take 1 es = es" by auto
  then have "bridge ms = fs" using bridge_frames [of fs es] d(2) by simp
  then show ?thesis using d es Inr by auto
qed

text \<open>The audio thread: the samples that reach the session are, in order and without loss, those of
  the packets of all pumps before the first one that fails, finds the stop flag or has no receiver;
  a pump takes the packets up to the first empty one, and leaves out only those that Windows flags.
  No chunk is empty, and each carries the channels and the rate of the device.\<close>

lemma audio_thread_delivers:
  "let cs = bridge (spawn_loopback (Inr lb) turns) in \<exists>pcms. length pcms \<le> length turns
     \<and> concat (map ac_pcm16 cs) = concat pcms
     \<and> (\<forall>i < length pcms. audio_turn_ok lb (turns ! i) (pcms ! i)
          \<and> pcms ! i = concat (map (\<lambda>p. packet_samples lb (projr (pk_buffer p)))
                (takeWhile (\<lambda>p. pk_size p \<noteq> Inr 0) (at_packets (turns ! i)))))
     \<and> (length pcms < length turns \<longrightarrow> (\<nexists>pcm. audio_turn_ok lb (turns ! length pcms) pcm))
     \<and> (\<forall>c \<in> set cs. ac_pcm16 c \<noteq> [] \<and> ac_channels c = lb_channels lb \<and> ac_sample_rate c = lb_sample_rate lb)"
proof -
  obtain pcms where p: "length pcms \<le> length turns" "\<forall>i < length pcms. audio_turn_ok lb (turns ! i) (pcms ! i)"
    "concat (map ac_pcm16 (bridge (audio_loop lb turns))) = concat pcms"
    "length pcms < length turns \<longrightarrow> (\<nexists>pcm. audio_turn_ok lb (turns ! length pcms) pcm)"
    using audio_loop_delivers [of turns lb] by blast
  have "\<forall>c \<in> set (bridge (audio_loop lb turns)).
      ac_pcm16 c \<noteq> [] \<and> ac_channels c = lb_channels lb \<and> ac_sample_rate c = lb_sample_rate lb"
    by (induction turns) (auto split: sum.splits)
  then show ?thesis
    using p pump_samples by (auto simp: Let_def spawn_loopback_def audio_turn_ok_def intro!: exI [of _ pcms])
qed

section \<open>Properties\<close>

text \<open>The Windows service does not run with its configuration: the dispatcher's thread finds the
  slot of the main thread empty, so whatever was enrolled or passed, the service captures with the
  defaults. It dials the default address, offers an empty pre-shared key and a new identity at every
  connection, and speaks only to a server that the web's roots vouch for under the default name,
  whatever fingerprint was pinned.\<close>

lemma service_runs_unconfigured:
  assumes "service_thread \<noteq> main_thread" "slots service_thread = None"
    and "run_as_service main_thread service_thread cfg slots registered accepts runtime = (r, statuses, Some run_cfg)"
    and "connect sha256 ce run_cfg = (c, wire)" "wire \<noteq> []"
  shows "run_cfg = client_config_default
     \<and> cn_web_pki ce ''precall-server'' (cn_cert ce)
     \<and> write_limited_json (cn_print_hello ce) []
         (client_hello_of (cn_fresh_id ce) (host_name ce) None 5000 (cn_build ce)) = Inr wire"
proof -
  have cfg: "run_cfg = client_config_default"
    using assms(1-3)
    by (auto simp: run_as_service_def run_service_inner_def service_config_def stash_config_def Let_def split: sum.splits)
  show ?thesis
    using connect_writes [OF assms(4,5)] by (simp add: cfg server_trusted_def client_config_default_def)
qed

end
