(* ===== verification/Spec2Isabelle.thy ===== *)
theory Spec2Isabelle
  imports Broker_Isolation Broker_Start Local_Embedding Enrich_Poll End_To_End Client_Safety Client_Devices
begin

text \<open>
  \<^bold>\<open>Verification of PreCall.\<close>

  PreCall records what a user sees and makes it searchable. A capture client
  (\<open>precall-client\<close>) takes the foreground window, asks a privacy filter, and ships screenshots,
  window metadata and audio over one TLS connection with multiplexed virtual channels. The
  broker (\<open>precall-broker\<close>) authenticates the client, pairs frames with metadata, encrypts the
  screenshots into an object store and writes the metadata into one SQLite database per client
  (\<open>precall-store\<close>). The API server (\<open>precall-api\<close>) runs on the same data root: an enrichment
  worker computes topics and embeddings through an external AI service, and the HTTP routes
  offer timeline, search, export, live stream and deletion. \<open>precall-proto\<close> holds what both
  ends of the wire share, \<open>precall-mock\<close> is a headless client. All paths below are under
  \<open>src/crates\<close>.

  \<^bold>\<open>Theories.\<close>

  \<^item> \<open>PreCall_Prelude\<close>: machine types, results as sums, little-endian bytes, ASCII text, the
    wrap-around of \<open>i64\<close>; the driver \<open>drain\<close> of a framed decoder with the interface
    \<open>framed_decoder\<close>; slices of a fixed length; step relations (\<open>reachable\<close>) with the interface \<open>state_machine\<close>; fallible
    actions on a mutable state (\<open>act_ok\<close>, \<open>act_keeps\<close>, and \<open>act_sim\<close> for two runs side by side).
  \<^item> \<open>Mux_Codec\<close>, \<open>Gfx_Pdu\<close>, \<open>Proto_Records\<close> (\<open>precall-proto\<close>: \<open>error.rs\<close>, \<open>channel.rs\<close>,
    \<open>codec.rs\<close>, \<open>gfx.rs\<close>, \<open>handshake.rs\<close>, \<open>metadata.rs\<close>): the wire. Encoders and decoders are
    functions on byte lists; a decoder is \<open>bytes \<Rightarrow> error + (frame \<times> rest) option\<close>, \<open>None\<close> where
    the code waits for more bytes.
  \<^item> \<open>Filetime\<close> (\<open>time.rs\<close>, \<open>ymd_from_filetime\<close> of \<open>objects.rs\<close>, the hour bucket of \<open>ukg.rs\<close>):
    tick arithmetic against a calendar given as a specification.
  \<^item> \<open>Hex_Crypto\<close> (\<open>pinning.rs\<close>, the fingerprints of \<open>tls.rs\<close>, \<open>crypto.rs\<close>): certificate
    pinning and the sealed envelope. A slice out of range is the outcome \<open>Panicked\<close>.
  \<^item> \<open>Object_Store\<close> (\<open>objects.rs\<close>): keys, files, the shared key file, over a map from paths to
    bytes in which any path may be marked as failing.
  \<^item> \<open>Access_Control\<close> (\<open>precall-broker/src/auth.rs\<close>, \<open>precall-api/src/auth.rs\<close>).
  \<^item> \<open>Ukg_Tables\<close>, \<open>Ukg_Integrity\<close>, \<open>Ukg_Queries\<close> (\<open>schema.rs\<close>, \<open>ukg.rs\<close>): the metadata
    database. Each table is a record of rows and last id; each method of \<open>UkgDb\<close> is a
    function on the whole database, a transaction being one step. \<open>ukg_step\<close> is any of the
    writing operations.
  \<^item> \<open>Float32\<close>: IEEE 754 binary32 on bit patterns, executable: rounding to nearest even, the four
    operations, the root, the casts. A float of the code is its bit pattern everywhere.
  \<^item> \<open>Semantic_Store\<close> (\<open>semantic.rs\<close>): the vector stores, with the arithmetic of their scores.
  \<^item> \<open>Embedder\<close>, \<open>Local_Embedding\<close> (\<open>embed.rs\<close>): configuration, the classification of the
    service's answers, the local embedder (hashed bags of words, image digests).
  \<^item> \<open>Enricher\<close>, \<open>Enricher_Safety\<close>, \<open>Enrich_Rounds\<close>, \<open>Enrich_Poll\<close> (\<open>enrich.rs\<close>): a pass over the
    queues of a client; the state is its database with its two vector stores, the environment the
    embedder, the clock and the files. \<open>spawn_enricher\<close> is the loop of passes with what arrives
    between. \<open>Enrich_Complete\<close>, \<open>Enrich_Served\<close> and \<open>Enrich_All\<close> follow a capture while the AI
    service answers: through its legs, through a pass, and over the rounds.
  \<^item> \<open>Broker_Start\<close> (\<open>main.rs\<close>, \<open>tls.rs\<close> of the broker): configuration from the command line, the
    files of the TLS identity.
  \<^item> \<open>Broker_Ingest\<close>, \<open>Ingest_Safety\<close> (\<open>ingest.rs\<close>, \<open>config.rs\<close>): the hello, the channel
    handlers, frame assembly, the session over the chunks it receives, the session counter.
    \<open>Broker_Session\<close> has the session loop in time: items of the stream, its end, the heartbeat
    timer; without the timer it is the loop of \<open>Broker_Ingest\<close>. \<open>Broker_Concurrent\<close> is the accept
    loop with a task per connection, the turns of the tasks in any order; \<open>Broker_Isolation\<close> shows
    that the tasks do not interfere and reduces each to \<open>handle_conn\<close>.
  \<^item> \<open>Api_Search\<close>, \<open>Api_Routes\<close>, \<open>Api_Safety\<close>, \<open>Live_Stream\<close> (\<open>routes.rs\<close>, \<open>main.rs\<close>): every route
    as a function of the disk and the request; the live stream as a sequence of ticks.
  \<^item> \<open>Client_Session\<close>, \<open>Client_Connect\<close>, \<open>Headless_Stream\<close> (\<open>session.rs\<close>, \<open>precall-mock\<close>): how the
    clients connect and what they put on the wire.
  \<^item> \<open>Client_Capture\<close>, \<open>Client_Run\<close>, \<open>Client_Devices\<close>, \<open>Client_Safety\<close> (\<open>privacy.rs\<close>, \<open>meta.rs\<close>,
    \<open>ocr.rs\<close>, \<open>jpeg.rs\<close>, \<open>config.rs\<close>, \<open>run.rs\<close>, \<open>main.rs\<close>; \<open>dxgi.rs\<close>, \<open>audio.rs\<close>,
    \<open>service.rs\<close>): what the capture client refuses to capture, its windows as UTF-16 of the
    system, the registry it keeps its settings in, its threads and its reconnect loop.
  \<^item> \<open>End_To_End\<close>: client, broker and API on one data root.

  \<^bold>\<open>How the model corresponds to the code.\<close> A struct is a record with the same fields, an enum a
  datatype with the same constructors, \<open>Result<T, E>\<close> the sum \<open>E + T\<close>. Wire integers are words
  of their width; an \<open>i64\<close> of the database is an integer, with \<open>wrap64\<close> where the code's own
  arithmetic can overflow; a \<open>usize\<close> counting bytes in memory is a natural number. A function
  on \<open>&mut self\<close> returns the new state, and also returns it with an error, so that what an
  early return leaves behind is visible. A float is its bit pattern.

  \<^bold>\<open>Interfaces.\<close> Four contracts are locales, each interpreted on the code's own model.
  \<open>framed_decoder\<close> (a decoder consumes what it reports and its verdict does not depend on later
  bytes) is discharged for \<open>mux_decode\<close>; from it follow that the result of draining does not
  depend on how the transport cuts the bytes and that one maximal frame bounds the buffer.
  \<open>keyed_store\<close> (what a read returns after a write at the same and at another place) is
  discharged for the object store of a client. \<open>state_machine\<close> (an invariant that every step
  keeps) is discharged for the metadata database, for enrichment passes, and for the admission of
  sessions. \<open>fair_rounds\<close> (a queue served in rounds of bounded width, where a round that passes an
  item over serves others ahead of it) is discharged twice for the queue of fresh captures; from it
  follows in how many rounds a capture is attempted, and in how many it has its vectors.

  \<^bold>\<open>What the lemmas show.\<close>

  \<^item> Wire: reassembly under any chunking, bounded buffers, round trip of frames and PDUs; the
    defect that makes the broker refuse the Windows client's frames.
  \<^item> Time: the calendar algorithm is right for every day; the unit the object layout divides
    by is a hundred days.
  \<^item> Trust: which server certificate, which credential and which bearer token is accepted,
    exactly.
  \<^item> Objects: confinement of keys, independence of distinct keys, authenticity of the token.
  \<^item> Metadata: an integrity invariant (unique keys, no dangling link, one index row per
    capture) over all sequences of operations; the full effect of an insertion and of a purge;
    timeline, filters, queues and escaping against their specification.
  \<^item> Vectors and enrichment: search returns the best k; a pass never fails and keeps the
    invariant whatever the embedder answers; a change of the embedding space survives a crash
    at each of its writes; every fresh capture is attempted within a bounded number of passes of
    the polling loop, whatever arrives meanwhile, and if the service answers it is then complete; the local embedder's vectors fit the stores.
  \<^item> Broker: who gets a session, what a session can touch, which frame goes with which
    metadata, how many sessions there are, when silence ends a session.
  \<^item> API: what a search answer contains and in which order, termination and content of the
    export, completeness of the live stream, the scope of a wipe.
  \<^item> Client: what is never captured, what a capture tick sends, the waiting times of the
    reconnect loop, persistence of an enrollment.
  \<^item> Concurrency: any interleaving of connections gives each client what the sequential
    \<open>handle_conn\<close> gives it.
  \<^item> Composition: what the headless client sends, the API serves; broker and API agree on the
    key; no session touches another client.

  \<^bold>\<open>Bounds.\<close> \<open>drain\<close> calls the decoder with one unit of fuel more than the buffer has bytes: a
  reported frame consumes at least one byte (\<open>consumes\<close> of \<open>framed_decoder\<close>), and
  \<open>drain_fuel_enough\<close> shows that any larger fuel gives the same. \<open>gfx_iter\<close>, \<open>chunks\<close>,
  \<open>fts5_strings\<close> (how FTS5 reads a query of strings) and \<open>export_pages\<close> are functions with termination proofs (the rest of the input
  gets shorter; the cursor of the export strictly falls among the timestamps stored). Loops
  that never end in the code (the live stream, the capture loop, the reconnect loop, the
  enrichment rounds) are folds over an explicit list of ticks, events or rounds; the properties
  hold for every list.

  \<^bold>\<open>Parameters.\<close> SHA-256, AES-256-GCM (\<open>aead_correct\<close>: opening what was sealed under the same
  key, nonce and associated data gives it back), JSON parsing and printing, UUID, base64 and URL
  parsing, the ranking of FTS5, the embedder's HTTP exchange, JPEG encoding, and
  the answers of the operating system are arguments of the definitions that
  use them; what is relied on is a named hypothesis, and each property with such a hypothesis
  has a witness in which the argument is a concrete function.

  \<^bold>\<open>Not modelled.\<close> TLS and sockets; the contents of PEM files and of generated certificates; the
  calls of Direct3D, WASAPI, WinRT OCR, UI Automation, the registry and the service manager (their
  answers are arguments); the Python AI service, which is a separate process behind HTTP; log
  output. SQLite is modelled as far as the
  statements of the program use it (keys, unique indexes, foreign keys with their cascades,
  \<open>AUTOINCREMENT\<close>, order and limit); disk faults are modelled for the object store and not for the
  database. Tasks that the code runs concurrently share state only through the database, where
  a transaction is a step, and through the session counter, whose interleavings are the steps of
  \<open>admission_step\<close>. In \<open>Broker_Concurrent\<close> a turn of a session is one step; handlers of one client
  that run on two threads at once are taken in the order of their transactions.
\<close>

end
